(* ===== verification/Go_Base.thy ===== *)
theory Go_Base
  imports Main "HOL-Library.Word"
begin

text \<open>
  The prelude of the development: how Go values and effects are written in HOL.

  \<^item> A Go \<open>byte\<close> is an \<open>8 word\<close>, a \<open>[]byte\<close> a list of them, a Go \<open>string\<close> an Isabelle
    \<open>string\<close> (a list of 8-bit characters, as Go strings are byte sequences).
  \<^item> Go's sized integers are \<open>int\<close> values with the conversion written out:
    \<open>uwrap n x\<close> is \<open>uintn(x)\<close>, \<open>swrap n x\<close> is \<open>intn(x)\<close>.
  \<^item> \<open>error\<close> values are the datatype \<open>go_error\<close>; a function returning \<open>(T, error)\<close>
    returns \<open>go_error + 'a\<close>, and one that also changes state is an \<open>('s, 'a) op\<close>.
    A run-time panic (slice or index out of range) is the value \<open>RuntimePanic\<close>: no Go
    code of the driver recovers it, so every combinator hands it on unchanged. \<open>OutOfFuel\<close> is
    no Go value: it is the result of a loop whose fuel ran out, handed on in the same way.
  \<^item> \<open>binary.BigEndian\<close> and \<open>binary.LittleEndian\<close> are \<open>be_val\<close>/\<open>be_bytes\<close> and
    \<open>le_val\<close>/\<open>le_bytes\<close>.
\<close>

unbundle bit_operations_syntax

named_theorems go_simps "unfolding rules of the Go helper functions"
named_theorems wire_simps "values and lengths of big- and little-endian byte strings"

subsection \<open>Errors and results\<close>

type_synonym byte = "8 word"

text \<open>The error codes of \<open>oracle/errors\<close> that the modelled code raises.\<close>

datatype ErrorCode =
    InvalidDateYear | ConnectionClosed | ProtocolViolation
  | ChannelReadFailed | ChannelWriteFailed | CtxTimeout
  | InvalidConnectionParameter
  | NamingDSNInvalid | NamingParseFailed | NamingEzConnectError | NamingContextError
  | NamingParsePosition | NamingParseValue | NamingParseValues | NamingParsePath
  | NamingParsePathSegment | NamingParseBounds
  | UnsupportedCharacterSet
  | InvalidNetworkValue | NetworkServerErrorCode | NetworkRetryLimitExceeded
  | InvalidNetworkLength | NetworkDataReadFailed | InvalidNetworkExpectedLength
  | InvalidNetworkContextExpectedLength | ErrConnectionInband | BreakPacketReceived
  | InvalidNetworkExpectedValue | InvalidNetworkContextExpectedValue | InvalidNetworkProperty
  | NetworkInternalError | TLSCertificateDNMatchFailed
  | ConfiguredDNInvalid | DNMalformedAttribute | DNUnsupportedAttribute | DNAttributeValueMissing
  | DNMalformedEscape | DNMismatchAtRDN | DNAttributeMissingFromCertificate | DNUnsupportedAttributeOID
  | DNDuplicateAttributeOID | DNAttributeOIDValueTypeInvalid | DNHexValueUnsupported
  | DNAttributeValueInvalidUTF8 | CertificateSubjectTrailingData | CertificateSubjectParseFailed
  | ConnectionRefusedDetail | RefuseDataParseFailed | RedirectAddressMissing
  | TLSRenegotiationUnsupported | UnexpectedConnectResponse | UnsupportedFeature | HTTPSProxyRequiresTCPS
  | NoListenerAvailable | HTTPSProxyConnectFailed | ListenerFailed | InvalidSID | InvalidServiceName | NoDispatcherAvailable | NoAvailableHandler
  | UnknownInstance | ListenerRequestTimeout
  | NamingInputMissing | NamingTokensMissing | NamingUnexpectedClosingParenthesis
  | NetworkCompressionFailed | NetworkDecompressionFailed
  | ConverterEmptyInput | ConverterRange | ConverterExpectedFormat
  | StatementExecutionFailed | InvalidIdentifier
  | StatementParsingDanglingColon | StatementParsingPlaceholdersArgsMismatch
  | StatementParsingInvalidArgCount | StatementParsingNameNotFound
  | StatementParsingDuplicateArg | StatementParsingInvalidOrdinal
  | MarshalEngineError | MarshalEngineFlushError

datatype go_arg = ArgStr string | ArgInt int | ArgNil

datatype go_error =
    io_EOF
  | GoError string
  | OracleError (code: ErrorCode) (cause: "go_error option") (args: "go_arg list")
  | RuntimePanic string
  | OutOfFuel

type_synonym 'a result = "go_error + 'a"
type_synonym ('s, 'a) op = "'s \<Rightarrow> 'a result \<times> 's"

abbreviation NewOracleError :: "ErrorCode \<Rightarrow> go_error option \<Rightarrow> go_arg list \<Rightarrow> go_error" where
  "NewOracleError c e as \<equiv> OracleError c e as"

fun is_panic :: "go_error \<Rightarrow> bool" where
  "is_panic (RuntimePanic _) = True"
| "is_panic OutOfFuel = True"
| "is_panic _ = False"

definition is_ok :: "'a result \<Rightarrow> bool" where
  "is_ok r = (case r of Inl _ \<Rightarrow> False | Inr _ \<Rightarrow> True)"

lemma is_ok_simps [simp]: "is_ok (Inr x)" "\<not> is_ok (Inl e)"
  by (simp_all add: is_ok_def)

definition no_panic :: "'a result \<Rightarrow> bool" where
  "no_panic r = (case r of Inl e \<Rightarrow> \<not> is_panic e | Inr _ \<Rightarrow> True)"

lemma no_panic_simps [simp]: "no_panic (Inr x)" "no_panic (Inl e) \<longleftrightarrow> \<not> is_panic e"
  by (simp_all add: no_panic_def)

definition retE :: "'a \<Rightarrow> ('s, 'a) op" where
  "retE x = (\<lambda>s. (Inr x, s))"

definition throwE :: "go_error \<Rightarrow> ('s, 'a) op" where
  "throwE e = (\<lambda>s. (Inl e, s))"

text \<open>Reading and changing a field, and a call that does not change the state.\<close>

definition getE :: "('s \<Rightarrow> 'a) \<Rightarrow> ('s, 'a) op" where
  "getE f = (\<lambda>s. (Inr (f s), s))"

definition modE :: "('s \<Rightarrow> 's) \<Rightarrow> ('s, unit) op" where
  "modE f = (\<lambda>s. (Inr (), f s))"

definition liftE :: "'a result \<Rightarrow> ('s, 'a) op" where
  "liftE r = (\<lambda>s. (r, s))"

text \<open>\<open>v, err := m(); if err != nil { return ..., err }; k(v)\<close>\<close>

definition bindE :: "('s, 'a) op \<Rightarrow> ('a \<Rightarrow> ('s, 'b) op) \<Rightarrow> ('s, 'b) op" where
  "bindE m k = (\<lambda>s. case m s of (Inl e, s') \<Rightarrow> (Inl e, s') | (Inr v, s') \<Rightarrow> k v s')"

text \<open>\<open>v, err := m(); if err != nil { return ..., f(err) }; return v\<close>\<close>

definition mapErr :: "(go_error \<Rightarrow> go_error) \<Rightarrow> ('s, 'a) op \<Rightarrow> ('s, 'a) op" where
  "mapErr f m = (\<lambda>s. case m s of
     (Inl e, s') \<Rightarrow> (Inl (if is_panic e then e else f e), s') | (Inr v, s') \<Rightarrow> (Inr v, s'))"

lemma retE_apply [simp]: "retE x s = (Inr x, s)"
  by (simp add: retE_def)

lemma throwE_apply [simp]: "throwE e s = (Inl e, s)"
  by (simp add: throwE_def)

lemma liftE_simps [simp]: "liftE (Inr x) = retE x" "liftE (Inl e) = throwE e"
  by (simp_all add: liftE_def retE_def throwE_def)

lemma getE_apply [simp]: "getE f s = (Inr (f s), s)"
  by (simp add: getE_def)

lemma modE_apply [simp]: "modE f s = (Inr (), f s)"
  by (simp add: modE_def)

lemma bindE_getE [simp]: "bindE (getE f) k s = k (f s) s"
  by (simp add: bindE_def)

lemma bindE_modE [simp]: "bindE (modE f) k s = k () (f s)"
  by (simp add: bindE_def)

lemma bindE_ok [simp]: "m s = (Inr v, s') \<Longrightarrow> bindE m k s = k v s'"
  by (simp add: bindE_def)

lemma bindE_err [simp]: "m s = (Inl e, s') \<Longrightarrow> bindE m k s = (Inl e, s')"
  by (simp add: bindE_def)

lemma mapErr_ok [simp]: "m s = (Inr v, s') \<Longrightarrow> mapErr f m s = (Inr v, s')"
  by (simp add: mapErr_def)

lemma mapErr_err [simp]: "m s = (Inl e, s') \<Longrightarrow> \<not> is_panic e \<Longrightarrow> mapErr f m s = (Inl (f e), s')"
  by (simp add: mapErr_def)

lemma bindE_retE [simp]: "bindE (retE x) k = k x"
  by (simp add: fun_eq_iff)

lemma bindE_assoc: "bindE (bindE f g) h = bindE f (\<lambda>x. bindE (g x) h)"
  by (auto simp: bindE_def fun_eq_iff split: prod.splits sum.splits)

lemma bindE_Inr_iff:
  "bindE m k s = (Inr y, t) \<longleftrightarrow> (\<exists>v u. m s = (Inr v, u) \<and> k v u = (Inr y, t))"
  by (auto simp: bindE_def split: prod.splits sum.splits)

lemma mapErr_Inr_iff [simp]: "mapErr f m s = (Inr y, t) \<longleftrightarrow> m s = (Inr y, t)"
  by (auto simp: mapErr_def split: prod.splits sum.splits)

subsection \<open>Loops that return at the first error\<close>

fun foldE :: "('a \<Rightarrow> 's \<Rightarrow> 's result) \<Rightarrow> 'a list \<Rightarrow> 's \<Rightarrow> 's result" where
  "foldE f [] s = Inr s"
| "foldE f (x # xs) s = (case f x s of Inl e \<Rightarrow> Inl e | Inr s' \<Rightarrow> foldE f xs s')"

lemma foldE_append: "foldE f (xs @ ys) s = (case foldE f xs s of Inl e \<Rightarrow> Inl e | Inr t \<Rightarrow> foldE f ys t)"
  by (induction xs arbitrary: s) (auto split: sum.splits)

lemma foldE_invariant:
  assumes "\<And>x s t. x \<in> set xs \<Longrightarrow> P s \<Longrightarrow> f x s = Inr t \<Longrightarrow> P t" "P s" "foldE f xs s = Inr t"
  shows "P t"
  using assms
proof (induction xs arbitrary: s)
  case (Cons x xs)
  obtain u where u: "f x s = Inr u" "foldE f xs u = Inr t" using Cons.prems(3) by (auto split: sum.splits)
  then have "P u" using Cons.prems(1) [of x s u] Cons.prems(2) by simp
  then show ?case using Cons.IH [of u] Cons.prems(1) u(2) by (meson list.set_intros(2))
qed simp

text \<open>A loop that appends one result per element.\<close>

fun mapE :: "('a \<Rightarrow> 'b result) \<Rightarrow> 'a list \<Rightarrow> 'b list result" where
  "mapE f [] = Inr []"
| "mapE f (x # xs) =
     (case f x of Inl e \<Rightarrow> Inl e | Inr y \<Rightarrow> (case mapE f xs of Inl e \<Rightarrow> Inl e | Inr ys \<Rightarrow> Inr (y # ys)))"

lemma mapE_ok: "list_all2 (\<lambda>x y. f x = Inr y) xs ys \<Longrightarrow> mapE f xs = Inr ys"
  by (induction rule: list_all2_induct) auto

lemma mapE_Inr: "mapE f xs = Inr ys \<longleftrightarrow> list_all2 (\<lambda>x y. f x = Inr y) xs ys"
proof
  show "mapE f xs = Inr ys \<Longrightarrow> list_all2 (\<lambda>x y. f x = Inr y) xs ys"
    by (induction xs arbitrary: ys) (auto split: sum.splits)
qed (rule mapE_ok)

subsection \<open>Weakest preconditions\<close>

text \<open>\<open>wp f Q E s\<close>: run from \<open>s\<close>, the operation \<open>f\<close> either returns a value with \<open>Q\<close> or an
  error with \<open>E\<close>. The rules of \<open>wp_simps\<close> take an operation apart.\<close>

definition wp :: "('s, 'a) op \<Rightarrow> ('a \<Rightarrow> 's \<Rightarrow> bool) \<Rightarrow> (go_error \<Rightarrow> 's \<Rightarrow> bool) \<Rightarrow> 's \<Rightarrow> bool" where
  "wp f Q E s = (case f s of (Inl e, s') \<Rightarrow> E e s' | (Inr v, s') \<Rightarrow> Q v s')"

named_theorems wp_simps "weakest preconditions of the combinators"

lemma wp_bindE [wp_simps]: "wp (bindE f k) Q E s = wp f (\<lambda>v. wp (k v) Q E) E s"
  by (auto simp: wp_def bindE_def split: prod.splits sum.splits)

lemma wp_retE [wp_simps]: "wp (retE v) Q E s = Q v s"
  by (simp add: wp_def)

lemma wp_throwE [wp_simps]: "wp (throwE e) Q E s = E e s"
  by (simp add: wp_def)

lemma wp_getE [wp_simps]: "wp (getE f) Q E s = Q (f s) s"
  by (simp add: wp_def)

lemma wp_modE [wp_simps]: "wp (modE f) Q E s = Q () (f s)"
  by (simp add: wp_def)

lemma wp_liftE [wp_simps]: "wp (liftE r) Q E s = (case r of Inl e \<Rightarrow> E e s | Inr v \<Rightarrow> Q v s)"
  by (simp add: wp_def liftE_def split: sum.splits)

lemma wp_if [wp_simps]: "wp (if b then f else g) Q E s = (if b then wp f Q E s else wp g Q E s)"
  by simp

lemma wp_mapErr [wp_simps]: "wp (mapErr h m) Q E s = wp m Q (\<lambda>e. E (if is_panic e then e else h e)) s"
  by (auto simp: wp_def mapErr_def split: prod.splits sum.splits)

lemma wp_mono:
  "wp f Q E s \<Longrightarrow> (\<And>v t. Q v t \<Longrightarrow> Q' v t) \<Longrightarrow> (\<And>e t. E e t \<Longrightarrow> E' e t) \<Longrightarrow> wp f Q' E' s"
  by (auto simp: wp_def split: prod.splits sum.splits)

lemma wp_ok: "wp f Q E s \<Longrightarrow> f s = (Inr v, t) \<Longrightarrow> Q v t"
  by (simp add: wp_def)

lemma wp_err: "wp f Q E s \<Longrightarrow> f s = (Inl e, t) \<Longrightarrow> E e t"
  by (simp add: wp_def)

subsection \<open>Sized integers and Go's division\<close>

definition uwrap :: "nat \<Rightarrow> int \<Rightarrow> int" where
  "uwrap n x = x mod 2 ^ n"

definition swrap :: "nat \<Rightarrow> int \<Rightarrow> int" where
  "swrap n x = (x + 2 ^ (n - 1)) mod 2 ^ n - 2 ^ (n - 1)"

lemma uwrap_id [simp]: "0 \<le> x \<Longrightarrow> x < 2 ^ n \<Longrightarrow> uwrap n x = x"
  by (simp add: uwrap_def)

lemma uwrap_bounds [simp]: "0 \<le> uwrap n x" "uwrap n x < 2 ^ n"
  by (simp_all add: uwrap_def)

lemma two_pow_pred: "0 < n \<Longrightarrow> (2::int) ^ n = 2 * 2 ^ (n - 1)"
  by (cases n) simp_all

lemma swrap_id:
  assumes "0 < n" "- (2 ^ (n - 1)) \<le> x" "x < 2 ^ (n - 1)"
  shows "swrap n x = x"
proof -
  have "0 \<le> x + 2 ^ (n - 1)" "x + 2 ^ (n - 1) < 2 ^ n"
    using assms two_pow_pred [of n] by linarith+
  then show ?thesis by (simp add: swrap_def)
qed

lemma swrap_bounds:
  assumes "0 < n" shows "- (2 ^ (n - 1)) \<le> swrap n x" "swrap n x < 2 ^ (n - 1)"
proof -
  have "(x + 2 ^ (n - 1)) mod 2 ^ n < (2::int) ^ n" "0 \<le> (x + 2 ^ (n - 1)) mod (2::int) ^ n"
    by simp_all
  then show "- (2 ^ (n - 1)) \<le> swrap n x" "swrap n x < 2 ^ (n - 1)"
    using two_pow_pred [OF assms] by (simp_all add: swrap_def)
qed

text \<open>Reinterpreting a signed value as unsigned and back gives it again: the native
  encodings write \<open>uint32(value)\<close> and read it back as \<open>int32\<close>.\<close>

lemma swrap_uwrap:
  assumes "0 < n" "- (2 ^ (n - 1)) \<le> x" "x < 2 ^ (n - 1)"
  shows "swrap n (uwrap n x) = x"
proof -
  have "swrap n (uwrap n x) = swrap n x"
    by (simp add: swrap_def uwrap_def mod_add_left_eq)
  then show ?thesis using swrap_id [OF assms] by simp
qed

text \<open>Go's \<open>/\<close> and \<open>%\<close> truncate towards zero.\<close>

definition go_div :: "int \<Rightarrow> int \<Rightarrow> int" where
  "go_div a b = sgn a * sgn b * (\<bar>a\<bar> div \<bar>b\<bar>)"

definition go_mod :: "int \<Rightarrow> int \<Rightarrow> int" where
  "go_mod a b = a - b * go_div a b"

lemma go_div_mod: "b * go_div a b + go_mod a b = a"
  by (simp add: go_mod_def)

lemma go_div_nonneg [simp]: "0 \<le> a \<Longrightarrow> 0 < b \<Longrightarrow> go_div a b = a div b"
  by (cases "a = 0") (simp_all add: go_div_def)

lemma go_mod_nonneg [simp]: "0 \<le> a \<Longrightarrow> 0 < b \<Longrightarrow> go_mod a b = a mod b"
  by (simp add: go_mod_def minus_mult_div_eq_mod)

lemma go_div_neg: "a < 0 \<Longrightarrow> 0 < b \<Longrightarrow> go_div a b = - ((- a) div b)"
  by (simp add: go_div_def)

lemma go_mod_neg: "a < 0 \<Longrightarrow> 0 < b \<Longrightarrow> go_mod a b = - ((- a) mod b)"
  using minus_mult_div_eq_mod [of "- a" b] by (simp add: go_mod_def go_div_neg)

subsection \<open>Bytes of words\<close>

lemma uint_byte_bounds [simp]: "0 \<le> uint (b :: byte)" "uint (b :: byte) < 256"
  using uint_bounded [of b] by simp_all

lemma uint_byte_le [simp]: "uint (b :: byte) \<le> 255"
  using uint_byte_bounds(2) [of b] by linarith

lemma uint_word_of_int_byte [simp]: "uint (word_of_int x :: byte) = x mod 256"
  by (simp add: uint_word_of_int)

lemma uint_and_7F: "uint (b AND 0x7F :: byte) = uint b mod 128"
proof -
  have "uint (b AND 0x7F) = uint b AND mask 7"
    by (simp add: unsigned_and_eq mask_eq_exp_minus_1)
  also have "\<dots> = uint b mod 128"
    by (simp only: take_bit_eq_mask [symmetric] take_bit_eq_mod) simp
  finally show ?thesis .
qed

subsection \<open>Big-endian and little-endian values\<close>

definition be_val :: "byte list \<Rightarrow> int" where
  "be_val bs = foldl (\<lambda>a b. a * 256 + uint b) 0 bs"

primrec be_bytes :: "nat \<Rightarrow> int \<Rightarrow> byte list" where
  "be_bytes 0 v = []"
| "be_bytes (Suc n) v = be_bytes n (v div 256) @ [word_of_int v]"

definition le_val :: "byte list \<Rightarrow> int" where
  "le_val bs = be_val (rev bs)"

definition le_bytes :: "nat \<Rightarrow> int \<Rightarrow> byte list" where
  "le_bytes n v = rev (be_bytes n v)"

lemma be_val_Nil [simp]: "be_val [] = 0"
  by (simp add: be_val_def)

lemma be_val_snoc [simp]: "be_val (bs @ [b]) = be_val bs * 256 + uint b"
  by (simp add: be_val_def)

lemma be_val_append: "be_val (xs @ ys) = be_val xs * 256 ^ length ys + be_val ys"
  by (induction ys rule: rev_induct) (simp_all add: algebra_simps flip: append_assoc)

lemma be_val_Cons: "be_val (b # bs) = uint b * 256 ^ length bs + be_val bs"
  using be_val_append [of "[b]" bs] by (simp add: be_val_def)

lemma be_val_zeros [simp]: "be_val (replicate n 0 @ bs) = be_val bs"
  by (induction n) (simp_all add: be_val_Cons)

lemma be_val_bounds [simp]: "0 \<le> be_val bs" "be_val bs < 256 ^ length bs"
proof (induction bs rule: rev_induct)
  case (snoc b bs)
  { case 1 then show ?case using snoc by simp }
  { case 2
    have "be_val bs + 1 \<le> 256 ^ length bs" using snoc(2) by linarith
    moreover have "uint b < 256" by simp
    ultimately have "be_val bs * 256 + uint b < 256 ^ length bs * 256" by linarith
    then show ?case by (simp add: power_add) }
qed simp_all

lemma length_be_bytes [simp, wire_simps]: "length (be_bytes n v) = n"
  by (induction n arbitrary: v) simp_all

lemma be_val_be_bytes [simp, wire_simps]: "be_val (be_bytes n v) = v mod 256 ^ n"
proof (induction n arbitrary: v)
  case (Suc n)
  have "v mod (256 * 256 ^ n) = 256 * (v div 256 mod 256 ^ n) + v mod 256"
    by (rule zmod_zmult2_eq) simp
  then show ?case by (simp add: Suc.IH)
qed simp

lemma be_bytes_be_val [simp, wire_simps]: "be_bytes (length bs) (be_val bs) = bs"
proof (induction bs rule: rev_induct)
  case (snoc b bs)
  have "(be_val bs * 256 + uint b) div 256 = be_val bs"
    using uint_byte_bounds [of b] by (simp add: div_add1_eq)
  moreover have "(word_of_int (be_val bs * 256 + uint b) :: byte) = b"
  proof (rule word_uint_eqI)
    show "uint (word_of_int (be_val bs * 256 + uint b) :: byte) = uint b"
      by (simp only: uint_word_of_int_byte mod_mult_self4) simp
  qed
  ultimately show ?case using snoc by simp
qed simp

lemma length_le_bytes [simp, wire_simps]: "length (le_bytes n v) = n"
  by (simp add: le_bytes_def)

lemma le_val_le_bytes [simp, wire_simps]: "le_val (le_bytes n v) = v mod 256 ^ n"
  by (simp add: le_bytes_def le_val_def)

lemma le_val_bounds [simp]: "0 \<le> le_val bs" "le_val bs < 256 ^ length bs"
  using be_val_bounds [of "rev bs"] by (simp_all add: le_val_def)

lemma hd_be_bytes_pos:
  assumes "0 < v" "v < 256 ^ n"
  shows "be_bytes n v \<noteq> replicate n 0"
proof
  assume "be_bytes n v = replicate n 0"
  then have "be_val (be_bytes n v) = 0"
    using be_val_zeros [of n "[]"] by simp
  then show False using assms by simp
qed

subsection \<open>Slices\<close>

text \<open>\<open>buf[i]\<close>, \<open>buf[from:to]\<close> and the fixed-width reads at an offset; outside the slice they
  panic.\<close>

abbreviation index_panic :: go_error where
  "index_panic \<equiv> RuntimePanic ''index out of range''"

definition rd_bytes :: "byte list \<Rightarrow> nat \<Rightarrow> nat \<Rightarrow> byte list result" where
  "rd_bytes buf off n =
     (if off + n \<le> length buf then Inr (take n (drop off buf)) else Inl index_panic)"

definition rd_u8 :: "byte list \<Rightarrow> nat \<Rightarrow> int result" where
  "rd_u8 buf off = map_sum id be_val (rd_bytes buf off 1)"

definition rd_u16 :: "byte list \<Rightarrow> nat \<Rightarrow> int result" where
  "rd_u16 buf off = map_sum id be_val (rd_bytes buf off 2)"

definition rd_u32 :: "byte list \<Rightarrow> nat \<Rightarrow> int result" where
  "rd_u32 buf off = map_sum id be_val (rd_bytes buf off 4)"

lemma rd_ok [simp]:
  "off + n \<le> length buf \<Longrightarrow> rd_bytes buf off n = Inr (take n (drop off buf))"
  "off + 1 \<le> length buf \<Longrightarrow> rd_u8 buf off = Inr (be_val (take 1 (drop off buf)))"
  "off + 2 \<le> length buf \<Longrightarrow> rd_u16 buf off = Inr (be_val (take 2 (drop off buf)))"
  "off + 4 \<le> length buf \<Longrightarrow> rd_u32 buf off = Inr (be_val (take 4 (drop off buf)))"
  by (simp_all add: rd_bytes_def rd_u8_def rd_u16_def rd_u32_def)

text \<open>\<open>v, err := r; if err != nil { return ..., err }; k(v)\<close> without state.\<close>

definition andThen :: "'a result \<Rightarrow> ('a \<Rightarrow> 'b result) \<Rightarrow> 'b result" where
  "andThen r k = (case r of Inl e \<Rightarrow> Inl e | Inr v \<Rightarrow> k v)"

lemma andThen_simps [simp]: "andThen (Inr v) k = k v" "andThen (Inl e) k = Inl e"
  by (simp_all add: andThen_def)

lemma andThen_Inr_iff: "andThen r k = Inr y \<longleftrightarrow> (\<exists>v. r = Inr v \<and> k v = Inr y)"
  by (cases r) simp_all

text \<open>\<open>copy(buf[off:], bs)\<close> where \<open>bs\<close> fits.\<close>

definition put_bytes :: "nat \<Rightarrow> byte list \<Rightarrow> byte list \<Rightarrow> byte list" where
  "put_bytes off bs buf = take off buf @ bs @ drop (off + length bs) buf"

lemma length_put_bytes [simp]:
  "off + length bs \<le> length buf \<Longrightarrow> length (put_bytes off bs buf) = length buf"
  by (simp add: put_bytes_def)

subsection \<open>Go maps\<close>

text \<open>A \<open>map[string]T\<close> that the code ranges over is an association list with different keys.\<close>

definition map_delete :: "string \<Rightarrow> (string \<times> 'b) list \<Rightarrow> (string \<times> 'b) list" where
  "map_delete k m = filter (\<lambda>p. fst p \<noteq> k) m"

definition map_assign :: "string \<Rightarrow> 'b \<Rightarrow> (string \<times> 'b) list \<Rightarrow> (string \<times> 'b) list" where
  "map_assign k v m = (k, v) # map_delete k m"

lemma map_of_filter_key: "map_of (filter (\<lambda>p. fst p \<noteq> k) xs) k' = (if k' = k then None else map_of xs k')"
  by (induction xs) auto

lemma map_of_map_delete: "map_of (map_delete k m) k' = (if k' = k then None else map_of m k')"
  by (simp add: map_delete_def map_of_filter_key)

end
