(* ===== verification/Go_Strings.thy ===== *)
theory Go_Strings
  imports Go_Base
begin

text \<open>
  The parts of Go's \<open>strings\<close>, \<open>strconv\<close> and \<open>fmt\<close> packages that the driver uses, on
  7-bit ASCII text: on it, Go's runes and bytes coincide, \<open>unicode.IsSpace\<close> is the six
  ASCII blanks and \<open>ToUpper\<close>/\<open>ToLower\<close> move the 26 letters. The lemmas are the round
  trips between numbers and their decimal text that the converters rest on.
\<close>

subsection \<open>Decimal digits\<close>

fun digits10 :: "nat \<Rightarrow> nat list" where
  "digits10 n = (if n < 10 then [n] else digits10 (n div 10) @ [n mod 10])"

declare digits10.simps [simp del]

definition dec_val :: "nat list \<Rightarrow> nat" where
  "dec_val ds = foldl (\<lambda>a d. a * 10 + d) 0 ds"

lemma dec_val_Nil [simp]: "dec_val [] = 0"
  by (simp add: dec_val_def)

lemma dec_val_snoc [simp]: "dec_val (ds @ [d]) = dec_val ds * 10 + d"
  by (simp add: dec_val_def)

lemma dec_val_append: "dec_val (xs @ ys) = dec_val xs * 10 ^ length ys + dec_val ys"
  by (induction ys rule: rev_induct) (simp_all add: algebra_simps flip: append_assoc)

lemma dec_val_Cons: "dec_val (d # ds) = d * 10 ^ length ds + dec_val ds"
  using dec_val_append [of "[d]" ds] by (simp add: dec_val_def)

lemma dec_val_zeros [simp]: "dec_val (replicate k 0) = 0"
  by (induction k) (simp_all add: dec_val_Cons)

lemma dec_val_append_zeros [simp]: "dec_val (ds @ replicate k 0) = dec_val ds * 10 ^ k"
  by (simp add: dec_val_append)

lemma dec_val_lead_zeros [simp]: "dec_val (replicate k 0 @ ds) = dec_val ds"
  by (simp add: dec_val_append)

definition digits_ok :: "nat list \<Rightarrow> bool" where
  "digits_ok ds = list_all (\<lambda>d. d < 10) ds"

lemma digits_ok_simps [simp]:
  "digits_ok []" "digits_ok (d # ds) \<longleftrightarrow> d < 10 \<and> digits_ok ds"
  "digits_ok (xs @ ys) \<longleftrightarrow> digits_ok xs \<and> digits_ok ys"
  by (auto simp: digits_ok_def)

lemma digits_ok_replicate [simp]: "digits_ok (replicate k 0)"
  by (simp add: digits_ok_def list_all_iff)

lemma dec_val_less: "digits_ok ds \<Longrightarrow> dec_val ds < 10 ^ length ds"
proof (induction ds rule: rev_induct)
  case (snoc d ds)
  then have "dec_val ds < 10 ^ length ds" "d < 10" by simp_all
  then show ?case by simp
qed simp

lemma dec_val_digits10 [simp]: "dec_val (digits10 n) = n"
proof (induction n rule: digits10.induct)
  case (1 n)
  show ?case
  proof (cases "n < 10")
    case True
    then show ?thesis using dec_val_Cons [of n "[]"] by (simp add: digits10.simps [of n])
  next
    case False
    then show ?thesis using 1 by (simp add: digits10.simps [of n])
  qed
qed

lemma digits_ok_digits10 [simp]: "digits_ok (digits10 n)"
  by (induction n rule: digits10.induct) (subst digits10.simps, simp)

lemma digits10_not_Nil [simp]: "digits10 n \<noteq> []"
  by (subst digits10.simps) simp

lemma hd_digits10: "0 < n \<Longrightarrow> hd (digits10 n) \<noteq> 0"
proof (induction n rule: digits10.induct)
  case (1 n)
  then show ?case by (subst digits10.simps) (auto simp: hd_append)
qed

lemma length_digits10_le: "n < 10 ^ k \<Longrightarrow> 0 < k \<Longrightarrow> length (digits10 n) \<le> k"
proof (induction n arbitrary: k rule: digits10.induct)
  case (1 n)
  show ?case
  proof (cases "n < 10")
    case True
    then show ?thesis using 1 by (simp add: digits10.simps [of n])
  next
    case False
    then obtain j where k: "k = Suc j" "0 < j"
      using 1(2,3) by (cases k; cases "k - 1") auto
    then have "n div 10 < 10 ^ j" using 1(2) by simp
    then have "length (digits10 (n div 10)) \<le> j" using 1(1) False k by simp
    then show ?thesis using False k by (simp add: digits10.simps [of n])
  qed
qed

text \<open>A digit string without leading zero is the one \<open>digits10\<close> prints.\<close>

lemma digits10_dec_val:
  "digits_ok ds \<Longrightarrow> ds \<noteq> [] \<Longrightarrow> hd ds \<noteq> 0 \<Longrightarrow> digits10 (dec_val ds) = ds"
proof (induction ds rule: rev_induct)
  case (snoc d ds)
  show ?case
  proof (cases "ds = []")
    case True
    then show ?thesis using snoc by (simp add: digits10.simps dec_val_def)
  next
    case False
    have "0 < dec_val ds"
      using False snoc.prems by (cases ds) (auto simp: dec_val_Cons)
    moreover have "d < 10" using snoc.prems by simp
    ultimately show ?thesis using snoc False by (simp add: digits10.simps [of "dec_val ds * 10 + d"])
  qed
qed simp

text \<open>Without the trailing zeros.\<close>

definition strip0 :: "nat list \<Rightarrow> nat list" where
  "strip0 ds = rev (dropWhile (\<lambda>d. d = 0) (rev ds))"

lemma strip0_zeros: "\<exists>z. ds = strip0 ds @ replicate z 0"
proof -
  have "takeWhile (\<lambda>d. d = 0) (rev ds) = replicate (length (takeWhile (\<lambda>d. d = 0) (rev ds))) 0"
    by (metis (mono_tags, lifting) replicate_eqI set_takeWhileD)
  then show ?thesis unfolding strip0_def
    by (metis rev_append rev_replicate rev_rev_ident takeWhile_dropWhile_id)
qed

lemma strip0_append_zeros: "ds = [] \<or> last ds \<noteq> 0 \<Longrightarrow> strip0 (ds @ replicate z 0) = ds"
proof -
  assume "ds = [] \<or> last ds \<noteq> 0"
  then have "dropWhile (\<lambda>d. d = 0) (rev ds) = rev ds"
    by (simp add: dropWhile_eq_self_iff hd_rev)
  then show ?thesis by (simp add: strip0_def dropWhile_append)
qed

subsection \<open>Digits as characters and bytes\<close>

definition digit_char :: "nat \<Rightarrow> char" where
  "digit_char d = char_of (48 + d)"

definition is_digit :: "char \<Rightarrow> bool" where
  "is_digit c = (48 \<le> (of_char c :: nat) \<and> (of_char c :: nat) \<le> 57)"

definition char_digit :: "char \<Rightarrow> nat" where
  "char_digit c = of_char c - 48"

lemma digit_char_inv [simp]:
  "d < 10 \<Longrightarrow> is_digit (digit_char d)" "d < 10 \<Longrightarrow> char_digit (digit_char d) = d"
  by (simp_all add: digit_char_def is_digit_def char_digit_def of_char_of)

lemma char_digit_inv [simp]: "is_digit c \<Longrightarrow> digit_char (char_digit c) = c"
  by (simp add: digit_char_def is_digit_def char_digit_def)

lemma map_char_digit [simp]: "digits_ok ds \<Longrightarrow> map (char_digit \<circ> digit_char) ds = ds"
  by (induction ds) simp_all

lemma digit_char_0 [simp]: "digit_char 0 = CHR ''0''"
  by code_simp

lemma list_all_is_digit [simp]: "digits_ok ds \<Longrightarrow> list_all is_digit (map digit_char ds)"
  by (induction ds) simp_all

text \<open>\<open>[]byte(s)\<close>\<close>

definition bytes_of :: "string \<Rightarrow> byte list" where
  "bytes_of s = map of_char s"

definition string_of :: "byte list \<Rightarrow> string" where
  "string_of bs = map (\<lambda>b. char_of (unat b)) bs"

lemma unat_of_char: "unat (of_char c :: byte) = of_char c"
proof -
  have "(of_char c :: byte) = of_nat (of_char c)" by (cases c) simp
  moreover have "(of_char c :: nat) < 256" by (cases c) simp
  ultimately show ?thesis by (simp add: unat_of_nat)
qed

lemma string_of_bytes_of [simp]: "string_of (bytes_of s) = s"
  by (simp add: string_of_def bytes_of_def map_idI unat_of_char)

definition dbyte :: "nat \<Rightarrow> byte" where
  "dbyte d = word_of_nat (48 + d)"

lemma length_bytes_of [simp]: "length (bytes_of s) = length s"
  by (simp add: bytes_of_def)

lemma of_char_digit_char: "d < 10 \<Longrightarrow> (of_char (digit_char d) :: byte) = dbyte d"
proof -
  assume "d < 10"
  then have "(of_char (digit_char d) :: nat) = 48 + d"
    by (simp add: digit_char_def of_char_of)
  then show ?thesis
    using of_nat_of_char [of "digit_char d", where 'a = "byte"] by (simp add: dbyte_def)
qed

lemma bytes_of_digits: "digits_ok ds \<Longrightarrow> bytes_of (map digit_char ds) = map dbyte ds"
  by (induction ds) (simp_all add: bytes_of_def of_char_digit_char)

subsection \<open>strconv\<close>

definition FormatUint :: "nat \<Rightarrow> string" where
  "FormatUint n = map digit_char (digits10 n)"

definition FormatInt :: "int \<Rightarrow> string" where
  "FormatInt v = (if v < 0 then CHR ''-'' # FormatUint (nat (- v)) else FormatUint (nat v))"

text \<open>\<open>strconv.ParseInt(s, 10, bits)\<close>: an optional sign, then at least one digit.\<close>

definition ParseInt :: "string \<Rightarrow> nat \<Rightarrow> int result" where
  "ParseInt s bits =
     (let neg = (s \<noteq> [] \<and> hd s = CHR ''-'');
          t = (if s \<noteq> [] \<and> (hd s = CHR ''-'' \<or> hd s = CHR ''+'') then tl s else s);
          n = int (dec_val (map char_digit t))
      in if t = [] \<or> \<not> list_all is_digit t then Inl (GoError ''invalid syntax'')
         else if neg then (if n > 2 ^ (bits - 1) then Inl (GoError ''value out of range'') else Inr (- n))
         else (if n \<ge> 2 ^ (bits - 1) then Inl (GoError ''value out of range'') else Inr n))"

definition Atoi :: "string \<Rightarrow> int result" where
  "Atoi s = ParseInt s 64"

lemma digit_not_sign [simp]:
  "is_digit c \<Longrightarrow> c \<noteq> CHR ''-''" "is_digit c \<Longrightarrow> c \<noteq> CHR ''+''"
  "is_digit c \<Longrightarrow> c \<noteq> CHR '':''" "is_digit c \<Longrightarrow> c \<noteq> CHR ''.''" "is_digit c \<Longrightarrow> c \<noteq> CHR '' ''"
  by (auto simp: is_digit_def)

lemma FormatUint_not_Nil [simp]: "FormatUint n \<noteq> []"
  by (simp add: FormatUint_def)

lemma FormatUint_digits [simp]: "list_all is_digit (FormatUint n)"
  by (simp add: FormatUint_def)

lemma ParseInt_digits:
  assumes "digits_ok ds" "ds \<noteq> []" "int (dec_val ds) < 2 ^ (bits - 1)"
  shows "ParseInt (map digit_char ds) bits = Inr (int (dec_val ds))"
proof -
  have "is_digit (hd (map digit_char ds))"
    using assms by (cases ds) simp_all
  then show ?thesis using assms by (simp add: ParseInt_def Let_def)
qed

lemma ParseInt_FormatUint [simp]:
  "int n < 2 ^ (bits - 1) \<Longrightarrow> ParseInt (FormatUint n) bits = Inr (int n)"
  using ParseInt_digits [of "digits10 n" bits] by (simp add: FormatUint_def)

lemma ParseInt_FormatInt:
  assumes "- (2 ^ (bits - 1)) \<le> v" "v < 2 ^ (bits - 1)"
  shows "ParseInt (FormatInt v) bits = Inr v"
proof (cases "v < 0")
  case True
  have "map char_digit (FormatUint n) = digits10 n" for n
    by (simp add: FormatUint_def)
  then show ?thesis
    using True assms by (simp add: FormatInt_def ParseInt_def Let_def)
next
  case False
  then show ?thesis using assms by (simp add: FormatInt_def)
qed

text \<open>\<open>fmt.Sprintf("%0kd", n)\<close> for a non-negative number.\<close>

definition fmt_pad :: "nat \<Rightarrow> nat \<Rightarrow> string" where
  "fmt_pad k n = replicate (k - length (FormatUint n)) (CHR ''0'') @ FormatUint n"

lemma fmt_pad_digits:
  "fmt_pad k n = map digit_char (replicate (k - length (digits10 n)) 0 @ digits10 n)"
  by (simp add: fmt_pad_def FormatUint_def)

lemma list_all_fmt_pad [simp]: "list_all is_digit (fmt_pad k n)"
  by (simp only: fmt_pad_digits list_all_is_digit digits_ok_simps digits_ok_replicate digits_ok_digits10)

lemma fmt_pad_not_Nil [simp]: "fmt_pad k n \<noteq> []"
  by (simp add: fmt_pad_def)

lemma ParseInt_fmt_pad [simp]:
  "int n < 2 ^ (bits - 1) \<Longrightarrow> ParseInt (fmt_pad k n) bits = Inr (int n)"
  using ParseInt_digits [of "replicate (k - length (digits10 n)) 0 @ digits10 n" bits]
  by (simp add: fmt_pad_digits)

lemma length_fmt_pad: "n < 10 ^ k \<Longrightarrow> 0 < k \<Longrightarrow> length (fmt_pad k n) = k"
  using length_digits10_le [of n k] by (simp add: fmt_pad_digits)

subsection \<open>strings\<close>

definition is_space :: "char \<Rightarrow> bool" where
  "is_space c = ((of_char c :: nat) = 32 \<or> (9 \<le> (of_char c :: nat) \<and> (of_char c :: nat) \<le> 13))"

definition TrimLeftFunc :: "(char \<Rightarrow> bool) \<Rightarrow> string \<Rightarrow> string" where
  "TrimLeftFunc p s = dropWhile p s"

definition TrimRightFunc :: "(char \<Rightarrow> bool) \<Rightarrow> string \<Rightarrow> string" where
  "TrimRightFunc p s = rev (dropWhile p (rev s))"

definition TrimSpace :: "string \<Rightarrow> string" where
  "TrimSpace s = TrimRightFunc is_space (TrimLeftFunc is_space s)"

definition upper_char :: "char \<Rightarrow> char" where
  "upper_char c = (if 97 \<le> (of_char c :: nat) \<and> (of_char c :: nat) \<le> 122 then char_of (of_char c - 32 :: nat) else c)"

definition lower_char :: "char \<Rightarrow> char" where
  "lower_char c = (if 65 \<le> (of_char c :: nat) \<and> (of_char c :: nat) \<le> 90 then char_of (of_char c + 32 :: nat) else c)"

definition ToUpper :: "string \<Rightarrow> string" where
  "ToUpper s = map upper_char s"

definition ToLower :: "string \<Rightarrow> string" where
  "ToLower s = map lower_char s"

text \<open>\<open>strings.IndexByte\<close>: \<open>-1\<close> when absent.\<close>

definition IndexByte :: "string \<Rightarrow> char \<Rightarrow> int" where
  "IndexByte s c = (if c \<in> set s then int (length (takeWhile (\<lambda>x. x \<noteq> c) s)) else - 1)"

fun Split :: "string \<Rightarrow> char \<Rightarrow> string list" where
  "Split [] c = [[]]"
| "Split (x # xs) c =
     (if x = c then [] # Split xs c
      else (case Split xs c of [] \<Rightarrow> [[x]] | w # ws \<Rightarrow> (x # w) # ws))"

fun SplitN :: "string \<Rightarrow> char \<Rightarrow> nat \<Rightarrow> string list" where
  "SplitN s c 0 = []"
| "SplitN s c (Suc 0) = [s]"
| "SplitN s c (Suc (Suc n)) =
     (if c \<in> set s
      then takeWhile (\<lambda>x. x \<noteq> c) s # SplitN (tl (dropWhile (\<lambda>x. x \<noteq> c) s)) c (Suc n)
      else [s])"

text \<open>\<open>strings.Join\<close> with a separator of one character.\<close>

fun Join :: "string list \<Rightarrow> char \<Rightarrow> string" where
  "Join [] sep = []"
| "Join [s] sep = s"
| "Join (s # ss) sep = s @ sep # Join ss sep"

lemma Join_Cons: "ss \<noteq> [] \<Longrightarrow> Join (s # ss) sep = s @ sep # Join ss sep"
  by (cases ss) auto

lemma Join_ends:
  assumes "ss \<noteq> []" "list_all (\<lambda>s. s \<noteq> []) ss"
  shows "Join ss sep \<noteq> []" "hd (Join ss sep) = hd (hd ss)" "last (Join ss sep) = last (last ss)"
  using assms by (induction ss sep rule: Join.induct) auto

lemma TrimSpace_id: "s \<noteq> [] \<Longrightarrow> \<not> is_space (hd s) \<Longrightarrow> \<not> is_space (last s) \<Longrightarrow> TrimSpace s = s"
  using dropWhile_eq_self_iff [of is_space s] dropWhile_eq_self_iff [of is_space "rev s"]
  by (simp add: TrimSpace_def TrimRightFunc_def TrimLeftFunc_def hd_rev)

lemma takeWhile_sep [simp]: "c \<notin> set xs \<Longrightarrow> takeWhile (\<lambda>x. x \<noteq> c) (xs @ c # ys) = xs"
  by (induction xs) auto

lemma dropWhile_sep [simp]: "c \<notin> set xs \<Longrightarrow> dropWhile (\<lambda>x. x \<noteq> c) (xs @ c # ys) = c # ys"
  by (induction xs) auto

lemma IndexByte_sep [simp]: "c \<notin> set xs \<Longrightarrow> IndexByte (xs @ c # ys) c = int (length xs)"
  by (simp add: IndexByte_def)

lemma IndexByte_absent [simp]: "c \<notin> set s \<Longrightarrow> IndexByte s c = - 1"
  by (simp add: IndexByte_def)

lemma SplitN_sep [simp]:
  "c \<notin> set xs \<Longrightarrow> SplitN (xs @ c # ys) c (Suc (Suc n)) = xs # SplitN ys c (Suc n)"
  by simp

lemma not_is_digit [simp]:
  "\<not> is_digit CHR ''-''" "\<not> is_digit CHR '':''" "\<not> is_digit CHR ''.''" "\<not> is_digit CHR '' ''"
  by (simp_all add: is_digit_def)

lemma digit_sep_notin:
  "list_all is_digit s \<Longrightarrow> CHR ''-'' \<notin> set s" "list_all is_digit s \<Longrightarrow> CHR '':'' \<notin> set s"
  "list_all is_digit s \<Longrightarrow> CHR ''.'' \<notin> set s" "list_all is_digit s \<Longrightarrow> CHR '' '' \<notin> set s"
  by (auto simp: list_all_iff)

lemma digit_not_space [simp]: "is_digit c \<Longrightarrow> \<not> is_space c"
  by (simp add: is_digit_def is_space_def)

lemma Split_not_Nil [simp]: "Split s c \<noteq> []"
  by (cases s) (auto split: list.splits)

lemma upper_char_idem [simp]: "upper_char (upper_char c) = upper_char c"
proof -
  have "(of_char c :: nat) < 256" by simp
  then show ?thesis by (auto simp: upper_char_def of_char_of)
qed

lemma ToUpper_idem [simp]: "ToUpper (ToUpper s) = ToUpper s"
  by (simp add: ToUpper_def)

end
