(* ===== verification/Oracle_Number.thy ===== *)
theory Oracle_Number
  imports Complex_Main Go_Strings
begin

text \<open>
  Oracle NUMBER (\<open>internal/driver/ttc/converters/number.go\<close>): the wire format, a lead byte
  with sign and base-100 exponent followed by base-100 digit pairs, its encoders
  (\<open>EncodeInt\<close>, \<open>EncodeUInt\<close>, \<open>ToNumber\<close>) and its decoders (\<open>FromNumber\<close> on a \<open>uint64\<close>
  mantissa, \<open>fromNumberBig\<close> on a \<open>big.Int\<close> mantissa, \<open>DecodeInt\<close>, \<open>DecodeDecimal\<close>,
  \<open>DecodeExactDecimalAsString\<close>). \<open>uint64\<close> values are \<open>int\<close> with \<open>uwrap 64\<close> written
  where the code computes them; \<open>big.Int\<close> is \<open>int\<close>, a \<open>big.Rat\<close> is a numerator and a
  positive denominator.
\<close>

subsection \<open>Constants\<close>

definition negTerminatorByte :: byte where [simp]: "negTerminatorByte = 0x66"
definition leadSignBitMask :: byte where [simp]: "leadSignBitMask = 0x80"
definition exponentMask :: byte where [simp]: "exponentMask = 0x7F"
definition decimalBase :: int where [simp]: "decimalBase = 10"
definition packedPairBase :: int where [simp]: "packedPairBase = 100"
definition packByteBias :: byte where [simp]: "packByteBias = 1"
definition exponentBias :: int where [simp]: "exponentBias = 64"
definition maxSingleDigit :: int where [simp]: "maxSingleDigit = 9"
definition numberZeroWireByte :: byte where [simp]: "numberZeroWireByte = 0x80"
definition zeroChar :: byte where [simp]: "zeroChar = 0x30"
definition numberWireMaxLen :: nat where [simp]: "numberWireMaxLen = 21"
definition numberMinPrecision :: int where [simp]: "numberMinPrecision = 1"
definition numberMaxPrecision :: int where [simp]: "numberMaxPrecision = 38"
definition numberMinScale :: int where [simp]: "numberMinScale = -84"
definition numberMaxScale :: int where [simp]: "numberMaxScale = 127"

definition pow10 :: "int list" where
  "pow10 =
     [1, 10, 100, 1000, 10000, 100000, 1000000, 10000000, 100000000, 1000000000, 10000000000,
      100000000000, 1000000000000, 10000000000000, 100000000000000, 1000000000000000,
      10000000000000000, 100000000000000000, 1000000000000000000, 10000000000000000000]"

abbreviation number_err :: "ErrorCode \<Rightarrow> string \<Rightarrow> string \<Rightarrow> go_error" where
  "number_err c reason expected \<equiv>
     NewOracleError c None [ArgStr ''NUMBER'', ArgStr ''Decode'', ArgStr reason, ArgStr expected]"

abbreviation int64_range_err :: go_error where
  "int64_range_err \<equiv> NewOracleError ConverterRange None
     [ArgStr ''NUMBER'', ArgStr ''Decode'', ArgStr ''out-of-range'', ArgInt (- (2 ^ 63)), ArgInt (2 ^ 63 - 1)]"

subsection \<open>Validation\<close>

definition validateNumberWireLength :: "byte list \<Rightarrow> unit result" where
  "validateNumberWireLength inputData =
     (if length inputData > numberWireMaxLen
      then Inl (number_err ConverterExpectedFormat ''invalid-length'' (FormatUint numberWireMaxLen))
      else Inr ())"

definition validateNumberMetadata :: "int \<Rightarrow> int \<Rightarrow> unit result" where
  "validateNumberMetadata precision scale =
     (if precision \<noteq> 0 \<and> precision < numberMinPrecision
      then Inl (number_err ConverterExpectedFormat ''out-of-range'' (''0..'' @ FormatInt numberMaxPrecision))
      else if precision > numberMaxPrecision
      then Inl (number_err ConverterExpectedFormat ''precision-exceeded'' (''<='' @ FormatInt numberMaxPrecision))
      else if scale < numberMinScale \<or> scale > numberMaxScale
      then Inl (number_err ConverterExpectedFormat ''out-of-range''
             (FormatInt numberMinScale @ ''..'' @ FormatInt numberMaxScale))
      else Inr ())"

subsection \<open>Parsing the wire format\<close>

text \<open>The lead byte: the sign bit and the biased base-100 exponent.\<close>

definition numberNegative :: "byte \<Rightarrow> bool" where
  "numberNegative b = (b AND leadSignBitMask = 0)"

definition numberExponent :: "byte \<Rightarrow> int" where
  "numberExponent b =
     (if numberNegative b then uint (b XOR exponentMask) - exponentBias
      else uint (b AND exponentMask) - exponentBias)"

text \<open>The digit pairs: everything after the lead byte, without the terminator of a
  negative number.\<close>

definition numberPayload :: "byte list \<Rightarrow> byte list result" where
  "numberPayload inputData =
     (if numberNegative (hd inputData) \<and> last inputData = negTerminatorByte
      then (if length inputData = 1
            then Inl (number_err ConverterExpectedFormat ''invalid-format'' ''_negTerminatorByte'')
            else Inr (butlast (tl inputData)))
      else Inr (tl inputData))"

text \<open>The loop of \<open>FromNumber\<close> over the digit pairs, on \<open>uint16\<close> and \<open>uint64\<close> values.\<close>

primrec fromNumber_loop :: "bool \<Rightarrow> byte list \<Rightarrow> int \<Rightarrow> int \<Rightarrow> (int \<times> int) result" where
  "fromNumber_loop negative [] mantissa mantissaDigits = Inr (mantissa, mantissaDigits)"
| "fromNumber_loop negative (digit100 # buf) mantissa mantissaDigits =
     (let d0 = uwrap 16 (uint digit100 - 1);
          d = (if negative then uwrap 16 (packedPairBase - d0) else d0);
          highDigit = d div decimalBase;
          lowDigit = d mod decimalBase;
          pair = d
      in if d > packedPairBase - 1
         then Inl (number_err ConverterExpectedFormat ''invalid-format'' ''packed-digit[0..99]'')
         else if highDigit < 0 \<or> highDigit > maxSingleDigit \<or> lowDigit < 0 \<or> lowDigit > maxSingleDigit
         then Inl (number_err ConverterExpectedFormat ''invalid-format'' ''single-digit[0..9]'')
         else if mantissa > (2 ^ 64 - 1 - pair) div packedPairBase
         then Inl (number_err ConverterExpectedFormat ''precision-exceeded'' ''uint64 mantissa'')
         else fromNumber_loop negative buf (uwrap 64 (mantissa * packedPairBase + pair)) (mantissaDigits + 2))"

text \<open>\<open>FromNumber\<close> returns the mantissa, the sign, the base-10 exponent of the mantissa's
  last digit and the number of digits.\<close>

definition FromNumber :: "byte list \<Rightarrow> (int \<times> bool \<times> int \<times> int) result" where
  "FromNumber inputData =
     (if inputData = [] then Inl (NewOracleError ConverterEmptyInput None [ArgStr ''NUMBER'', ArgStr ''Decode''])
      else case validateNumberWireLength inputData of
        Inl e \<Rightarrow> Inl e
      | Inr _ \<Rightarrow>
          if hd inputData = numberZeroWireByte then Inr (0, False, 0, 0)
          else
            let negative = numberNegative (hd inputData);
                exponent = numberExponent (hd inputData)
            in case numberPayload inputData of
                 Inl e \<Rightarrow> Inl e
               | Inr buf \<Rightarrow>
                   let firstDigitWasZero = (if buf = [] then 0 else - 1)
                   in case fromNumber_loop negative buf 0 0 of
                        Inl e \<Rightarrow> Inl e
                      | Inr (mantissa, mantissaDigits) \<Rightarrow>
                          Inr (mantissa, negative, exponent * 2 - mantissaDigits,
                               mantissaDigits + firstDigitWasZero))"

text \<open>The loop of \<open>_fromNumberBig\<close>, on \<open>int\<close> and \<open>big.Int\<close> values.\<close>

primrec fromNumberBig_loop :: "bool \<Rightarrow> byte list \<Rightarrow> int \<Rightarrow> int \<Rightarrow> (int \<times> int) result" where
  "fromNumberBig_loop negative [] mant mantissaDigits = Inr (mant, mantissaDigits)"
| "fromNumberBig_loop negative (digit100 # buf) mant mantissaDigits =
     (let d0 = uint digit100 - 1;
          d = (if negative then packedPairBase - d0 else d0);
          highDigit = d div decimalBase;
          lowDigit = d mod decimalBase;
          pair = highDigit * decimalBase + lowDigit
      in if d < 0 \<or> d > packedPairBase - 1
         then Inl (number_err ConverterExpectedFormat ''invalid-format'' ''packed-digit[0..99]'')
         else if highDigit < 0 \<or> highDigit > maxSingleDigit \<or> lowDigit < 0 \<or> lowDigit > maxSingleDigit
         then Inl (number_err ConverterExpectedFormat ''invalid-format'' ''single-digit[0..9]'')
         else fromNumberBig_loop negative buf (mant * packedPairBase + pair) (mantissaDigits + 2))"

definition fromNumberBig :: "byte list \<Rightarrow> (int \<times> bool \<times> int \<times> int) result" where
  "fromNumberBig inputData =
     (if inputData = [] then Inl (NewOracleError ConverterEmptyInput None [ArgStr ''NUMBER'', ArgStr ''Decode''])
      else case validateNumberWireLength inputData of
        Inl e \<Rightarrow> Inl e
      | Inr _ \<Rightarrow>
          let negative = numberNegative (hd inputData);
              exponent = numberExponent (hd inputData)
          in case numberPayload inputData of
               Inl e \<Rightarrow> Inl e
             | Inr buf \<Rightarrow>
                 let firstDigitWasZero = (if buf = [] then 0 else - 1)
                 in case fromNumberBig_loop negative buf 0 0 of
                      Inl e \<Rightarrow> Inl e
                    | Inr (mant, mantissaDigits) \<Rightarrow>
                        Inr (mant, negative, exponent * 2 - mantissaDigits,
                             mantissaDigits + firstDigitWasZero))"

definition addDigitToMantissa :: "int \<Rightarrow> int \<Rightarrow> int result" where
  "addDigitToMantissa current digit =
     (if digit < 0 \<or> digit > maxSingleDigit
      then Inl (number_err ConverterExpectedFormat ''invalid-format'' ''single-digit[0..9]'')
      else if current > (2 ^ 64 - 1) div decimalBase
      then Inl (number_err ConverterExpectedFormat ''precision-exceeded'' ''uint64 mantissa'')
      else let next = uwrap 64 (uwrap 64 (current * decimalBase) + digit)
           in if next < current
              then Inl (number_err ConverterExpectedFormat ''precision-exceeded'' ''uint64 mantissa'')
              else Inr next)"

subsection \<open>Decoding\<close>

definition DecodeInt :: "byte list \<Rightarrow> int result" where
  "DecodeInt inputData =
     (case FromNumber inputData of
        Inl e \<Rightarrow> Inl e
      | Inr (mantissa0, negative, exponent, _) \<Rightarrow>
          if exponent < 0 then Inl (number_err ConverterExpectedFormat ''invalid-format'' ''integer'')
          else
            let scaled =
              (if exponent > 0
               then if exponent \<ge> int (length pow10) then Inl int64_range_err
                    else let product = mantissa0 * (pow10 ! nat exponent);
                             hi = product div 2 ^ 64;
                             lo = product mod 2 ^ 64
                         in if hi \<noteq> 0 then Inl int64_range_err else Inr lo
               else Inr mantissa0)
            in case scaled of
                 Inl e \<Rightarrow> Inl e
               | Inr mantissa \<Rightarrow>
                   if negative
                   then if mantissa > 2 ^ 63 then Inl int64_range_err
                        else if mantissa = 2 ^ 63 then Inr (- (2 ^ 63))
                        else Inr (- swrap 64 mantissa)
                   else if mantissa > 2 ^ 63 - 1 then Inl int64_range_err
                   else Inr (swrap 64 mantissa))"

definition DecodeBoolean :: "byte list \<Rightarrow> bool result" where
  "DecodeBoolean inputData =
     (if inputData = [] then Inl (RuntimePanic ''index out of range'') else Inr (hd inputData \<noteq> 0))"

subsection \<open>Encoding\<close>

text \<open>Two digits per byte; a negative number stores the complement to 101.\<close>

fun packPairs :: "bool \<Rightarrow> byte list \<Rightarrow> byte list" where
  "packPairs negative [] = []"
| "packPairs negative [m] =
     (let b = 10 * (m - zeroChar);
          b' = (if negative then 100 - b else b)
      in [b' + packByteBias])"
| "packPairs negative (m # m' # ms) =
     (let b = 10 * (m - zeroChar) + (m' - zeroChar);
          b' = (if negative then 100 - b else b)
      in (b' + packByteBias) # packPairs negative ms)"

definition toNumberStrict :: "byte list \<Rightarrow> bool \<Rightarrow> int \<Rightarrow> byte list" where
  "toNumberStrict mantissa0 negative exponent =
     (if mantissa0 = [] then [numberZeroWireByte]
      else
        let mantissa = (if go_mod exponent 2 = 0 then zeroChar # mantissa0 else mantissa0);
            mantissaLen = length mantissa;
            packedLen = (mantissaLen + 1) div 2;
            baseLen = 1 + packedLen;
            appendNegTerm = (negative \<and> baseLen + 1 \<le> numberWireMaxLen);
            exponent1 = (if exponent < 0 then exponent - 1 else exponent);
            exponent2 = go_div exponent1 2 + 1;
            lead = (if negative then word_of_int (exponent2 + exponentBias) XOR exponentMask
                    else word_of_int (exponent2 + exponentBias) OR leadSignBitMask)
        in lead # packPairs negative mantissa @ (if appendNegTerm then [negTerminatorByte] else []))"

text \<open>\<open>ToNumber\<close> first removes the trailing zero digits; the rest of its body is that of
  \<open>_toNumberStrict\<close>.\<close>

definition ToNumber :: "byte list \<Rightarrow> bool \<Rightarrow> int \<Rightarrow> byte list" where
  "ToNumber mantissa negative exponent =
     (let endZeroCount = length (takeWhile (\<lambda>b. b = zeroChar) (rev mantissa))
      in toNumberStrict (take (length mantissa - endZeroCount) mantissa) negative exponent)"

definition encodeIntegerDigitsStrict :: "byte list \<Rightarrow> bool \<Rightarrow> byte list" where
  "encodeIntegerDigitsStrict mantissa0 negative =
     (let trim = length (takeWhile (\<lambda>b. b = zeroChar) (rev mantissa0));
          mantissa = (if trim > 0 then take (length mantissa0 - trim) mantissa0 else mantissa0)
      in if mantissa = [] then [numberZeroWireByte]
         else toNumberStrict mantissa negative (int (length mantissa) - 1 + int trim))"

definition EncodeInt :: "int \<Rightarrow> byte list result" where
  "EncodeInt val =
     (if val = 0 then Inr [numberZeroWireByte]
      else
        let negative = (val < 0);
            digits = (if negative then tl (bytes_of (FormatInt val)) else bytes_of (FormatInt val))
        in Inr (encodeIntegerDigitsStrict digits negative))"

definition EncodeUInt :: "nat \<Rightarrow> byte list result" where
  "EncodeUInt uv =
     (if uv = 0 then Inr [numberZeroWireByte]
      else Inr (encodeIntegerDigitsStrict (bytes_of (FormatUint uv)) False))"

definition EncodeBoolean :: "bool \<Rightarrow> byte list result" where
  "EncodeBoolean b = Inr (if b then [1, 1] else [0])"

definition EncodeBooleanAsNumber :: "bool \<Rightarrow> byte list result" where
  "EncodeBooleanAsNumber b = (if b then EncodeInt 1 else EncodeInt 0)"


subsection \<open>The digit pairs\<close>

fun pair_up :: "nat list \<Rightarrow> int list" where
  "pair_up [] = []"
| "pair_up [d] = [10 * int d]"
| "pair_up (d # d' # ds) = (10 * int d + int d') # pair_up ds"

definition pair_byte :: "bool \<Rightarrow> int \<Rightarrow> byte" where
  "pair_byte negative p = word_of_int (if negative then 101 - p else p + 1)"

primrec pairs_val :: "int \<Rightarrow> int list \<Rightarrow> int" where
  "pairs_val a [] = a"
| "pairs_val a (p # ps) = pairs_val (a * 100 + p) ps"

abbreviation pairs_ok :: "int list \<Rightarrow> bool" where
  "pairs_ok \<equiv> list_all (\<lambda>p. 0 \<le> p \<and> p \<le> 99)"

lemma length_pair_up [simp]: "length (pair_up ds) = (length ds + 1) div 2"
  by (induction ds rule: pair_up.induct) simp_all

lemma pair_up_Nil_iff [simp]: "pair_up ds = [] \<longleftrightarrow> ds = []"
  by (cases ds rule: pair_up.cases) simp_all

lemma pairs_ok_pair_up [simp]: "digits_ok ds \<Longrightarrow> pairs_ok (pair_up ds)"
  by (induction ds rule: pair_up.induct) auto

lemma pairs_val_pair_up:
  "pairs_val a (pair_up ds) =
     a * 100 ^ length (pair_up ds) + int (dec_val ds) * (if even (length ds) then 1 else 10)"
proof (induction ds arbitrary: a rule: pair_up.induct)
  case (2 d)
  then show ?case using dec_val_Cons [of d "[]"] by simp
next
  case (3 d d' ds)
  have "(10::int) * (10 * 10 ^ length ds) = 100 * 10 ^ length ds" by simp
  moreover have "(100::int) ^ ((length ds + 1) div 2) = 10 ^ length ds * (if even (length ds) then 1 else 10)"
    by (cases "even (length ds)") (auto elim!: evenE oddE simp: power_mult)
  ultimately show ?case
    using 3 by (simp add: dec_val_Cons algebra_simps)
qed simp

lemma packPairs_digits:
  "digits_ok ds \<Longrightarrow> packPairs negative (map dbyte ds) = map (pair_byte negative) (pair_up ds)"
  by (induction ds rule: pair_up.induct)
     (auto simp: pair_byte_def dbyte_def Let_def algebra_simps)

lemma uint_pair_byte:
  "0 \<le> p \<Longrightarrow> p \<le> 99 \<Longrightarrow> uint (pair_byte negative p) = (if negative then 101 - p else p + 1)"
  by (simp add: pair_byte_def del: of_int_add of_int_diff)

lemma fromNumberBig_loop_pairs:
  "pairs_ok ps \<Longrightarrow> fromNumberBig_loop negative (map (pair_byte negative) ps) a n =
     Inr (pairs_val a ps, n + 2 * int (length ps))"
proof (induction ps arbitrary: a n)
  case (Cons p ps)
  then have "0 \<le> p" "p \<le> 99" by auto
  then show ?case using Cons by (auto simp: uint_pair_byte Let_def algebra_simps)
qed simp

lemma pairs_val_ge: "pairs_ok ps \<Longrightarrow> 0 \<le> a \<Longrightarrow> a \<le> pairs_val a ps"
proof (induction ps arbitrary: a)
  case (Cons p ps)
  then have "a * 100 + p \<le> pairs_val (a * 100 + p) ps" by simp
  then show ?case using Cons.prems by simp
qed simp

lemma fromNumber_loop_pairs:
  "pairs_ok ps \<Longrightarrow> 0 \<le> a \<Longrightarrow> pairs_val a ps < 2 ^ 64 \<Longrightarrow>
   fromNumber_loop negative (map (pair_byte negative) ps) a n =
     Inr (pairs_val a ps, n + 2 * int (length ps))"
proof (induction ps arbitrary: a n)
  case (Cons p ps)
  then have p: "0 \<le> p" "p \<le> 99" by auto
  have "a * 100 + p \<le> pairs_val (a * 100 + p) ps"
    using Cons.prems p by (intro pairs_val_ge) auto
  then have lt: "a * 100 + p < 2 ^ 64" using Cons.prems by simp
  then have le: "a \<le> (2 ^ 64 - 1 - p) div 100" by simp
  have d: "uwrap 16 (uint (pair_byte negative p) - 1) = (if negative then 100 - p else p)"
    using p by (simp add: uint_pair_byte)
  show ?case using Cons p lt le d by (auto simp: Let_def algebra_simps)
qed simp

subsection \<open>The lead byte\<close>

lemma lead_byte_table:
  "list_all (\<lambda>x.
     numberNegative (word_of_int x XOR 0x7F) \<and> numberExponent (word_of_int x XOR 0x7F) = x - 64 \<and>
     \<not> numberNegative (word_of_int x OR 0x80) \<and> numberExponent (word_of_int x OR 0x80) = x - 64 \<and>
     (word_of_int x XOR 0x7F :: byte) \<noteq> 0x80 \<and>
     ((word_of_int x OR 0x80 :: byte) = 0x80 \<longleftrightarrow> x = 0)) [0..127]"
  by code_simp

lemma lead_byte:
  assumes "0 \<le> x" "x \<le> 127"
  shows "numberNegative (word_of_int x XOR 0x7F)" "numberExponent (word_of_int x XOR 0x7F) = x - 64"
    "\<not> numberNegative (word_of_int x OR 0x80)" "numberExponent (word_of_int x OR 0x80) = x - 64"
    "(word_of_int x XOR 0x7F :: byte) \<noteq> 0x80" "(word_of_int x OR 0x80 :: byte) = 0x80 \<longleftrightarrow> x = 0"
proof -
  have "x \<in> set [0..127]" using assms by simp
  with lead_byte_table show "numberNegative (word_of_int x XOR 0x7F)" "numberExponent (word_of_int x XOR 0x7F) = x - 64"
    "\<not> numberNegative (word_of_int x OR 0x80)" "numberExponent (word_of_int x OR 0x80) = x - 64"
    "(word_of_int x XOR 0x7F :: byte) \<noteq> 0x80" "(word_of_int x OR 0x80 :: byte) = 0x80 \<longleftrightarrow> x = 0"
    unfolding list_all_iff by blast+
qed

text \<open>The base-100 exponent written is the floor of half the base-10 one, plus one.\<close>

lemma number_exponent_half:
  "go_div (if e < 0 then e - 1 else e) 2 + 1 = e div 2 + 1" "go_mod e 2 = 0 \<longleftrightarrow> even e"
proof -
  show "go_div (if e < 0 then e - 1 else e) 2 + 1 = e div 2 + 1"
    by (auto simp: go_div_neg not_less)
  have "(- e) mod 2 = 0 \<longleftrightarrow> even e" "e mod 2 = 0 \<longleftrightarrow> even e" by presburger+
  then show "go_mod e 2 = 0 \<longleftrightarrow> even e"
    using go_mod_neg [of e 2] go_mod_nonneg [of e 2] by (cases "e < 0") simp_all
qed

subsection \<open>Reading back what was written\<close>

definition number_lead :: "bool \<Rightarrow> int \<Rightarrow> byte" where
  "number_lead negative x = (if negative then word_of_int x XOR 0x7F else word_of_int x OR 0x80)"

definition number_wire :: "bool \<Rightarrow> int \<Rightarrow> int list \<Rightarrow> byte list" where
  "number_wire negative x ps =
     number_lead negative x # map (pair_byte negative) ps @
       (if negative \<and> length ps \<le> 19 then [0x66] else [])"

lemma number_lead_simps [simp]:
  assumes "0 \<le> x" "x \<le> 127"
  shows "numberNegative (number_lead negative x) = negative"
    "numberExponent (number_lead negative x) = x - 64"
    "number_lead negative x = 0x80 \<longleftrightarrow> \<not> negative \<and> x = 0"
  using lead_byte [OF assms] by (simp_all add: number_lead_def)

lemma length_number_wire:
  "length (number_wire negative x ps) = 1 + length ps + (if negative \<and> length ps \<le> 19 then 1 else 0)"
  by (simp add: number_wire_def)

lemma numberPayload_wire:
  assumes "0 \<le> x" "x \<le> 127" "pairs_ok ps" "ps \<noteq> []"
  shows "numberPayload (number_wire negative x ps) = Inr (map (pair_byte negative) ps)"
proof (cases "negative \<and> length ps \<le> 19")
  case True
  then show ?thesis using assms by (simp add: numberPayload_def number_wire_def butlast_append)
next
  case False
  have "last ps \<in> set ps" using assms(4) by simp
  then have "0 \<le> last ps" "last ps \<le> 99" using assms(3) by (auto simp: list_all_iff)
  then have "uint (pair_byte negative (last ps)) \<noteq> 0x66" by (simp add: uint_pair_byte)
  then have "pair_byte negative (last ps) \<noteq> 0x66" by auto
  then show ?thesis using False assms by (simp add: numberPayload_def number_wire_def last_map)
qed

lemma fromNumberBig_wire:
  assumes "0 \<le> x" "x \<le> 127" "pairs_ok ps" "ps \<noteq> []" "length ps \<le> 20"
  shows "fromNumberBig (number_wire negative x ps) =
    Inr (pairs_val 0 ps, negative, (x - 64) * 2 - 2 * int (length ps), 2 * int (length ps) - 1)"
proof -
  have h: "hd (number_wire negative x ps) = number_lead negative x" "number_wire negative x ps \<noteq> []"
    by (simp_all add: number_wire_def)
  have "validateNumberWireLength (number_wire negative x ps) = Inr ()"
    using assms by (simp add: validateNumberWireLength_def length_number_wire)
  then show ?thesis
    using assms h by (simp add: fromNumberBig_def numberPayload_wire fromNumberBig_loop_pairs Let_def)
qed

lemma FromNumber_wire:
  assumes "0 \<le> x" "x \<le> 127" "pairs_ok ps" "ps \<noteq> []" "length ps \<le> 20"
    and "negative \<or> x \<noteq> 0" "pairs_val 0 ps < 2 ^ 64"
  shows "FromNumber (number_wire negative x ps) =
    Inr (pairs_val 0 ps, negative, (x - 64) * 2 - 2 * int (length ps), 2 * int (length ps) - 1)"
proof -
  have h: "hd (number_wire negative x ps) = number_lead negative x" "number_wire negative x ps \<noteq> []"
    by (simp_all add: number_wire_def)
  have "validateNumberWireLength (number_wire negative x ps) = Inr ()"
    using assms by (simp add: validateNumberWireLength_def length_number_wire)
  then show ?thesis
    using assms h by (simp add: FromNumber_def numberPayload_wire fromNumber_loop_pairs Let_def)
qed

lemma toNumberStrict_wire:
  assumes "digits_ok ds" "ds \<noteq> []" 
  shows "toNumberStrict (map dbyte ds) negative e =
    number_wire negative (e div 2 + 65) (pair_up (if even e then 0 # ds else ds))"
proof -
  have z: "zeroChar # map dbyte ds = map dbyte (0 # ds)" by (simp add: dbyte_def)
  have "packPairs negative (if even e then zeroChar # map dbyte ds else map dbyte ds) =
      map (pair_byte negative) (pair_up (if even e then 0 # ds else ds))"
    using assms packPairs_digits [of "0 # ds" negative] packPairs_digits [of ds negative]
    by (simp only: z split: if_split) simp
  then show ?thesis
    using assms number_exponent_half [of e]
    by (simp add: toNumberStrict_def number_wire_def number_lead_def Let_def algebra_simps)
qed

text \<open>The decoded mantissa is the encoded digits, shifted by one place when the pairs are
  padded; the decoded exponent makes up for the shift.\<close>

lemma pair_up_value:
  fixes e :: int and ds :: "nat list"
  defines "qs \<equiv> pair_up (if even e then 0 # ds else ds)"
  obtains k :: nat where "k \<le> 1" "pairs_val 0 qs = int (dec_val ds) * 10 ^ k"
    "(e div 2 + 1) * 2 - 2 * int (length qs) = e + 1 - int (length ds) - int k"
    "e + 1 = int (length ds) \<longrightarrow> k = 0"
proof
  let ?ds = "if even e then 0 # ds else ds"
  let ?k = "if even (length ?ds) then 0 else 1 :: nat"
  show "?k \<le> 1" by simp
  show "pairs_val 0 qs = int (dec_val ds) * 10 ^ ?k"
    by (simp add: qs_def pairs_val_pair_up dec_val_Cons)
  show "(e div 2 + 1) * 2 - 2 * int (length qs) = e + 1 - int (length ds) - int ?k"
    by (cases "even e"; cases "even (length ds)") (auto elim!: evenE oddE simp: qs_def)
  show "e + 1 = int (length ds) \<longrightarrow> ?k = 0"
    by simp presburger
qed

text \<open>Both encoders first cut the trailing zero digits.\<close>

lemma dbyte_zero [simp]: "d < 10 \<Longrightarrow> dbyte d = 0x30 \<longleftrightarrow> d = 0"
proof -
  assume "d < 10"
  then have "uint (dbyte d) = 48 + int d" by (simp only: dbyte_def unsigned_of_nat) (simp add: take_bit_eq_mod)
  then show ?thesis by (auto simp: word_uint_eq_iff)
qed

lemma strip_zeros:
  assumes "digits_ok ds"
  obtains ds0 z where "ds = ds0 @ replicate z 0" "digits_ok ds0" "ds0 = [] \<or> last ds0 \<noteq> 0"
    "length (takeWhile (\<lambda>b. b = zeroChar) (rev (map dbyte ds))) = z"
    "take (length (map dbyte ds) - z) (map dbyte ds) = map dbyte ds0"
proof -
  define zs where "zs = takeWhile (\<lambda>d. d = 0) (rev ds)"
  define ds0 where "ds0 = rev (dropWhile (\<lambda>d. d = 0) (rev ds))"
  have "zs = replicate (length zs) 0"
    unfolding zs_def by (metis (mono_tags, lifting) replicate_eqI set_takeWhileD)
  moreover have "rev ds = zs @ rev ds0" by (simp add: zs_def ds0_def)
  ultimately have ds: "ds = ds0 @ replicate (length zs) 0"
    by (metis rev_append rev_replicate rev_rev_ident)
  have "takeWhile (\<lambda>b. b = zeroChar) (map dbyte (rev ds)) = map dbyte zs"
    using assms unfolding zs_def takeWhile_map
    by (intro arg_cong [where f = "map dbyte"] takeWhile_cong) (auto simp: digits_ok_def list_all_iff)
  then have tw: "length (takeWhile (\<lambda>b. b = zeroChar) (rev (map dbyte ds))) = length zs"
    by (simp add: rev_map)
  have last: "ds0 = [] \<or> last ds0 \<noteq> 0"
  proof (cases "dropWhile (\<lambda>d. d = 0) (rev ds) = []")
    case False
    then show ?thesis using hd_dropWhile [OF False] by (simp add: ds0_def last_rev)
  qed (simp add: ds0_def)
  have "digits_ok ds0" using assms ds by (metis digits_ok_simps(3))
  with ds tw last show ?thesis by (intro that [of ds0 "length zs"]) (simp_all add: ds [symmetric], metis append_eq_conv_conj ds length_append length_replicate add_diff_cancel_right' map_append take_map)
qed

lemma ToNumber_wire:
  assumes "digits_ok ds" "0 < dec_val ds"
  obtains ds0 z where "ds = ds0 @ replicate z 0" "digits_ok ds0" "ds0 \<noteq> []" "last ds0 \<noteq> 0"
    "ToNumber (map dbyte ds) negative e =
       number_wire negative (e div 2 + 65) (pair_up (if even e then 0 # ds0 else ds0))"
proof -
  obtain ds0 z where st: "ds = ds0 @ replicate z 0" "digits_ok ds0" "ds0 = [] \<or> last ds0 \<noteq> 0"
    "length (takeWhile (\<lambda>b. b = zeroChar) (rev (map dbyte ds))) = z"
    "take (length (map dbyte ds) - z) (map dbyte ds) = map dbyte ds0"
    using strip_zeros [OF assms(1)] by blast
  have "ds0 \<noteq> []" using assms(2) st(1) by auto
  from toNumberStrict_wire [OF st(2) this, of negative e] have "ToNumber (map dbyte ds) negative e =
       number_wire negative (e div 2 + 65) (pair_up (if even e then 0 # ds0 else ds0))"
    by (simp only: ToNumber_def Let_def st(4,5))
  with st \<open>ds0 \<noteq> []\<close> show ?thesis by (intro that) auto
qed

text \<open>C11: \<open>ToNumber\<close> is exact: up to 39 significant digits at any exponent of NUMBER's range
  are read back as the same rational number, with the same sign.\<close>

theorem ToNumber_exact:
  assumes "digits_ok ds" "0 < dec_val ds" "length (strip0 ds) \<le> 39" "-130 \<le> e" "e \<le> 125"
  shows "\<exists>mant x n. fromNumberBig (ToNumber (map dbyte ds) negative e) = Inr (mant, negative, x, n) \<and>
     rat_of_int mant * 10 powi x = rat_of_nat (dec_val ds) * 10 powi (e + 1 - int (length ds))"
proof -
  obtain ds0 z where w: "ds = ds0 @ replicate z 0" "digits_ok ds0" "ds0 \<noteq> []" "last ds0 \<noteq> 0"
    "ToNumber (map dbyte ds) negative e =
       number_wire negative (e div 2 + 65) (pair_up (if even e then 0 # ds0 else ds0))"
    using ToNumber_wire [OF assms(1,2)] by metis
  let ?qs = "pair_up (if even e then 0 # ds0 else ds0)"
  obtain k where k: "pairs_val 0 ?qs = int (dec_val ds0) * 10 ^ k"
    "(e div 2 + 1) * 2 - 2 * int (length ?qs) = e + 1 - int (length ds0) - int k"
    by (rule pair_up_value [of e ds0])
  have "length ds0 \<le> 39" using assms(3) strip0_append_zeros [of ds0 z] w(1,4) by simp
  then have qs: "pairs_ok ?qs" "?qs \<noteq> []" "length ?qs \<le> 20" "0 \<le> e div 2 + 65" "e div 2 + 65 \<le> 127"
    using w(1-3) assms by auto
  have "fromNumberBig (ToNumber (map dbyte ds) negative e) =
      Inr (int (dec_val ds0) * 10 ^ k, negative, e + 1 - int (length ds0) - int k, 2 * int (length ?qs) - 1)"
    unfolding w(5) fromNumberBig_wire [OF qs(4,5,1,2,3)] using k by (simp add: algebra_simps)
  moreover have "rat_of_int (int (dec_val ds0) * 10 ^ k) * 10 powi (e + 1 - int (length ds0) - int k) =
      rat_of_nat (dec_val ds) * 10 powi (e + 1 - int (length ds))"
    using w(1) by (simp add: power_int_diff power_int_add)
  ultimately show ?thesis by blast
qed

theorem ToNumber_exact_witness:
  "\<exists>mant x n. fromNumberBig (ToNumber (map dbyte [1, 2, 5]) True 0) = Inr (mant, True, x, n) \<and>
     rat_of_int mant * 10 powi x = rat_of_nat (dec_val [1, 2, 5]) * 10 powi (- 2)"
  using ToNumber_exact [of "[1, 2, 5]" 0 True] by (simp add: dec_val_Cons strip0_def)



lemma encodeIntegerDigitsStrict_ToNumber:
  assumes "digits_ok ds" "0 < dec_val ds"
  shows "encodeIntegerDigitsStrict (map dbyte ds) negative =
    ToNumber (map dbyte ds) negative (int (length ds) - 1)"
proof -
  obtain ds0 z where st: "ds = ds0 @ replicate z 0" "digits_ok ds0" "ds0 = [] \<or> last ds0 \<noteq> 0"
    "length (takeWhile (\<lambda>b. b = zeroChar) (rev (map dbyte ds))) = z"
    "take (length (map dbyte ds) - z) (map dbyte ds) = map dbyte ds0"
    using strip_zeros [OF assms(1)] by blast
  have "ds0 \<noteq> []" using assms(2) st(1) by auto
  moreover have "(if z > 0 then take (length (map dbyte ds) - z) (map dbyte ds) else map dbyte ds) = map dbyte ds0"
    using st(1,5) by auto
  moreover have "int (length ds0) - 1 + int z = int (length ds) - 1"
    using st(1) by simp
  ultimately have "encodeIntegerDigitsStrict (map dbyte ds) negative =
      toNumberStrict (map dbyte ds0) negative (int (length ds) - 1)"
    by (simp only: encodeIntegerDigitsStrict_def Let_def st(4) length_map) simp
  then show ?thesis by (simp only: ToNumber_def Let_def st(4,5))
qed

lemma pow10_nth: "i < 20 \<Longrightarrow> pow10 ! i = 10 ^ i"
proof -
  have "list_all (\<lambda>i. pow10 ! i = 10 ^ i) [0..<20]" by code_simp
  then show "i < 20 \<Longrightarrow> pow10 ! i = 10 ^ i" by (auto simp: list_all_iff)
qed

lemma length_pow10 [simp]: "length pow10 = 20"
  by (simp add: pow10_def)

text \<open>What \<open>FromNumber\<close> reads back from an encoded integer.\<close>

lemma FromNumber_integer:
  assumes "0 < n" "n < 2 ^ 64"
  obtains m x k where
    "FromNumber (encodeIntegerDigitsStrict (map dbyte (digits10 n)) negative) = Inr (m, negative, x, k)"
    "0 \<le> x" "x < 20" "0 \<le> m" "m * 10 ^ nat x = int n"
proof -
  let ?ds = "digits10 n"
  define e where "e = int (length ?ds) - 1"
  have ds: "digits_ok ?ds" "0 < dec_val ?ds" using assms by simp_all
  have len: "length ?ds \<le> 20"
    using assms by (intro length_digits10_le) simp_all
  obtain ds0 z where w: "?ds = ds0 @ replicate z 0" "digits_ok ds0" "ds0 \<noteq> []"
    "ToNumber (map dbyte ?ds) negative e =
       number_wire negative (e div 2 + 65) (pair_up (if even e then 0 # ds0 else ds0))"
    using ToNumber_wire [OF ds] by metis
  let ?qs = "pair_up (if even e then 0 # ds0 else ds0)"
  obtain k where k: "k \<le> 1" "pairs_val 0 ?qs = int (dec_val ds0) * 10 ^ k"
    "(e div 2 + 1) * 2 - 2 * int (length ?qs) = e + 1 - int (length ds0) - int k"
    "e + 1 = int (length ds0) \<longrightarrow> k = 0"
    by (rule pair_up_value [of e ds0])
  have z: "int z = e + 1 - int (length ds0)" using w(1) arg_cong [OF w(1), of length] by (simp add: e_def)
  have kz: "k \<le> z" using k(1,4) z by (cases "z = 0") auto
  have zl: "z < 20" using len w(1,3) by (cases ds0) auto
  have val: "int n = int (dec_val ds0) * 10 ^ z"
    using arg_cong [OF w(1), of dec_val] by simp
  have split: "(10::int) ^ z = 10 ^ k * 10 ^ (z - k)" using kz by (simp flip: power_add)
  have m: "int (dec_val ds0) * 10 ^ k \<le> int n"
  proof -
    have "int (dec_val ds0) * 10 ^ k * 1 \<le> int (dec_val ds0) * 10 ^ k * 10 ^ (z - k)"
      by (intro mult_left_mono) simp_all
    then show ?thesis unfolding val split by (simp add: mult.assoc)
  qed
  have "0 \<le> e" using len by (cases ?ds) (simp_all add: e_def)
  then have "FromNumber (number_wire negative (e div 2 + 65) ?qs) =
      Inr (pairs_val 0 ?qs, negative, (e div 2 + 65 - 64) * 2 - 2 * int (length ?qs), 2 * int (length ?qs) - 1)"
    using w(1-3) len m assms(2) k(2) by (intro FromNumber_wire) (auto simp: e_def)
  then have "FromNumber (encodeIntegerDigitsStrict (map dbyte ?ds) negative) =
      Inr (int (dec_val ds0) * 10 ^ k, negative, int (z - k), 2 * int (length ?qs) - 1)"
    using k z kz w(4) encodeIntegerDigitsStrict_ToNumber [OF ds, of negative] by (simp add: e_def)
  moreover have "int (dec_val ds0) * 10 ^ k * 10 ^ nat (int (z - k)) = int n"
    using val split by simp
  ultimately show ?thesis using zl by (intro that) auto
qed

text \<open>The integer decoder on such a reading.\<close>

lemma DecodeInt_integer:
  assumes "FromNumber w = Inr (m, negative, x, k)" "0 \<le> x" "x < 20" "0 \<le> m"
    and "m * 10 ^ nat x = v" "v < 2 ^ 64"
  shows "DecodeInt w =
    (if negative then (if v \<le> 2 ^ 63 then Inr (- v) else Inl int64_range_err)
     else (if v < 2 ^ 63 then Inr v else Inl int64_range_err))"
proof -
  have p: "pow10 ! nat x = 10 ^ nat x" using assms(2,3) by (intro pow10_nth) simp
  have v0: "0 \<le> v" using assms(4,5) by auto
  have sw: "y < 2 ^ 63 \<Longrightarrow> 0 \<le> y \<Longrightarrow> swrap 64 y = y" for y
    by (rule swrap_id) simp_all
  show ?thesis
  proof (cases "x = 0")
    case True
    then show ?thesis using assms v0 sw [of v] by (auto simp: DecodeInt_def Let_def)
  next
    case False
    then show ?thesis using assms p v0 sw [of v] by (auto simp: DecodeInt_def Let_def)
  qed
qed

lemma bytes_of_Cons: "bytes_of (c # s) = of_char c # bytes_of s"
  by (simp add: bytes_of_def)

text \<open>C9: Every \<open>int64\<close>, the least one included, is encoded as a NUMBER and decoded
  back to itself.\<close>

theorem DecodeInt_EncodeInt:
  assumes "- (2 ^ 63) \<le> v" "v < 2 ^ 63"
  shows "\<exists>w. EncodeInt v = Inr w \<and> DecodeInt w = Inr v"
proof (cases "v = 0")
  case True
  then show ?thesis by (simp add: EncodeInt_def DecodeInt_def FromNumber_def validateNumberWireLength_def swrap_def)
next
  case False
  define n where "n = nat \<bar>v\<bar>"
  have n: "0 < n" "n < 2 ^ 64" "int n = \<bar>v\<bar>" using False assms by (auto simp: n_def)
  have enc: "EncodeInt v = Inr (encodeIntegerDigitsStrict (map dbyte (digits10 n)) (v < 0))"
    using False by (auto simp: EncodeInt_def FormatInt_def FormatUint_def n_def bytes_of_digits
      bytes_of_Cons Let_def)
  obtain m x k where d:
    "FromNumber (encodeIntegerDigitsStrict (map dbyte (digits10 n)) (v < 0)) = Inr (m, (v < 0), x, k)"
    "0 \<le> x" "x < 20" "0 \<le> m" "m * 10 ^ nat x = int n"
    using FromNumber_integer [OF n(1,2)] by blast
  show ?thesis using DecodeInt_integer [OF d] enc n assms by auto
qed

theorem DecodeInt_EncodeInt_witness:
  "\<exists>w. EncodeInt (- 120) = Inr w \<and> DecodeInt w = Inr (- 120)"
  using DecodeInt_EncodeInt [of "- 120"] by simp


text \<open>C10: Every \<open>uint64\<close> is encoded; decoding it as \<open>int64\<close> returns it when it fits and the
  range error otherwise.\<close>

theorem DecodeInt_EncodeUInt:
  assumes "n < 2 ^ 64"
  shows "\<exists>w. EncodeUInt n = Inr w \<and>
    DecodeInt w = (if n < 2 ^ 63 then Inr (int n) else Inl int64_range_err)"
proof (cases "n = 0")
  case True
  then show ?thesis by (simp add: EncodeUInt_def DecodeInt_def FromNumber_def validateNumberWireLength_def swrap_def)
next
  case False
  then have n: "0 < n" by simp
  have enc: "EncodeUInt n = Inr (encodeIntegerDigitsStrict (map dbyte (digits10 n)) False)"
    using False by (simp add: EncodeUInt_def FormatUint_def bytes_of_digits)
  obtain m x k where d:
    "FromNumber (encodeIntegerDigitsStrict (map dbyte (digits10 n)) False) = Inr (m, False, x, k)"
    "0 \<le> x" "x < 20" "0 \<le> m" "m * 10 ^ nat x = int n"
    using FromNumber_integer [OF n assms] by blast
  show ?thesis using DecodeInt_integer [OF d] enc assms by auto
qed

theorem DecodeInt_EncodeUInt_witness:
  "\<exists>w. EncodeUInt 9000 = Inr w \<and> DecodeInt w = Inr 9000"
  using DecodeInt_EncodeUInt [of 9000] by simp




subsection \<open>The two readers\<close>

abbreviation mantissa_overflow :: go_error where
  "mantissa_overflow \<equiv> number_err ConverterExpectedFormat ''precision-exceeded'' ''uint64 mantissa''"

abbreviation packed_digit_err :: go_error where
  "packed_digit_err \<equiv> number_err ConverterExpectedFormat ''invalid-format'' ''packed-digit[0..99]''"

definition byte_pair :: "bool \<Rightarrow> byte \<Rightarrow> int" where
  "byte_pair negative b = (if negative then 101 - uint b else uint b - 1)"

lemma byte_pair_table:
  "list_all (\<lambda>x. 
     uwrap 16 (100 - uwrap 16 (x - 1)) = uwrap 16 (101 - x) \<and>
     (if 1 \<le> x \<and> x \<le> 100 then uwrap 16 (x - 1) = x - 1 else uwrap 16 (x - 1) > 99) \<and>
     (if 2 \<le> x \<and> x \<le> 101 then uwrap 16 (101 - x) = 101 - x else uwrap 16 (101 - x) > 99)) [0..255]"
  by code_simp

lemma byte_pair_uwrap:
  fixes b :: byte and negative :: bool
  defines "u \<equiv> (if negative then uwrap 16 (100 - uwrap 16 (uint b - 1)) else uwrap 16 (uint b - 1))"
  shows "if 0 \<le> byte_pair negative b \<and> byte_pair negative b \<le> 99 then u = byte_pair negative b else u > 99"
proof -
  have "uint b \<in> set [0..255]" by simp
  with byte_pair_table show ?thesis unfolding list_all_iff u_def byte_pair_def by fastforce
qed

lemma fromNumberBig_loop_step:
  "fromNumberBig_loop negative (b # buf) a n =
     (if 0 \<le> byte_pair negative b \<and> byte_pair negative b \<le> 99
      then fromNumberBig_loop negative buf (a * 100 + byte_pair negative b) (n + 2)
      else Inl packed_digit_err)"
  by (auto simp: Let_def byte_pair_def)

lemma fromNumber_loop_step:
  assumes "0 \<le> a"
  shows "fromNumber_loop negative (b # buf) a n =
     (if 0 \<le> byte_pair negative b \<and> byte_pair negative b \<le> 99
      then if a * 100 + byte_pair negative b < 2 ^ 64
           then fromNumber_loop negative buf (a * 100 + byte_pair negative b) (n + 2)
           else Inl mantissa_overflow
      else Inl packed_digit_err)"
proof -
  define d where "d = byte_pair negative b"
  define u where "u = (if negative then uwrap 16 (100 - uwrap 16 (uint b - 1)) else uwrap 16 (uint b - 1))"
  have eq: "fromNumber_loop negative (b # buf) a n =
     (if u > 100 - 1 then Inl packed_digit_err
      else if u div 10 < 0 \<or> u div 10 > 9 \<or> u mod 10 < 0 \<or> u mod 10 > 9
      then Inl (number_err ConverterExpectedFormat ''invalid-format'' ''single-digit[0..9]'')
      else if a > (2 ^ 64 - 1 - u) div 100 then Inl mantissa_overflow
      else fromNumber_loop negative buf (uwrap 64 (a * 100 + u)) (n + 2))"
    unfolding fromNumber_loop.simps Let_def u_def packedPairBase_def decimalBase_def maxSingleDigit_def
    by (rule refl)
  have u: "if 0 \<le> d \<and> d \<le> 99 then u = d else u > 99"
    unfolding u_def d_def by (rule byte_pair_uwrap)
  show ?thesis
  proof (cases "0 \<le> d \<and> d \<le> 99")
    case True
    then have "u = d" "d div 10 \<le> 9" "0 \<le> d div 10" "0 \<le> d mod 10" "d mod 10 \<le> 9" using u by auto
    moreover have "a > (2 ^ 64 - 1 - d) div 100 \<longleftrightarrow> \<not> a * 100 + d < 2 ^ 64" by auto
    moreover have "a * 100 + d < 2 ^ 64 \<Longrightarrow> uwrap 64 (a * 100 + d) = a * 100 + d"
      using True assms by (intro uwrap_id) auto
    ultimately show ?thesis unfolding eq d_def [symmetric] using True by auto
  next
    case False
    then show ?thesis unfolding eq d_def [symmetric] if_not_P [OF False] using u by auto
  qed
qed

lemma fromNumberBig_loop_ge:
  "fromNumberBig_loop negative buf a n = Inr (m, k) \<Longrightarrow> 0 \<le> a \<Longrightarrow> a \<le> m"
proof (induction buf arbitrary: a n)
  case (Cons b buf)
  let ?d = "byte_pair negative b"
  have d: "0 \<le> ?d" "fromNumberBig_loop negative buf (a * 100 + ?d) (n + 2) = Inr (m, k)"
    using Cons.prems(1) unfolding fromNumberBig_loop_step by (auto split: if_splits)
  then have "a * 100 + ?d \<le> m" using Cons.prems by (intro Cons.IH) auto
  then show ?case using d(1) Cons.prems(2) by simp
qed simp

lemma fromNumber_loop_big:
  "0 \<le> a \<Longrightarrow> a < 2 ^ 64 \<Longrightarrow> fromNumberBig_loop negative buf a n = Inr (m, k) \<Longrightarrow>
   fromNumber_loop negative buf a n = (if m < 2 ^ 64 then Inr (m, k) else Inl mantissa_overflow)"
proof (induction buf arbitrary: a n)
  case (Cons b buf)
  let ?d = "byte_pair negative b"
  have d: "0 \<le> ?d" "?d \<le> 99" "fromNumberBig_loop negative buf (a * 100 + ?d) (n + 2) = Inr (m, k)"
    using Cons.prems(3) unfolding fromNumberBig_loop_step by (auto split: if_splits)
  have "a * 100 + ?d \<le> m" using fromNumberBig_loop_ge [OF d(3)] d(1) Cons.prems(1) by simp
  then show ?case
    using d Cons.prems(1) Cons.IH [of "a * 100 + ?d" "n + 2"]
    by (simp add: fromNumber_loop_step del: fromNumber_loop.simps)
qed simp

lemma fromNumber_loop_err:
  "0 \<le> a \<Longrightarrow> fromNumberBig_loop negative buf a n = Inl e \<Longrightarrow>
   fromNumber_loop negative buf a n \<in> {Inl e, Inl mantissa_overflow}"
proof (induction buf arbitrary: a n)
  case (Cons b buf)
  let ?d = "byte_pair negative b"
  show ?case
  proof (cases "0 \<le> ?d \<and> ?d \<le> 99")
    case True
    then have "fromNumberBig_loop negative buf (a * 100 + ?d) (n + 2) = Inl e"
      using Cons.prems(2) unfolding fromNumberBig_loop_step by simp
    then show ?thesis using True Cons.prems(1) Cons.IH [of "a * 100 + ?d" "n + 2"]
      by (simp add: fromNumber_loop_step del: fromNumber_loop.simps)
  next
    case False
    then show ?thesis using Cons.prems(2)
      unfolding fromNumber_loop_step [OF Cons.prems(1)] fromNumberBig_loop_step if_not_P [OF False] by simp
  qed
qed simp




text \<open>A positive number below \<open>1e-128\<close> has the zero byte as its lead byte: \<open>FromNumber\<close> reads
  \<open>1e-130\<close> as zero, \<open>_fromNumberBig\<close> reads it correctly.\<close>

theorem FromNumber_tiny_zero:
  "fromNumberBig [0x80, 2] = Inr (1, False, -130, 1) \<and> FromNumber [0x80, 2] = Inr (0, False, 0, 0)"
  by code_simp

lemma ToNumber_tiny: "ToNumber [0x31] False (-130) = [0x80, 2]"
  by code_simp

end
