(* ===== verification/Number_Decimal.thy ===== *)
theory Number_Decimal
  imports Oracle_Number
begin

text \<open>
  Oracle NUMBER as decimal text and as \<open>float64\<close>: \<open>DecodeDecimal\<close> and
  \<open>DecodeExactDecimalAsString\<close> of \<open>converters/number.go\<close>, \<open>DecodeFloat\<close>, \<open>EncodeFloat\<close> and
  \<open>EncodeDecimal\<close>. A \<open>big.Rat\<close> is a \<open>rat\<close>, whose \<open>quotient_of\<close> is the reduced fraction
  that \<open>Num\<close> and \<open>Denom\<close> return. A \<open>float64\<close> is its 64 bits; \<open>strconv.FormatFloat\<close> and
  \<open>strconv.ParseFloat\<close> are arguments of the definitions that call them. The reference is
  \<open>decimal_value\<close>, the rational number that a decimal text denotes.
\<close>

subsection \<open>What a decimal text denotes\<close>

definition unsigned_value :: "string \<Rightarrow> rat" where
  "unsigned_value u =
     (let i = takeWhile (\<lambda>c. c \<noteq> CHR ''.'') u;
          f = drop (length i + 1) u
      in rat_of_nat (dec_val (map char_digit (i @ f))) / 10 ^ length f)"

definition decimal_value :: "string \<Rightarrow> rat" where
  "decimal_value s =
     (if s \<noteq> [] \<and> hd s = CHR ''-'' then - unsigned_value (tl s) else unsigned_value s)"

definition round_half_away :: "rat \<Rightarrow> int" where
  "round_half_away x = (if x < 0 then - \<lfloor>- x + 1 / 2\<rfloor> else \<lfloor>x + 1 / 2\<rfloor>)"

definition number_value :: "int \<times> bool \<times> int \<times> int \<Rightarrow> rat" where
  "number_value = (\<lambda>(mant, negative, x, n).
     (if negative then - 1 else 1) * (rat_of_int mant * 10 powi x))"

subsection \<open>Decoding to text\<close>

text \<open>\<open>big.Rat.FloatString\<close>: rounded half away from zero.\<close>

definition FloatString :: "rat \<Rightarrow> nat \<Rightarrow> string" where
  "FloatString x prec =
     (let (a, b) = quotient_of x
      in if b = 1
         then FormatInt a @ (if prec > 0 then CHR ''.'' # replicate prec (CHR ''0'') else [])
         else
           let q = \<bar>a\<bar> div b;
               r = \<bar>a\<bar> mod b;
               p = 10 ^ prec;
               r' = (r * p) div b;
               r2 = (r * p) mod b;
               (q1, r1) =
                 (if b \<le> 2 * r2
                  then (if r' + 1 \<ge> p then (q + 1, r' + 1 - p) else (q, r' + 1))
                  else (q, r'))
           in (if a < 0 then ''-'' else []) @ FormatUint (nat q1) @
              (if prec > 0 then CHR ''.'' # fmt_pad prec (nat r1) else []))"

definition DecodeDecimal :: "byte list \<Rightarrow> int \<Rightarrow> int \<Rightarrow> string result" where
  "DecodeDecimal inputData precision scale =
     (case validateNumberMetadata precision scale of
        Inl e \<Rightarrow> Inl e
      | Inr _ \<Rightarrow>
          if inputData = [numberZeroWireByte]
          then Inr (if scale \<ge> 0 then FloatString 0 (nat scale) else ''0'')
          else case fromNumberBig inputData of
            Inl e \<Rightarrow> Inl e
          | Inr (bigMantissa, negative, exponent, _) \<Rightarrow>
              let m = (if negative then - rat_of_int bigMantissa else rat_of_int bigMantissa);
                  bigRat =
                    (if exponent > 0 then m * rat_of_int (10 ^ nat exponent)
                     else if exponent < 0 then m / rat_of_int (10 ^ nat (- exponent))
                     else m)
              in if scale \<ge> 0 then Inr (FloatString bigRat (nat scale))
                 else
                   let factor = 10 ^ nat (- scale);
                       (nNum, nDen) = quotient_of (bigRat / rat_of_int factor);
                       q = \<bar>nNum\<bar> div nDen;
                       r = \<bar>nNum\<bar> mod nDen;
                       q1 = (if 2 * r \<ge> nDen then q + 1 else q);
                       q2 = (if nNum < 0 then - q1 else q1)
                   in Inr (FormatInt (q2 * factor)))"

text \<open>The local function of \<open>DecodeExactDecimalAsString\<close>: no trailing fractional zeros, no
  trailing dot.\<close>

definition normalizeDecimalString :: "string \<Rightarrow> string" where
  "normalizeDecimalString decimalString =
     (let integerPart = takeWhile (\<lambda>c. c \<noteq> CHR ''.'') decimalString;
          fractionPart = TrimRightFunc (\<lambda>c. c = CHR ''0'') (drop (length integerPart + 1) decimalString);
          s = (if CHR ''.'' \<in> set decimalString
               then if fractionPart = [] then integerPart
                    else integerPart @ CHR ''.'' # fractionPart
               else decimalString)
      in if s = [] \<or> s = ''-0'' then ''0'' else s)"

definition DecodeExactDecimalAsString :: "byte list \<Rightarrow> string result" where
  "DecodeExactDecimalAsString inputData =
     (if inputData = [numberZeroWireByte] then Inr ''0''
      else case fromNumberBig inputData of
        Inl e \<Rightarrow> Inl e
      | Inr (mantissa, negative, exponent, _) \<Rightarrow>
          let mantissaString = FormatInt mantissa;
              n = int (length mantissaString);
              decimalPoint = exponent + n;
              decimalString =
                (if decimalPoint \<ge> n
                 then mantissaString @ replicate (nat (decimalPoint - n)) (CHR ''0'')
                 else if decimalPoint > 0
                 then normalizeDecimalString
                        (take (nat decimalPoint) mantissaString @ CHR ''.'' # drop (nat decimalPoint) mantissaString)
                 else normalizeDecimalString
                        (''0.'' @ replicate (nat (- decimalPoint)) (CHR ''0'') @ mantissaString))
          in Inr (if negative then CHR ''-'' # decimalString else decimalString))"

subsection \<open>Lemmas on decimal text\<close>

lemma decimal_value_minus [simp]: "decimal_value (CHR ''-'' # s) = - unsigned_value s"
  by (simp add: decimal_value_def)

lemma decimal_value_unsigned: "s = [] \<or> hd s \<noteq> CHR ''-'' \<Longrightarrow> decimal_value s = unsigned_value s"
  by (auto simp: decimal_value_def)

lemma nodot_digits [simp]:
  "digits_ok i \<Longrightarrow> takeWhile (\<lambda>c. c \<noteq> CHR ''.'') (map digit_char i) = map digit_char i"
  by (induction i) auto

lemma nodot_set [simp]: "digits_ok i \<Longrightarrow> CHR ''.'' \<notin> digit_char ` set i"
  using digit_sep_notin(3) [of "map digit_char i"] by simp

lemma unsigned_value_point:
  "digits_ok i \<Longrightarrow> digits_ok f \<Longrightarrow>
   unsigned_value (map digit_char i @ CHR ''.'' # map digit_char f) = rat_of_nat (dec_val (i @ f)) / 10 ^ length f"
  by (simp add: unsigned_value_def Let_def)

lemma unsigned_value_digits: "digits_ok i \<Longrightarrow> unsigned_value (map digit_char i) = rat_of_nat (dec_val i)"
  by (simp add: unsigned_value_def Let_def)

lemma hd_digits: "digits_ok i \<Longrightarrow> i \<noteq> [] \<Longrightarrow> hd (map digit_char i @ s) \<noteq> CHR ''-''"
  by (cases i) auto

lemma hd_FormatUint [simp]: "hd (FormatUint n) \<noteq> CHR ''-''"
  using hd_digits [of "digits10 n" "[]"] by (simp add: FormatUint_def)

lemma unsigned_value_FormatUint [simp]: "unsigned_value (FormatUint n) = rat_of_nat n"
  using unsigned_value_digits [of "digits10 n"] by (simp add: FormatUint_def)

lemma decimal_value_FormatInt [simp]: "decimal_value (FormatInt v) = rat_of_int v"
  by (simp add: FormatInt_def decimal_value_unsigned)

lemma unsigned_value_FormatUint_point:
  assumes "n < 10 ^ k" "0 < k"
  shows "unsigned_value (FormatUint q @ CHR ''.'' # fmt_pad k n) = (rat_of_nat q * 10 ^ k + rat_of_nat n) / 10 ^ k"
proof -
  let ?f = "replicate (k - length (digits10 n)) 0 @ digits10 n"
  have "length ?f = k" using assms length_digits10_le [of n k] by simp
  moreover have "digits_ok ?f" by simp
  moreover have "dec_val (digits10 q @ ?f) = q * 10 ^ length ?f + n"
    by (simp only: dec_val_append [of "digits10 q" ?f] dec_val_lead_zeros dec_val_digits10)
  ultimately show ?thesis
    using unsigned_value_point [of "digits10 q" ?f]
    by (simp only: FormatUint_def fmt_pad_digits digits_ok_digits10) simp
qed

text \<open>Rounding a fraction by quotient and remainder.\<close>

lemma floor_half_div:
  assumes "0 < b" "0 \<le> n"
  shows "\<lfloor>rat_of_int n / rat_of_int b + 1 / 2\<rfloor> = n div b + (if b \<le> 2 * (n mod b) then 1 else 0)"
proof -
  have "rat_of_int n / rat_of_int b + 1 / 2 = rat_of_int (2 * n + b) / rat_of_int (2 * b)"
    using assms by (simp add: field_simps)
  then have "\<lfloor>rat_of_int n / rat_of_int b + 1 / 2\<rfloor> = (2 * n + b) div (2 * b)"
    by (simp only: floor_divide_of_int_eq)
  also have "2 * n + b = 2 * b * (n div b) + (2 * (n mod b) + b)"
    by (metis (no_types, lifting) add.assoc distrib_left mult.assoc mult_div_mod_eq)
  also have "\<dots> div (2 * b) = n div b + (2 * (n mod b) + b) div (2 * b)"
    using assms by simp
  also have "(2 * (n mod b) + b) div (2 * b) = (if b \<le> 2 * (n mod b) then 1 else 0)"
  proof (cases "b \<le> 2 * (n mod b)")
    case True
    moreover have "n mod b < b" using assms by simp
    ultimately show ?thesis by (intro trans [OF int_div_pos_eq [of _ _ 1 "2 * (n mod b) - b"]]) auto
  next
    case False
    then show ?thesis using assms by (auto intro!: div_pos_pos_trivial add_nonneg_pos)
  qed
  finally show ?thesis .
qed


lemma round_half_away_fraction:
  assumes "0 < b"
  shows "round_half_away (rat_of_int a / rat_of_int b) =
    (if a < 0 then - 1 else 1) * (\<bar>a\<bar> div b + (if b \<le> 2 * (\<bar>a\<bar> mod b) then 1 else 0))"
  using assms floor_half_div [of b "\<bar>a\<bar>"]
  by (auto simp: round_half_away_def divide_less_0_iff)

lemma round_half_away_of_int [simp]: "round_half_away (rat_of_int z) = z"
  using round_half_away_fraction [of 1 z] by (simp split: if_splits)

lemma round_half_away_0 [simp]: "round_half_away 0 = 0"
  using round_half_away_of_int [of 0] by simp

lemma quotient_of_rat:
  assumes "quotient_of x = (a, b)"
  shows "0 < b" "x = rat_of_int a / rat_of_int b"
  using assms quotient_of_denom_pos quotient_of_div by blast+

lemma decimal_value_FloatString:
  "decimal_value (FloatString x prec) = rat_of_int (round_half_away (x * 10 ^ prec)) / 10 ^ prec"
proof -
  obtain a b where ab: "quotient_of x = (a, b)" by force
  note b = quotient_of_rat [OF ab]
  show ?thesis
  proof (cases "b = 1")
    case True
    have "round_half_away (x * 10 ^ prec) = a * 10 ^ prec"
      using b True round_half_away_of_int [of "a * 10 ^ prec"] by simp
    moreover have "decimal_value (FormatInt a @ CHR ''.'' # replicate prec CHR ''0'') = rat_of_int a"
    proof -
      have z: "replicate prec CHR ''0'' = map digit_char (replicate prec 0)" by simp
      have "unsigned_value (FormatUint n @ CHR ''.'' # replicate prec CHR ''0'') = rat_of_nat n" for n
        unfolding FormatUint_def z by (subst unsigned_value_point) simp_all
      then show ?thesis by (simp add: FormatInt_def decimal_value_unsigned)
    qed
    ultimately show ?thesis using ab True b by (simp add: FloatString_def)
  next
    case False
    define p :: int where "p = 10 ^ prec"
    define q where "q = \<bar>a\<bar> div b"
    define r where "r = (\<bar>a\<bar> mod b * p) div b"
    define c where "c = (b \<le> 2 * ((\<bar>a\<bar> mod b * p) mod b))"
    define qr where "qr = (if c then if r + 1 \<ge> p then (q + 1, r + 1 - p) else (q, r + 1) else (q, r))"
    have p: "0 < p" by (simp add: p_def)
    have m: "0 \<le> \<bar>a\<bar> mod b" "\<bar>a\<bar> mod b < b" using b by simp_all
    have "0 \<le> q" "0 \<le> r" using b p m by (simp_all add: q_def r_def pos_imp_zdiv_nonneg_iff)
    moreover have "r < p"
    proof -
      have "b * r \<le> \<bar>a\<bar> mod b * p" unfolding r_def using b mult_div_mod_eq [of b "\<bar>a\<bar> mod b * p"]
        pos_mod_sign [of b "\<bar>a\<bar> mod b * p"] by linarith
      also have "\<dots> < b * p" using m p by simp
      finally show ?thesis using b by simp
    qed
    ultimately have qr: "0 \<le> fst qr" "0 \<le> snd qr" "snd qr < p"
      "fst qr * p + snd qr = q * p + r + (if c then 1 else 0)"
      by (auto simp: qr_def algebra_simps)
    have "\<bar>a\<bar> * p = b * (q * p) + \<bar>a\<bar> mod b * p"
      unfolding q_def by (metis distrib_right mult.assoc mult_div_mod_eq)
    then have d: "\<bar>a * p\<bar> div b = q * p + r" "\<bar>a * p\<bar> mod b = (\<bar>a\<bar> mod b * p) mod b"
      using b p by (simp_all add: abs_mult r_def)
    have "x * 10 ^ prec = rat_of_int (a * p) / rat_of_int b" using b by (simp add: p_def)
    moreover have "a * p < 0 \<longleftrightarrow> a < 0" using p by (simp add: mult_less_0_iff)
    ultimately have rnd: "round_half_away (x * 10 ^ prec) =
        (if a < 0 then - 1 else 1) * (fst qr * p + snd qr)"
      by (simp only: round_half_away_fraction [OF b(1)] d c_def [symmetric] qr(4))
    have str: "FloatString x prec = (if a < 0 then ''-'' else []) @ FormatUint (nat (fst qr)) @
        (if prec > 0 then CHR ''.'' # fmt_pad prec (nat (snd qr)) else [])"
      unfolding FloatString_def ab
      by (simp add: False Let_def case_prod_beta qr_def q_def r_def c_def p_def)
    have val: "unsigned_value (FormatUint (nat (fst qr)) @
        (if prec > 0 then CHR ''.'' # fmt_pad prec (nat (snd qr)) else [])) =
        rat_of_int (fst qr * p + snd qr) / 10 ^ prec"
    proof (cases "prec > 0")
      case True
      have "nat (snd qr) < 10 ^ prec" using qr by (simp add: p_def nat_less_iff)
      then show ?thesis using True qr(1,2) unsigned_value_FormatUint_point [of "nat (snd qr)" prec "nat (fst qr)"]
        by (simp add: p_def)
    next
      case False
      then show ?thesis using qr(1-3) by (simp add: p_def)
    qed
    show ?thesis unfolding str rnd using val
      by (simp add: decimal_value_unsigned add_divide_distrib diff_divide_distrib)
  qed
qed

subsection \<open>The decoders print the number\<close>

lemma number_scaled:
  "(if x > 0 then m * rat_of_int (10 ^ nat x)
    else if x < 0 then m / rat_of_int (10 ^ nat (- x)) else m) = m * 10 powi x"
  by (auto simp: power_int_def field_simps)

lemma fromNumberBig_zero [simp]: "fromNumberBig [0x80] = Inr (0, False, - 128, 0)"
  by code_simp





text \<open>Cutting the trailing zeros of a fraction does not change its value.\<close>

lemma TrimRight_digits:
  "digits_ok ds \<Longrightarrow> TrimRightFunc (\<lambda>c. c = CHR ''0'') (map digit_char ds) = map digit_char (strip0 ds)"
proof -
  assume "digits_ok ds"
  then have "d \<in> set (rev ds) \<Longrightarrow> digit_char d = CHR ''0'' \<longleftrightarrow> d = 0" for d
    by (metis digit_char_0 digit_char_inv(2) digits_ok_def list_all_iff set_rev zero_less_numeral)
  then have "dropWhile (\<lambda>d. digit_char d = CHR ''0'') (rev ds) = dropWhile (\<lambda>d. d = 0) (rev ds)"
    by (intro dropWhile_cong) auto
  then show ?thesis by (simp add: TrimRightFunc_def strip0_def rev_map dropWhile_map comp_def)
qed

lemma normalizeDecimalString_value:
  assumes "digits_ok i" "digits_ok f" "i \<noteq> []"
  shows "unsigned_value (normalizeDecimalString (map digit_char i @ CHR ''.'' # map digit_char f)) =
      rat_of_nat (dec_val (i @ f)) / 10 ^ length f"
    and "hd (normalizeDecimalString (map digit_char i @ CHR ''.'' # map digit_char f)) \<noteq> CHR ''-''"
proof -
  obtain z where z: "f = strip0 f @ replicate z 0" using strip0_zeros by blast
  then have ok: "digits_ok (strip0 f)" using assms(2) by (metis digits_ok_simps(3))
  have "hd (map digit_char i @ s) \<noteq> CHR ''-''" for s using hd_digits assms by blast
  then have ne: "map digit_char i @ s \<noteq> ''-0''" "map digit_char i \<noteq> ''-0''" for s
    by (metis list.sel(1), metis append.right_neutral list.sel(1))
  have norm: "normalizeDecimalString (map digit_char i @ CHR ''.'' # map digit_char f) =
      map digit_char i @ (if strip0 f = [] then [] else CHR ''.'' # map digit_char (strip0 f))"
    using assms ne by (simp add: normalizeDecimalString_def Let_def TrimRight_digits)
  have "rat_of_nat (dec_val (i @ strip0 f)) / 10 ^ length (strip0 f) = rat_of_nat (dec_val (i @ f)) / 10 ^ length f"
  proof -
    have "dec_val (i @ f) = dec_val (i @ strip0 f) * 10 ^ z" "length f = length (strip0 f) + z"
      by (subst z, simp flip: append_assoc, subst z, simp)
    then show ?thesis by (simp add: power_add)
  qed
  then show "unsigned_value (normalizeDecimalString (map digit_char i @ CHR ''.'' # map digit_char f)) =
      rat_of_nat (dec_val (i @ f)) / 10 ^ length f"
    unfolding norm using assms ok unsigned_value_point [OF assms(1) ok] unsigned_value_digits [OF assms(1)]
    by (cases "strip0 f = []") simp_all
  show "hd (normalizeDecimalString (map digit_char i @ CHR ''.'' # map digit_char f)) \<noteq> CHR ''-''"
    unfolding norm using hd_digits assms by blast
qed

lemma fromNumberBig_mantissa_nonneg: "fromNumberBig w = Inr (m, negative, x, k) \<Longrightarrow> 0 \<le> m"
  by (auto simp: fromNumberBig_def Let_def split: if_splits sum.splits prod.splits
      dest!: fromNumberBig_loop_ge)

lemma DecodeExactDecimalAsString_text:
  assumes "fromNumberBig w = Inr (m, negative, x, k)" "w \<noteq> [numberZeroWireByte]"
  obtains s where "DecodeExactDecimalAsString w = Inr (if negative then CHR ''-'' # s else s)"
    "unsigned_value s = rat_of_int m * 10 powi x" "hd s \<noteq> CHR ''-''"
proof -
  define ds where "ds = digits10 (nat m)"
  have m: "0 \<le> m" using assms(1) fromNumberBig_mantissa_nonneg by blast
  then have str: "FormatInt m = map digit_char ds" and val: "int (dec_val ds) = m"
    by (simp_all add: FormatInt_def FormatUint_def ds_def)
  have ok: "digits_ok ds" "ds \<noteq> []" by (simp_all add: ds_def)
  have rv: "rat_of_nat (dec_val ds) = rat_of_int m" using val by (metis of_int_of_nat_eq)
  let ?p = "x + int (length ds)"
  consider (int) "x \<ge> 0" | (mid) "x < 0" "?p > 0" | (frac) "x < 0" "?p \<le> 0" by linarith
  then show ?thesis
  proof cases
    case int
    let ?s = "map digit_char (ds @ replicate (nat x) 0)"
    show ?thesis
    proof (rule that [of ?s])
      show "DecodeExactDecimalAsString w = Inr (if negative then CHR ''-'' # ?s else ?s)"
        using assms int by (simp add: DecodeExactDecimalAsString_def Let_def str)
      show "unsigned_value ?s = rat_of_int m * 10 powi x"
        using unsigned_value_digits [of "ds @ replicate (nat x) 0"] ok int rv by (simp add: power_int_def)
      show "hd ?s \<noteq> CHR ''-''" using hd_digits [of "ds @ replicate (nat x) 0" "[]"] ok by simp
    qed
  next
    case mid
    let ?i = "take (nat ?p) ds" and ?f = "drop (nat ?p) ds"
    have "digits_ok ?i" "digits_ok ?f" using ok(1) by (metis append_take_drop_id digits_ok_simps(3))+
    moreover have "?i \<noteq> []" using mid ok by simp
    ultimately have n: "unsigned_value (normalizeDecimalString (map digit_char ?i @ CHR ''.'' # map digit_char ?f)) =
        rat_of_nat (dec_val (?i @ ?f)) / 10 ^ length ?f"
      "hd (normalizeDecimalString (map digit_char ?i @ CHR ''.'' # map digit_char ?f)) \<noteq> CHR ''-''"
      using normalizeDecimalString_value by blast+
    have "length ?f = nat (- x)" using mid by simp
    then show ?thesis using that [OF _ _ n(2)] n(1) assms mid rv
      by (simp add: DecodeExactDecimalAsString_def Let_def str take_map drop_map power_int_def field_simps)
  next
    case frac
    let ?f = "replicate (nat (- ?p)) 0 @ ds"
    have n: "unsigned_value (normalizeDecimalString (map digit_char [0] @ CHR ''.'' # map digit_char ?f)) =
        rat_of_nat (dec_val ([0] @ ?f)) / 10 ^ length ?f"
      "hd (normalizeDecimalString (map digit_char [0] @ CHR ''.'' # map digit_char ?f)) \<noteq> CHR ''-''"
      using normalizeDecimalString_value [of "[0]" ?f] ok by simp_all
    have "length ?f = nat (- x)" "dec_val ([0] @ ?f) = dec_val ds" using frac by (simp_all add: dec_val_Cons)
    then show ?thesis using that [OF _ _ n(2)] n(1) assms frac rv
      by (simp add: DecodeExactDecimalAsString_def Let_def str power_int_def field_simps)
  qed
qed

text \<open>C14: \<open>DecodeExactDecimalAsString\<close> prints exactly the number on the wire.\<close>

theorem DecodeExactDecimalAsString_exact:
  "case fromNumberBig inputData of
      Inl e \<Rightarrow> DecodeExactDecimalAsString inputData = Inl e
    | Inr num \<Rightarrow> \<exists>text. DecodeExactDecimalAsString inputData = Inr text \<and> decimal_value text = number_value num"
proof (cases "inputData = [numberZeroWireByte]")
  case True
  have "decimal_value ''0'' = 0" by code_simp
  then show ?thesis using True by (simp add: DecodeExactDecimalAsString_def number_value_def)
next
  case False
  show ?thesis
  proof (cases "fromNumberBig inputData")
    case (Inl e)
    then show ?thesis using False by (simp add: DecodeExactDecimalAsString_def)
  next
    case (Inr num)
    obtain m negative x k where num: "num = (m, negative, x, k)" by (metis prod_cases4)
    obtain s where s: "DecodeExactDecimalAsString inputData = Inr (if negative then CHR ''-'' # s else s)"
      "unsigned_value s = rat_of_int m * 10 powi x" "hd s \<noteq> CHR ''-''"
      by (rule DecodeExactDecimalAsString_text [OF Inr [unfolded num] False])
    then show ?thesis using Inr
      by (auto simp: num number_value_def decimal_value_unsigned)
  qed
qed

end
