(* ===== verification/Binary_Float.thy ===== *)
theory Binary_Float
  imports Number_Decimal
begin

text \<open>
  Floating-point columns (\<open>internal/driver/ttc/converters/float.go\<close>): BINARY_FLOAT and
  BINARY_DOUBLE, stored as the IEEE-754 bits under an order-preserving transform, and FLOAT,
  stored as NUMBER. A \<open>float32\<close> is a \<open>32 word\<close> and a \<open>float64\<close> a \<open>64 word\<close> of IEEE-754 bits;
  \<open>strconv.FormatFloat\<close> and \<open>strconv.ParseFloat\<close> are arguments.
\<close>

subsection \<open>IEEE-754 bits\<close>

definition IsNaN :: "64 word \<Rightarrow> bool" where
  "IsNaN b = (drop_bit 52 b AND 0x7FF = 0x7FF \<and> b AND 0xFFFFFFFFFFFFF \<noteq> 0)"

definition IsInf :: "64 word \<Rightarrow> bool" where
  "IsInf b = (drop_bit 52 b AND 0x7FF = 0x7FF \<and> b AND 0xFFFFFFFFFFFFF = 0)"

definition float64_is_zero :: "64 word \<Rightarrow> bool" where
  "float64_is_zero b = (b AND 0x7FFFFFFFFFFFFFFF = 0)"

definition float64_neg :: "64 word \<Rightarrow> 64 word" where
  "float64_neg b = b XOR 0x8000000000000000"

text \<open>The magnitude of the value with biased exponent and fraction bits \<open>n\<close>, in units of the
  least subnormal; \<open>p\<close> is the number of fraction bits.\<close>

definition ieee_mag :: "nat \<Rightarrow> nat \<Rightarrow> nat" where
  "ieee_mag p n =
     (let e = n div 2 ^ p; f = n mod 2 ^ p
      in if e = 0 then f else (2 ^ p + f) * 2 ^ (e - 1))"

text \<open>The value of \<open>l\<close> IEEE-754 bits in the same units; infinities sort as the next magnitude.\<close>

definition ieee_value :: "nat \<Rightarrow> nat \<Rightarrow> int \<Rightarrow> int" where
  "ieee_value l p b =
     (if b < 2 ^ (l - 1) then int (ieee_mag p (nat b)) else - int (ieee_mag p (nat (b - 2 ^ (l - 1)))))"

subsection \<open>BINARY_FLOAT and BINARY_DOUBLE\<close>

definition DecodeBinaryFloat :: "byte list \<Rightarrow> 32 word result" where
  "DecodeBinaryFloat inputData =
     (if length inputData \<noteq> 4
      then Inl (NewOracleError ConverterExpectedFormat None
             [ArgStr ''BINARY_FLOAT'', ArgStr ''Decode'', ArgStr ''invalid-length'', ArgInt 4])
      else let stored = (word_of_int (be_val inputData) :: 32 word)
           in Inr (if stored AND 0x80000000 \<noteq> 0 then stored XOR 0x80000000 else NOT stored))"

definition EncodeBinaryFloat :: "32 word \<Rightarrow> byte list" where
  "EncodeBinaryFloat bits =
     (let stored = (if bit bits 31 then NOT bits else bits XOR 0x80000000)
      in be_bytes 4 (uint stored))"

definition DecodeBinaryDouble :: "byte list \<Rightarrow> 64 word result" where
  "DecodeBinaryDouble inputData =
     (if length inputData \<noteq> 8
      then Inl (NewOracleError ConverterExpectedFormat None
             [ArgStr ''BINARY_DOUBLE'', ArgStr ''Decode'', ArgStr ''invalid-length'', ArgInt 8])
      else let stored = (word_of_int (be_val inputData) :: 64 word)
           in Inr (if stored AND 0x8000000000000000 \<noteq> 0 then stored XOR 0x8000000000000000 else NOT stored))"

definition EncodeBinaryDouble :: "64 word \<Rightarrow> byte list" where
  "EncodeBinaryDouble bits =
     (let stored = (if bit bits 63 then NOT bits else bits XOR 0x8000000000000000)
      in be_bytes 8 (uint stored))"

subsection \<open>FLOAT as NUMBER\<close>

text \<open>The decimal text that \<open>DecodeFloat\<close> hands to \<open>strconv.ParseFloat\<close>.\<close>

definition decodeFloatText :: "nat \<Rightarrow> bool \<Rightarrow> int \<Rightarrow> string" where
  "decodeFloatText mantissa negative exponent =
     (let s0 = FormatUint mantissa;
          s1 = (if exponent > 0 then s0 @ replicate (nat exponent) (CHR ''0'')
                else if exponent < 0
                then let pos = int (length s0) + exponent;
                         padded = (if pos < 0 then replicate (nat (- pos)) (CHR ''0'') @ s0 else s0);
                         pos' = (if pos < 0 then 0 else nat pos)
                     in TrimRightFunc (\<lambda>c. c = CHR ''0'') (take pos' padded @ CHR ''.'' # drop pos' padded)
                else s0);
          s2 = (if hd s1 = CHR ''.'' then CHR ''0'' # s1 else s1)
      in if negative then CHR ''-'' # s2 else s2)"

definition DecodeFloat :: "(string \<Rightarrow> 64 word result) \<Rightarrow> byte list \<Rightarrow> 64 word result" where
  "DecodeFloat ParseFloat inputData =
     (case FromNumber inputData of
        Inl e \<Rightarrow> Inl e
      | Inr (mantissa, negative, exponent, _) \<Rightarrow>
          if inputData = [numberZeroWireByte] then Inr 0
          else ParseFloat (decodeFloatText (nat mantissa) negative exponent))"

text \<open>The digits and the exponent that \<open>EncodeFloat\<close> reads off the printed absolute value.\<close>

definition encodeFloatText :: "string \<Rightarrow> bool \<Rightarrow> byte list" where
  "encodeFloatText dec negative =
     (let idx = IndexByte dec (CHR ''.'');
          intPart = (if idx \<noteq> - 1 then take (nat idx) dec else dec);
          fracPart = (if idx \<noteq> - 1 then drop (nat idx + 1) dec else []);
          intTrim = TrimLeftFunc (\<lambda>c. c = CHR ''0'') intPart;
          intDigitsCount = (if intPart = [] then 0 else length intTrim);
          leadingZerosInFrac =
            (if intDigitsCount = 0 then length (takeWhile (\<lambda>c. c = CHR ''0'') fracPart) else 0);
          mantissaStr =
            (if intDigitsCount > 0 then intTrim @ fracPart
             else if leadingZerosInFrac < length fracPart then drop leadingZerosInFrac fracPart
             else []);
          mantissaStr' = TrimLeftFunc (\<lambda>c. c = CHR ''0'') mantissaStr
      in if mantissaStr' = [] then [numberZeroWireByte]
         else ToNumber (bytes_of mantissaStr') negative
                (int intDigitsCount - 1 - int leadingZerosInFrac))"

definition EncodeFloat :: "(64 word \<Rightarrow> string) \<Rightarrow> 64 word \<Rightarrow> byte list result" where
  "EncodeFloat FormatFloat num =
     (if IsNaN num \<or> IsInf num
      then Inl (NewOracleError ConverterExpectedFormat None
             [ArgStr ''FLOAT'', ArgStr ''Encode'', ArgStr ''invalid-value'', ArgStr ''finite number''])
      else if float64_is_zero num then Inr [numberZeroWireByte]
      else let negative = bit num 63;
               num' = (if negative then float64_neg num else num)
           in Inr (encodeFloatText (FormatFloat num') negative))"

text \<open>\<open>EncodeDecimal\<close> adds NUMBER's range; \<open>math.Abs\<close> clears the sign bit, and finite
  non-negative floats compare like their bits. The bounds are the bits of \<open>1e126\<close> and
  \<open>1e-130\<close>.\<close>

definition EncodeDecimal :: "(64 word \<Rightarrow> string) \<Rightarrow> 64 word \<Rightarrow> byte list result" where
  "EncodeDecimal FormatFloat num =
     (if IsNaN num \<or> IsInf num
      then Inl (NewOracleError ConverterExpectedFormat None
             [ArgStr ''NUMBER'', ArgStr ''Encode'', ArgStr ''invalid-value'', ArgStr ''finite number''])
      else let abs = num AND 0x7FFFFFFFFFFFFFFF
           in if abs \<ge> 0x5A17A2ECC414A03F \<or> (abs > 0 \<and> abs < 0x24F1BEBDF578B2F4)
              then Inl (NewOracleError ConverterRange None
                     [ArgStr ''NUMBER'', ArgStr ''Encode'', ArgStr ''out-of-range'', ArgStr ''[1e-130, 1e126)''])
              else EncodeFloat FormatFloat num)"

subsection \<open>The sortable transform\<close>

lemma sign_masks: "(0x80000000 :: 32 word) = 2 ^ 31" "(0x8000000000000000 :: 64 word) = 2 ^ 63"
  by simp_all

lemma bit_top_iff:
  fixes w :: "'a::len word"
  shows "bit w (LENGTH('a) - 1) \<longleftrightarrow> 2 ^ (LENGTH('a) - 1) \<le> uint w"
proof -
  define n where "n = LENGTH('a) - 1"
  have l: "LENGTH('a) = Suc n" by (simp add: n_def)
  have "uint w < 2 * 2 ^ n" using uint_lt2p [of w] by (simp add: l)
  moreover have "bit w n \<longleftrightarrow> odd (uint w div 2 ^ n)"
    using bit_uint_iff [of w n] bit_iff_odd [of "uint w" n] by (simp add: l)
  moreover have "uint w div 2 ^ n = (if 2 ^ n \<le> uint w then 1 else 0)"
    using calculation(1) uint_ge_0 [of w]
    by (auto intro!: div_pos_pos_trivial int_div_pos_eq [of _ _ _ "uint w - 2 ^ n"])
  ultimately show ?thesis unfolding n_def [symmetric] by simp
qed

text \<open>The stored bits, as a number: non-negative values go to the upper half, negative ones to
  the lower half in reverse order.\<close>

definition sortable :: "nat \<Rightarrow> int \<Rightarrow> int" where
  "sortable l b = (if 2 ^ (l - 1) \<le> b then 2 ^ l - 1 - b else b + 2 ^ (l - 1))"

lemma uint_sortable:
  fixes w :: "'a::len word"
  assumes l: "LENGTH('a) = Suc n"
  shows "uint (if bit w n then NOT w else w XOR 2 ^ n) = sortable (Suc n) (uint w)"
proof -
  have top: "bit w n \<longleftrightarrow> 2 ^ n \<le> uint w" using bit_top_iff [of w] by (simp add: l)
  have lt: "uint w < 2 * 2 ^ n" using uint_lt2p [of w] by (simp add: l)
  show ?thesis
  proof (cases "bit w n")
    case True
    have "uint (NOT w) = 2 * 2 ^ n - 1 - uint w"
      using lt by (simp add: unsigned_not_eq take_bit_not_eq_mask_diff mask_eq_exp_minus_1 l take_bit_int_eq_self)
    then show ?thesis using True top by (simp add: sortable_def)
  next
    case False
    have "w XOR 2 ^ n = set_bit n w"
      using False by (metis flip_bit_eq_if flip_bit_eq_xor push_bit_of_1)
    also have "\<dots> = w + 2 ^ n" using False by (simp add: set_bit_eq)
    moreover have "uint (2 ^ n :: 'a word) = 2 ^ n"
    proof -
      have "uint (word_of_int (2 ^ n) :: 'a word) = 2 ^ n"
        by (simp only: unsigned_of_int l) (simp add: take_bit_int_eq_self)
      then show ?thesis by simp
    qed
    ultimately have "uint (w XOR 2 ^ n) = uint w + 2 ^ n"
      using False top by (simp add: uint_plus_if' l)
    then show ?thesis using False top by (simp add: sortable_def)
  qed
qed

lemma unsortable:
  fixes w s :: "'a::len word"
  assumes "n < LENGTH('a)" and s: "s = (if bit w n then NOT w else w XOR 2 ^ n)"
  shows "(if s AND 2 ^ n \<noteq> 0 then s XOR 2 ^ n else NOT s) = w"
proof -
  have "s AND 2 ^ n \<noteq> 0 \<longleftrightarrow> \<not> bit w n"
    using assms(1) by (simp add: s and_exp_eq_0_iff_not_bit bit_simps)
  then show ?thesis by (auto simp: s xor.assoc)
qed

lemma word_be_bytes [simp]:
  "word_of_int (be_val (be_bytes 4 (uint w))) = w" "word_of_int (be_val (be_bytes 8 (uint v))) = v"
  for w :: "32 word" and v :: "64 word"
  using uint_lt2p [of w] uint_lt2p [of v] by simp_all

text \<open>a \<open>float32\<close> is read back bit for bit from its BINARY_FLOAT encoding, NaN payloads,
  infinities, signed zeros and subnormals included.\<close>

theorem DecodeBinaryFloat_EncodeBinaryFloat: "DecodeBinaryFloat (EncodeBinaryFloat bits) = Inr bits"
proof -
  have "(if s AND 0x80000000 \<noteq> 0 then s XOR 0x80000000 else NOT s) = bits"
    if "s = (if bit bits 31 then NOT bits else bits XOR 0x80000000)" for s
    using that unfolding sign_masks by (intro unsortable) simp_all
  then show ?thesis by (simp only: DecodeBinaryFloat_def EncodeBinaryFloat_def Let_def word_be_bytes) simp
qed

text \<open>C16: the same for a \<open>float64\<close> and BINARY_DOUBLE.\<close>

theorem DecodeBinaryDouble_EncodeBinaryDouble: "DecodeBinaryDouble (EncodeBinaryDouble bits) = Inr bits"
proof -
  have "(if s AND 0x8000000000000000 \<noteq> 0 then s XOR 0x8000000000000000 else NOT s) = bits"
    if "s = (if bit bits 63 then NOT bits else bits XOR 0x8000000000000000)" for s
    using that unfolding sign_masks by (intro unsortable) simp_all
  then show ?thesis by (simp only: DecodeBinaryDouble_def EncodeBinaryDouble_def Let_def word_be_bytes) simp
qed

lemma ieee_mag_Suc: "ieee_mag p n < ieee_mag p (Suc n)"
proof -
  let ?e = "n div 2 ^ p" and ?f = "n mod 2 ^ p"
  show ?thesis
  proof (cases "Suc ?f = 2 ^ p")
    case True
    then have "Suc n mod 2 ^ p = 0" "Suc n div 2 ^ p = Suc ?e"
      by (simp_all add: mod_Suc div_Suc)
    moreover have "?f < 2 ^ p" by simp
    ultimately show ?thesis by (cases ?e) (simp_all add: ieee_mag_def Let_def)
  next
    case False
    then have "Suc n mod 2 ^ p = Suc ?f" "Suc n div 2 ^ p = ?e"
      by (simp_all add: mod_Suc div_Suc)
    then show ?thesis by (simp add: ieee_mag_def Let_def)
  qed
qed

lemma ieee_mag_less_iff [simp]: "ieee_mag p m < ieee_mag p n \<longleftrightarrow> m < n"
  by (meson ieee_mag_Suc lift_Suc_mono_less_iff)

lemma ieee_mag_0 [simp]: "ieee_mag p 0 = 0"
  by (simp add: ieee_mag_def)

lemma ieee_mag_pos [simp]: "0 < ieee_mag p n \<longleftrightarrow> 0 < n"
  using ieee_mag_less_iff [of p 0 n] by simp

lemma neg_int_less: "0 < n \<Longrightarrow> - int m < int n"
  by linarith

text \<open>The order of the stored numbers is the order of the values, except between the two zeros.\<close>

lemma sortable_less_iff:
  assumes "0 \<le> a" "a < 2 ^ l" "0 \<le> b" "b < 2 ^ l" "0 < l"
    and "\<not> (ieee_value l p a = 0 \<and> ieee_value l p b = 0)"
  shows "sortable l a < sortable l b \<longleftrightarrow> ieee_value l p a < ieee_value l p b"
proof -
  have two: "(2::int) ^ l = 2 * 2 ^ (l - 1)" using assms(5) by (rule two_pow_pred)
  have neg: "2 ^ (l - 1) \<le> c \<Longrightarrow> nat (c - 2 ^ (l - 1)) < nat (d - 2 ^ (l - 1)) \<longleftrightarrow> c < d" for c d :: int
    by auto
  have z: "ieee_mag p (nat c) = 0 \<longleftrightarrow> c \<le> 0" for c using ieee_mag_pos [of p "nat c"] by (cases "c \<le> 0") auto
  show ?thesis
  proof (cases "2 ^ (l - 1) \<le> a"; cases "2 ^ (l - 1) \<le> b")
    assume "2 ^ (l - 1) \<le> a" "2 ^ (l - 1) \<le> b"
    then show ?thesis by (auto simp: sortable_def ieee_value_def neg)
  next
    assume h: "2 ^ (l - 1) \<le> a" "\<not> 2 ^ (l - 1) \<le> b"
    then have "0 < ieee_mag p (nat (a - 2 ^ (l - 1))) \<or> 0 < ieee_mag p (nat b)"
      using assms(6) by (auto simp: ieee_value_def z)
    then have "- int (ieee_mag p (nat (a - 2 ^ (l - 1)))) < int (ieee_mag p (nat b))" by linarith
    then show ?thesis using h assms(1-4) two by (auto simp: sortable_def ieee_value_def)
  next
    assume h: "\<not> 2 ^ (l - 1) \<le> a" "2 ^ (l - 1) \<le> b"
    then show ?thesis using assms two by (auto simp: sortable_def ieee_value_def)
  next
    assume "\<not> 2 ^ (l - 1) \<le> a" "\<not> 2 ^ (l - 1) \<le> b"
    then show ?thesis using assms by (auto simp: sortable_def ieee_value_def nat_less_eq_zless)
  qed
qed

lemma be_val_EncodeBinaryDouble: "be_val (EncodeBinaryDouble b) = sortable 64 (uint b)"
proof -
  have "uint (if bit b 63 then NOT b else b XOR 0x8000000000000000) = sortable 64 (uint b)"
    using uint_sortable [of 63 b] unfolding sign_masks by simp
  moreover have "uint w mod 256 ^ 8 = uint w" for w :: "64 word" using uint_lt2p [of w] by simp
  ultimately show ?thesis unfolding EncodeBinaryDouble_def Let_def be_val_be_bytes by metis
qed

lemma be_val_EncodeBinaryFloat: "be_val (EncodeBinaryFloat b) = sortable 32 (uint b)"
proof -
  have "uint (if bit b 31 then NOT b else b XOR 0x80000000) = sortable 32 (uint b)"
    using uint_sortable [of 31 b] unfolding sign_masks by simp
  moreover have "uint w mod 256 ^ 4 = uint w" for w :: "32 word" using uint_lt2p [of w] by simp
  ultimately show ?thesis unfolding EncodeBinaryFloat_def Let_def be_val_be_bytes by metis
qed

text \<open>C17: BINARY_DOUBLE encodings sort, as big-endian numbers and so byte by byte, like the values
  they encode.\<close>

theorem EncodeBinaryDouble_sortable:
  assumes "\<not> (ieee_value 64 52 (uint a) = 0 \<and> ieee_value 64 52 (uint b) = 0)"
  shows "be_val (EncodeBinaryDouble a) < be_val (EncodeBinaryDouble b) \<longleftrightarrow>
    ieee_value 64 52 (uint a) < ieee_value 64 52 (uint b)"
  unfolding be_val_EncodeBinaryDouble
  using uint_lt2p [of a] uint_lt2p [of b] by (intro sortable_less_iff assms) simp_all

theorem EncodeBinaryDouble_sortable_witness:
  "be_val (EncodeBinaryDouble 0xBFF0000000000000) < be_val (EncodeBinaryDouble 1)"
proof -
  have "\<not> (ieee_value 64 52 (uint (0xBFF0000000000000 :: 64 word)) = 0 \<and> ieee_value 64 52 (uint (1 :: 64 word)) = 0)"
    "ieee_value 64 52 (uint (0xBFF0000000000000 :: 64 word)) < ieee_value 64 52 (uint (1 :: 64 word))"
    by (simp_all add: ieee_value_def) (rule neg_int_less, simp)
  then show ?thesis using EncodeBinaryDouble_sortable by blast
qed

text \<open>BINARY_FLOAT encodings sort like the values they encode.\<close>

theorem EncodeBinaryFloat_sortable:
  assumes "\<not> (ieee_value 32 23 (uint a) = 0 \<and> ieee_value 32 23 (uint b) = 0)"
  shows "be_val (EncodeBinaryFloat a) < be_val (EncodeBinaryFloat b) \<longleftrightarrow>
    ieee_value 32 23 (uint a) < ieee_value 32 23 (uint b)"
  unfolding be_val_EncodeBinaryFloat
  using uint_lt2p [of a] uint_lt2p [of b] by (intro sortable_less_iff assms) simp_all


theorem EncodeBinaryFloat_sortable_witness:
  "be_val (EncodeBinaryFloat 0xBF800000) < be_val (EncodeBinaryFloat 1)"
proof -
  have "\<not> (ieee_value 32 23 (uint (0xBF800000 :: 32 word)) = 0 \<and> ieee_value 32 23 (uint (1 :: 32 word)) = 0)"
    "ieee_value 32 23 (uint (0xBF800000 :: 32 word)) < ieee_value 32 23 (uint (1 :: 32 word))"
    by (simp_all add: ieee_value_def) (rule neg_int_less, simp)
  then show ?thesis using EncodeBinaryFloat_sortable by blast
qed

subsection \<open>Reading a written NUMBER\<close>

lemma ToNumber_shape:
  assumes "digits_ok ds" "0 < dec_val ds"
  obtains qs k where
    "ToNumber (map dbyte ds) negative e = number_wire negative (e div 2 + 65) qs"
    "pairs_ok qs" "qs \<noteq> []" "2 * length qs \<le> length (strip0 ds) + 2" "k \<le> 1"
    "pairs_val 0 qs = int (dec_val (strip0 ds)) * 10 ^ k"
    "rat_of_int (pairs_val 0 qs) * 10 powi ((e div 2 + 1) * 2 - 2 * int (length qs)) =
       rat_of_nat (dec_val ds) * 10 powi (e + 1 - int (length ds))"
proof -
  obtain ds0 z where w: "ds = ds0 @ replicate z 0" "digits_ok ds0" "ds0 \<noteq> []" "last ds0 \<noteq> 0"
    "ToNumber (map dbyte ds) negative e =
       number_wire negative (e div 2 + 65) (pair_up (if even e then 0 # ds0 else ds0))"
    using ToNumber_wire [OF assms(1,2)] by metis
  let ?qs = "pair_up (if even e then 0 # ds0 else ds0)"
  have s: "strip0 ds = ds0" using w(1,4) strip0_append_zeros by simp
  obtain k where k: "k \<le> 1" "pairs_val 0 ?qs = int (dec_val ds0) * 10 ^ k"
    "(e div 2 + 1) * 2 - 2 * int (length ?qs) = e + 1 - int (length ds0) - int k"
    by (rule pair_up_value [of e ds0])
  have "rat_of_int (int (dec_val ds0) * 10 ^ k) * 10 powi (e + 1 - int (length ds0) - int k) =
      rat_of_nat (dec_val ds) * 10 powi (e + 1 - int (length ds))"
    using w(1) by (simp add: power_int_diff power_int_add)
  then have v: "rat_of_int (pairs_val 0 ?qs) * 10 powi ((e div 2 + 1) * 2 - 2 * int (length ?qs)) =
      rat_of_nat (dec_val ds) * 10 powi (e + 1 - int (length ds))"
    unfolding k(2,3) .
  have q: "pairs_ok ?qs" "?qs \<noteq> []" "2 * length ?qs \<le> length (strip0 ds) + 2"
    using w(2,3) s by auto
  have "pairs_val 0 ?qs = int (dec_val (strip0 ds)) * 10 ^ k" using k(2) s by simp
  with v show ?thesis by (intro that [OF w(5) q k(1)])
qed

lemma FromNumber_ToNumber:
  assumes "digits_ok ds" "0 < dec_val ds" "length (strip0 ds) \<le> 18" "- 128 \<le> e" "e \<le> 125"
  obtains mant x n where "FromNumber (ToNumber (map dbyte ds) negative e) = Inr (mant, negative, x, n)"
    "0 \<le> mant" "rat_of_int mant * 10 powi x = rat_of_nat (dec_val ds) * 10 powi (e + 1 - int (length ds))"
    "ToNumber (map dbyte ds) negative e \<noteq> [numberZeroWireByte]"
proof -
  obtain qs k where q:
    "ToNumber (map dbyte ds) negative e = number_wire negative (e div 2 + 65) qs"
    "pairs_ok qs" "qs \<noteq> []" "2 * length qs \<le> length (strip0 ds) + 2" "k \<le> (1::nat)"
    "pairs_val 0 qs = int (dec_val (strip0 ds)) * 10 ^ k"
    "rat_of_int (pairs_val 0 qs) * 10 powi ((e div 2 + 1) * 2 - 2 * int (length qs)) =
       rat_of_nat (dec_val ds) * 10 powi (e + 1 - int (length ds))"
    by (rule ToNumber_shape [OF assms(1,2)])
  have "digits_ok (strip0 ds)" using assms(1) strip0_zeros [of ds] by (metis digits_ok_simps(3))
  then have "dec_val (strip0 ds) < 10 ^ 18"
    using dec_val_less power_increasing [OF assms(3), of "10::nat"] by fastforce
  moreover have "(10::int) ^ k \<le> 10" using q(5) by (cases k) simp_all
  ultimately have "pairs_val 0 qs \<le> 10 ^ 18 * 10" unfolding q(6) by (intro mult_mono) simp_all
  then have "FromNumber (number_wire negative (e div 2 + 65) qs) =
    Inr (pairs_val 0 qs, negative, (e div 2 + 65 - 64) * 2 - 2 * int (length qs), 2 * int (length qs) - 1)"
    using assms q by (intro FromNumber_wire) auto
  moreover have "number_wire negative (e div 2 + 65) qs \<noteq> [numberZeroWireByte]"
    using q(3) by (simp add: number_wire_def)
  moreover have "0 \<le> pairs_val 0 qs" using pairs_val_ge [OF q(2), of 0] by simp
  moreover have "e div 2 + 65 - 64 = e div 2 + 1" by simp
  ultimately show ?thesis using that [OF _ _ q(7)] q(1) by metis
qed

subsection \<open>The text that DecodeFloat parses\<close>

lemma strip0_value:
  "rat_of_nat (dec_val (i @ strip0 f)) / 10 ^ length (strip0 f) = rat_of_nat (dec_val (i @ f)) / 10 ^ length f"
proof -
  obtain z where z: "f = strip0 f @ replicate z 0" using strip0_zeros by blast
  then have "dec_val (i @ f) = dec_val (i @ strip0 f) * 10 ^ z"
    by (metis append.assoc dec_val_append_zeros)
  moreover have "length f = length (strip0 f) + z" using arg_cong [OF z, of length] by simp
  ultimately show ?thesis by (simp add: power_add)
qed

lemma TrimRight_point:
  assumes "digits_ok f"
  shows "TrimRightFunc (\<lambda>c. c = CHR ''0'') (u @ CHR ''.'' # map digit_char f) =
    u @ CHR ''.'' # map digit_char (strip0 f)"
proof -
  have "dropWhile (\<lambda>c. c = CHR ''0'') (rev (map digit_char f)) = rev (map digit_char (strip0 f))"
    using TrimRight_digits [OF assms] by (simp add: TrimRightFunc_def) (metis rev_swap)
  then show ?thesis by (simp add: TrimRightFunc_def dropWhile_append3 flip: rev_map)
qed


lemma hd_digits_dot: "digits_ok i \<Longrightarrow> i \<noteq> [] \<Longrightarrow> hd (map digit_char i @ s) \<noteq> CHR ''.''"
  by (cases i) auto

lemma decodeFloatText_value:
  "decimal_value (decodeFloatText m negative x) = number_value (int m, negative, x, n)"
proof -
  define ds where "ds = digits10 m"
  have ds: "FormatUint m = map digit_char ds" "digits_ok ds" "ds \<noteq> []" "dec_val ds = m"
    by (simp_all add: FormatUint_def ds_def)
  let ?pos = "int (length ds) + x"
  consider (nonneg) "x \<ge> 0" | (neg) "x < 0" by linarith
  then have "\<exists>s. decodeFloatText m negative x = (if negative then CHR ''-'' # s else s) \<and>
      hd s \<noteq> CHR ''-'' \<and> unsigned_value s = rat_of_nat m * 10 powi x"
  proof cases
    case nonneg
    let ?ds = "ds @ replicate (nat x) 0"
    have "decodeFloatText m negative x = (if negative then CHR ''-'' # map digit_char ?ds else map digit_char ?ds)"
      using nonneg ds hd_digits_dot [of ?ds "[]"] by (auto simp: decodeFloatText_def Let_def)
    then show ?thesis using ds unsigned_value_digits [of ?ds] hd_digits [of ?ds "[]"] nonneg
      by (intro exI [of _ "map digit_char ?ds"]) (simp add: power_int_def)
  next
    case neg
    define i where "i = (if ?pos < 0 then [] else take (nat ?pos) ds)"
    define f where "f = (if ?pos < 0 then replicate (nat (- ?pos)) 0 @ ds else drop (nat ?pos) ds)"
    define j where "j = (if i = [] then [0] else i)"
    have ok: "digits_ok i" "digits_ok f"
      using ds(2) by (auto simp: i_def f_def) (metis append_take_drop_id digits_ok_simps(3))+
    then have okj: "digits_ok j" "j \<noteq> []" "digits_ok (strip0 f)"
      using strip0_zeros [of f] by (auto simp: j_def) (metis digits_ok_simps(3))
    have val: "dec_val (j @ f) = m" "length f = nat (- x)"
      using ds(4) neg by (auto simp: i_def f_def j_def dec_val_Cons)
    let ?s = "map digit_char j @ CHR ''.'' # map digit_char (strip0 f)"
    have "decodeFloatText m negative x = (if negative then CHR ''-'' # ?s else ?s)"
    proof -
      have t: "TrimRightFunc (\<lambda>c. c = CHR ''0'') (map digit_char i @ CHR ''.'' # map digit_char f) =
          map digit_char i @ CHR ''.'' # map digit_char (strip0 f)"
        by (rule TrimRight_point [OF ok(2)])
      have p: "(if ?pos < 0 then replicate (nat (- ?pos)) (CHR ''0'') @ map digit_char ds else map digit_char ds) =
          map digit_char (i @ f)" "(if ?pos < 0 then 0 else nat ?pos) = length i"
        using neg by (simp_all add: i_def f_def flip: take_map drop_map)
      have "decodeFloatText m negative x =
          (let s1 = map digit_char i @ CHR ''.'' # map digit_char (strip0 f);
               s2 = (if hd s1 = CHR ''.'' then CHR ''0'' # s1 else s1)
           in if negative then CHR ''-'' # s2 else s2)"
        using neg unfolding decodeFloatText_def Let_def ds(1) length_map p t [symmetric]
        by (simp add: p)
      then show ?thesis using ok(1) hd_digits_dot [of i] by (cases "i = []") (simp_all add: j_def Let_def)
    qed
    moreover have "unsigned_value ?s = rat_of_nat m * 10 powi x"
      unfolding unsigned_value_point [OF okj(1,3)] strip0_value val using neg
      by (simp add: power_int_def field_simps)
    ultimately show ?thesis using hd_digits [OF okj(1,2)] by blast
  qed
  then show ?thesis by (auto simp: number_value_def decimal_value_unsigned)
qed


subsection \<open>The digits that EncodeFloat writes\<close>

text \<open>The text that \<open>strconv.FormatFloat(_, 'f', -1, 64)\<close> prints: digits, and after a dot the
  fraction if there is one.\<close>

definition decimal_text :: "nat list \<Rightarrow> nat list \<Rightarrow> string" where
  "decimal_text i f = map digit_char i @ (if f = [] then [] else CHR ''.'' # map digit_char f)"

abbreviation drop0 :: "nat list \<Rightarrow> nat list" where
  "drop0 \<equiv> dropWhile (\<lambda>d. d = 0)"

lemma digit_char_eq_0 [simp]: "d < 10 \<Longrightarrow> digit_char d = CHR ''0'' \<longleftrightarrow> d = 0"
  by (metis digit_char_0 digit_char_inv(2) zero_less_numeral)

lemma TrimLeft_digits:
  "digits_ok ds \<Longrightarrow> TrimLeftFunc (\<lambda>c. c = CHR ''0'') (map digit_char ds) = map digit_char (drop0 ds)"
  by (induction ds) (auto simp: TrimLeftFunc_def)

lemma takeWhile_digits:
  "digits_ok ds \<Longrightarrow> takeWhile (\<lambda>c. c = CHR ''0'') (map digit_char ds) = map digit_char (takeWhile (\<lambda>d. d = 0) ds)"
  by (induction ds) auto

lemma digits_ok_drop0 [simp]: "digits_ok ds \<Longrightarrow> digits_ok (drop0 ds)"
  by (induction ds) auto

lemma dec_val_drop0 [simp]: "dec_val (drop0 ds) = dec_val ds"
  by (induction ds) (auto simp: dec_val_Cons)

lemma drop0_idem [simp]: "drop0 (drop0 ds) = drop0 ds"
  by (induction ds) auto

lemma drop0_append: "drop0 (i @ f) = (if drop0 i = [] then drop0 f else drop0 i @ f)"
  by (induction i) auto

lemma unsigned_value_decimal_text:
  "digits_ok i \<Longrightarrow> digits_ok f \<Longrightarrow>
   unsigned_value (decimal_text i f) = rat_of_nat (dec_val (drop0 (i @ f))) / 10 ^ length f"
  using unsigned_value_point [of i f] unsigned_value_digits [of i]
  by (cases "f = []") (simp_all add: decimal_text_def)

lemma encodeFloatText_ToNumber:
  assumes "digits_ok i" "digits_ok f" "0 < dec_val (i @ f)"
  shows "encodeFloatText (decimal_text i f) negative =
    ToNumber (map dbyte (drop0 (i @ f))) negative (int (length (drop0 (i @ f))) - 1 - int (length f))"
proof -
  let ?i = "drop0 i" and ?f = "drop0 f" and ?z = "length (takeWhile (\<lambda>d. d = 0) f)"
  let ?t = "decimal_text i f"
  have split: "(let idx = IndexByte ?t (CHR ''.'') in
      (if idx \<noteq> - 1 then take (nat idx) ?t else ?t, if idx \<noteq> - 1 then drop (nat idx + 1) ?t else [])) =
      (map digit_char i, map digit_char f)"
    using assms by (auto simp: decimal_text_def Let_def)
  have ne: "drop0 (i @ f) \<noteq> []" using assms(3) dec_val_drop0 [of "i @ f"] by (metis dec_val_Nil less_irrefl)
  have z: "length f = ?z + length ?f" by (metis length_append takeWhile_dropWhile_id)
  have d: "drop ?z f = ?f" by (metis append_eq_conv_conj takeWhile_dropWhile_id)
  have b: "digits_ok ds \<Longrightarrow> bytes_of (map digit_char ds) = map dbyte ds" for ds by (rule bytes_of_digits)
  show ?thesis
  proof (cases "?i = []")
    case True
    then have "drop0 (i @ f) = ?f" by (simp add: drop0_append)
    then show ?thesis
      using True split assms ne z d
      by (simp add: encodeFloatText_def Let_def TrimLeft_digits takeWhile_digits drop_map bytes_of_digits) auto
  next
    case False
    then have "drop0 (i @ f) = ?i @ f" "i \<noteq> []" by (auto simp: drop0_append)
    moreover have "TrimLeftFunc (\<lambda>c. c = CHR ''0'') (map digit_char (?i @ f)) = map digit_char (?i @ f)"
      using TrimLeft_digits [of "?i @ f"] assms False by (auto simp: drop0_append)
    ultimately show ?thesis
      using False split assms
      by (simp add: encodeFloatText_def Let_def TrimLeft_digits bytes_of_digits flip: map_append) auto
  qed
qed


lemma dec_val_ge: "ds \<noteq> [] \<Longrightarrow> hd ds \<noteq> 0 \<Longrightarrow> 10 ^ (length ds - 1) \<le> dec_val ds"
  by (cases ds) (auto simp: dec_val_Cons trans_le_add1)

text \<open>A number between \<open>10\<close> to the \<open>lo\<close> and \<open>10\<close> to the \<open>hi + 1\<close> has its first digit
  between the places \<open>lo\<close> and \<open>hi\<close>.\<close>

lemma lead_exponent_bounds:
  fixes ds :: "nat list" and g :: nat
  defines "v \<equiv> rat_of_nat (dec_val ds) / 10 ^ g"
  assumes "digits_ok ds" "ds \<noteq> []" "hd ds \<noteq> 0" "10 powi lo \<le> v" "v < 10 powi (hi + 1)"
  shows "lo \<le> int (length ds) - 1 - int g" "int (length ds) - 1 - int g \<le> hi"
proof -
  have up: "v < 10 powi (int (length ds) - int g)"
  proof -
    have "rat_of_nat (dec_val ds) < 10 ^ length ds"
      using dec_val_less [OF assms(2)] by (metis of_nat_less_iff of_nat_numeral of_nat_power)
    then show ?thesis by (simp add: v_def power_int_diff field_simps)
  qed
  have lo: "10 powi (int (length ds) - 1 - int g) \<le> v"
  proof -
    have "(10::rat) ^ (length ds - 1) \<le> rat_of_nat (dec_val ds)"
      using dec_val_ge [OF assms(3,4)] by (metis of_nat_le_iff of_nat_numeral of_nat_power)
    moreover have "(10::rat) powi (int (length ds) - 1) = 10 ^ (length ds - 1)"
      using assms(3) by (cases ds) simp_all
    moreover have "(10::rat) powi (int (length ds) - 1 - int g) = 10 powi (int (length ds) - 1) / 10 ^ g"
      by (subst power_int_diff) simp_all
    ultimately show ?thesis by (simp add: v_def divide_right_mono)
  qed
  have mono: "(10::rat) powi a < 10 powi b \<Longrightarrow> a < b" for a b :: int
    by (metis linorder_not_less power_int_increasing one_le_numeral)
  show "lo \<le> int (length ds) - 1 - int g" using mono [of lo "int (length ds) - int g"] up assms(5) by linarith
  show "int (length ds) - 1 - int g \<le> hi" using mono [of "int (length ds) - 1 - int g" "hi + 1"] lo assms(6) by linarith
qed

lemma float64_is_zero_neg: "\<not> float64_is_zero num \<Longrightarrow> num \<noteq> 0"
  by (auto simp: float64_is_zero_def)




text \<open>Without \<open>EncodeDecimal\<close>'s range check the exponent byte of \<open>1e200\<close> wraps: the bytes
  written denote \<open>1e-56\<close>.\<close>

theorem EncodeFloat_out_of_range:
  "EncodeFloat (\<lambda>_. CHR ''1'' # replicate 200 (CHR ''0'')) 0x6974E718D7D7625A = Inr [0xA5, 2] \<and>
   fromNumberBig [0xA5, 2] = Inr (1, False, - 56, 1)"
  by code_simp

end
