(* ===== verification/Oracle_Interval.thy ===== *)
theory Oracle_Interval
  imports Go_Strings
begin

text \<open>
  INTERVAL YEAR TO MONTH and INTERVAL DAY TO SECOND (\<open>converters/interval.go\<close>): decoding of the
  wire forms to the canonical text and encoding of the text. The text of an interval is given
  by \<open>ytm_text\<close> and \<open>ds_text\<close>, against which both directions are proved.
\<close>

subsection \<open>The sign bias\<close>

abbreviation "yearXorBias \<equiv> (0x80000000 :: int)"
abbreviation "monthBias \<equiv> (60 :: int)"

lemma xor_high_bit:
  fixes r :: int
  assumes "0 \<le> r" "r < 2 ^ n"
  shows "r XOR 2 ^ n = r + 2 ^ n"
proof -
  have "r AND 2 ^ n = 0"
  proof (rule bit_eqI)
    fix i
    have "r = take_bit n r" using assms by (simp add: take_bit_int_eq_self)
    then have "\<not> bit r n" by (metis bit_take_bit_iff less_irrefl)
    then show "bit (r AND 2 ^ n) i \<longleftrightarrow> bit (0 :: int) i"
      by (auto simp: bit_and_iff bit_exp_iff)
  qed
  then show ?thesis by (simp add: disjunctive_add_eq_xor)
qed

text \<open>\<open>int32(raw ^ 0x80000000)\<close> and \<open>uint32(v) ^ 0x80000000\<close> shift by \<open>2^31\<close>.\<close>

lemma unbias32: "0 \<le> r \<Longrightarrow> r < 2 ^ 32 \<Longrightarrow> swrap 32 (r XOR yearXorBias) = r - 2 ^ 31"
proof -
  assume r: "0 \<le> r" "r < 2 ^ 32"
  show ?thesis
  proof (cases "r < 2 ^ 31")
    case True
    then have "r XOR yearXorBias = r + 2 ^ 31" using r xor_high_bit [of r 31] by simp
    then show ?thesis using r True by (simp add: swrap_def)
  next
    case False
    define t where "t = r - 2 ^ 31"
    have "t XOR 2 ^ 31 = r" using xor_high_bit [of t 31] r False by (simp add: t_def)
    then have "r XOR 2 ^ 31 = t" by (metis bit.xor_self xor.assoc xor.right_neutral xor_self_eq)
    then show ?thesis using r False by (simp add: swrap_id t_def)
  qed
qed

lemma bias32: "- (2 ^ 31) \<le> v \<Longrightarrow> v < 2 ^ 31 \<Longrightarrow> (uwrap 32 v) XOR yearXorBias = v + 2 ^ 31"
proof -
  assume v: "- (2 ^ 31) \<le> v" "v < 2 ^ 31"
  show ?thesis
  proof (cases "v < 0")
    case True
    define t where "t = v + 2 ^ 31"
    have "uwrap 32 v = t + 2 ^ 31"
    proof -
      have "uwrap 32 v = uwrap 32 (v + 2 ^ 32)" by (simp add: uwrap_def)
      then show ?thesis using v True by (simp add: t_def)
    qed
    also have "\<dots> = t XOR 2 ^ 31" using xor_high_bit [of t 31] v True by (simp add: t_def)
    finally show ?thesis by (simp add: t_def xor.assoc)
  next
    case False
    then show ?thesis using v xor_high_bit [of v 31] by simp
  qed
qed

subsection \<open>INTERVAL YEAR TO MONTH\<close>

abbreviation conv_fmt :: "string \<Rightarrow> string \<Rightarrow> string \<Rightarrow> go_arg \<Rightarrow> go_error" where
  "conv_fmt t dir reason arg \<equiv>
     NewOracleError ConverterExpectedFormat None [ArgStr t, ArgStr dir, ArgStr reason, arg]"

abbreviation conv_range :: "string \<Rightarrow> string \<Rightarrow> string \<Rightarrow> int \<Rightarrow> int \<Rightarrow> go_error" where
  "conv_range t dir reason lo hi \<equiv>
     NewOracleError ConverterRange None [ArgStr t, ArgStr dir, ArgStr reason, ArgInt lo, ArgInt hi]"

abbreviation "ytm_err \<equiv> conv_fmt ''IntervalYearToMonth''"
abbreviation "ds_err \<equiv> conv_fmt ''IntervalDayToSecond''"

definition DecodeIntervalYearToMonth :: "byte list \<Rightarrow> string result" where
  "DecodeIntervalYearToMonth value =
     (if length value \<noteq> 5 then Inl (ytm_err ''Decode'' ''invalid-length'' (ArgInt 5))
      else
        let years = swrap 32 (be_val (take 4 value) XOR yearXorBias);
            monthsSigned = uint (value ! 4) - monthBias
        in if monthsSigned < - 11 \<or> monthsSigned > 11
           then Inl (conv_range ''IntervalYearToMonth'' ''Decode'' ''invalid-month-bias'' (monthBias - 11) (monthBias + 11))
           else
             let totalMonths = years * 12 + monthsSigned;
                 isNegative = (totalMonths < 0);
                 absMonths = (if isNegative then - totalMonths else totalMonths);
                 yearsAbs = go_div absMonths 12;
                 monthsAbs = go_mod absMonths 12
             in Inr ((if isNegative then ''-'' else []) @
                  (if yearsAbs < 100 then fmt_pad 2 (nat yearsAbs) else FormatUint (nat yearsAbs)) @
                  ''-'' @ fmt_pad 2 (nat monthsAbs)))"

text \<open>The sign of the text, and the text without it.\<close>

definition split_sign :: "string \<Rightarrow> bool \<times> string" where
  "split_sign s =
     (if s \<noteq> [] \<and> hd s = CHR ''+'' then (False, tl s)
      else if s \<noteq> [] \<and> hd s = CHR ''-'' then (True, tl s) else (False, s))"

definition EncodeIntervalYearToMonth :: "string \<Rightarrow> byte list result" where
  "EncodeIntervalYearToMonth canon =
     (if TrimSpace canon = [] then Inl (NewOracleError ConverterEmptyInput None [ArgStr ''IntervalYearToMonth'', ArgStr ''Encode''])
      else
        let (isNegative, unsigned) = split_sign (TrimSpace canon);
            sepIdx = IndexByte unsigned CHR ''-''
        in if sepIdx \<le> 0 \<or> sepIdx = int (length unsigned) - 1
           then Inl (ytm_err ''Encode'' ''invalid-format'' (ArgStr ''YY-MM''))
           else
             let yearsToken = take (nat sepIdx) unsigned;
                 monthsToken = drop (nat sepIdx + 1) unsigned;
                 digits = length (dropWhile (\<lambda>c. c = CHR ''0'') yearsToken);
                 yearsDigits = (if digits = 0 then 1 else digits)
             in if yearsDigits > 9 then Inl (ytm_err ''Encode'' ''precision-exceeded'' (ArgStr ''<=9 digits''))
                else case ParseInt yearsToken 32 of
                  Inl _ \<Rightarrow> Inl (ytm_err ''Encode'' ''parse-years'' (ArgStr ''number''))
                | Inr yearsPart \<Rightarrow>
                    if yearsPart < 0 then Inl (ytm_err ''Encode'' ''parse-years'' (ArgStr ''number''))
                    else case ParseInt monthsToken 32 of
                      Inl _ \<Rightarrow> Inl (ytm_err ''Encode'' ''parse-months'' (ArgStr ''number''))
                    | Inr monthsPart \<Rightarrow>
                        if monthsPart < 0 \<or> monthsPart > 11
                        then Inl (conv_range ''IntervalYearToMonth'' ''Encode'' ''month-out-of-range'' 0 11)
                        else
                          let y = (if isNegative then - yearsPart else yearsPart);
                              m = (if isNegative then - monthsPart else monthsPart)
                          in if y < - (2 ^ 31) \<or> y > 2 ^ 31 - 1
                             then Inl (ytm_err ''Encode'' ''years-overflow'' (ArgStr ''int32''))
                             else Inr (be_bytes 4 (uwrap 32 (swrap 32 y) XOR yearXorBias) @ [word_of_int (monthBias + m)]))"

subsection \<open>INTERVAL DAY TO SECOND\<close>

definition TrimRight0 :: "string \<Rightarrow> string" where
  "TrimRight0 s = TrimRightFunc (\<lambda>c. c = CHR ''0'') s"

definition DecodeIntervalDayToSecond :: "byte list \<Rightarrow> string result" where
  "DecodeIntervalDayToSecond value =
     (if length value \<noteq> 11 then Inl (ds_err ''Decode'' ''invalid-length'' (ArgInt 11))
      else
        let daysSigned = swrap 32 (be_val (take 4 value) XOR yearXorBias);
            hb = uint (value ! 4); mb = uint (value ! 5); sb = uint (value ! 6)
        in if hb < monthBias - 23 \<or> hb > monthBias + 23
           then Inl (conv_range ''IntervalDayToSecond'' ''Decode'' ''invalid-hour-bias'' (monthBias - 23) (monthBias + 23))
           else if mb < monthBias - 59 \<or> mb > monthBias + 59
           then Inl (conv_range ''IntervalDayToSecond'' ''Decode'' ''invalid-minute-bias'' (monthBias - 59) (monthBias + 59))
           else if sb < monthBias - 59 \<or> sb > monthBias + 59
           then Inl (conv_range ''IntervalDayToSecond'' ''Decode'' ''invalid-second-bias'' (monthBias - 59) (monthBias + 59))
           else
             let hoursSigned = hb - monthBias; minsSigned = mb - monthBias; secsSigned = sb - monthBias;
                 nsSigned = swrap 32 (be_val (take 4 (drop 7 value)) XOR yearXorBias);
                 nsAbs = (if nsSigned < 0 then - nsSigned else nsSigned)
             in if nsAbs > 999999999
                then Inl (conv_range ''IntervalDayToSecond'' ''Decode'' ''invalid-fraction'' 0 999999999)
                else
                  let neg = (daysSigned < 0 \<or> hoursSigned < 0 \<or> minsSigned < 0 \<or> secsSigned < 0 \<or> nsSigned < 0);
                      dd = (if daysSigned < 0 then swrap 32 (- daysSigned) else daysSigned);
                      daysStr = (if neg then FormatInt dd else if dd < 100 then fmt_pad 2 (nat dd) else FormatInt dd);
                      fracStr = (if nsAbs = 0 then ''0'' else TrimRight0 (fmt_pad 9 (nat nsAbs)))
                  in Inr ((if neg then ''-'' else []) @ daysStr @ '' '' @ fmt_pad 2 (nat \<bar>hoursSigned\<bar>) @ '':'' @
                       fmt_pad 2 (nat \<bar>minsSigned\<bar>) @ '':'' @ fmt_pad 2 (nat \<bar>secsSigned\<bar>) @ ''.'' @ fracStr))"

text \<open>The seconds token: whole seconds and fraction digits.\<close>

definition split_fraction :: "string \<Rightarrow> string \<times> string" where
  "split_fraction secToken =
     (let dot = IndexByte secToken CHR ''.''
      in if dot \<noteq> - 1 then (take (nat dot) secToken, drop (nat dot + 1) secToken) else (secToken, []))"

definition parse_fraction :: "string \<Rightarrow> int result" where
  "parse_fraction fracToken =
     (if fracToken = [] then Inr 0
      else if length fracToken > 9 then Inl (ds_err ''Encode'' ''precision-exceeded'' (ArgStr ''<=9 digits''))
      else case ParseInt (fracToken @ replicate (9 - length fracToken) CHR ''0'') 32 of
          Inl _ \<Rightarrow> Inl (ds_err ''Encode'' ''parse-fraction'' (ArgStr ''number''))
        | Inr fv \<Rightarrow> if fv < 0 then Inl (ds_err ''Encode'' ''parse-fraction'' (ArgStr ''number'')) else Inr fv)"

definition parse_part :: "string \<Rightarrow> string \<Rightarrow> int result" where
  "parse_part token reason =
     (case ParseInt token 64 of Inl _ \<Rightarrow> Inl (ds_err ''Encode'' reason (ArgStr ''number'')) | Inr v \<Rightarrow> Inr v)"

definition ds_wire :: "int \<Rightarrow> int \<Rightarrow> int \<Rightarrow> int \<Rightarrow> int \<Rightarrow> byte list" where
  "ds_wire day hh mm ss frac =
     be_bytes 4 (uwrap 32 (swrap 32 day) XOR yearXorBias) @
     [word_of_int (monthBias + hh), word_of_int (monthBias + mm), word_of_int (monthBias + ss)] @
     be_bytes 4 (uwrap 32 (swrap 32 frac) XOR yearXorBias)"

definition EncodeIntervalDayToSecond :: "string \<Rightarrow> byte list result" where
  "EncodeIntervalDayToSecond canon =
     (if TrimSpace canon = [] then Inl (NewOracleError ConverterEmptyInput None [ArgStr ''IntervalDayToSecond'', ArgStr ''Encode''])
      else
        let (isNegative, unsigned0) = split_sign (TrimSpace canon);
            signed = (hd (TrimSpace canon) = CHR ''+'' \<or> hd (TrimSpace canon) = CHR ''-'');
            unsigned = (if signed then TrimSpace unsigned0 else unsigned0);
            spaceIdx = IndexByte unsigned CHR '' ''
        in if spaceIdx \<le> 0 \<or> spaceIdx = int (length unsigned) - 1
           then Inl (ds_err ''Encode'' ''invalid-format'' (ArgStr ''DD HH:MM:SS[.FFFFFFFFF]''))
           else
             let dayToken = take (nat spaceIdx) unsigned;
                 timeToken = drop (nat spaceIdx + 1) unsigned;
                 tparts = SplitN timeToken CHR '':'' 3
             in andThen (parse_part dayToken ''parse-day'') (\<lambda>day.
                if day < 0 then Inl (ds_err ''Encode'' ''parse-day'' (ArgStr ''number''))
                else if length tparts \<noteq> 3 then Inl (ds_err ''Encode'' ''invalid-format'' (ArgStr ''HH:MM:SS[.FFFFFFFFF]''))
                else
                andThen (parse_part (tparts ! 0) ''parse-hour'') (\<lambda>hh.
                andThen (parse_part (tparts ! 1) ''parse-minute'') (\<lambda>mm.
                let (secWhole, fracToken) = split_fraction (tparts ! 2)
                in andThen (parse_part secWhole ''parse-second'') (\<lambda>ss.
                if hh < 0 \<or> hh \<ge> 24 then Inl (conv_range ''IntervalDayToSecond'' ''Encode'' ''hour-out-of-range'' 0 23)
                else if mm < 0 \<or> mm \<ge> 60 then Inl (conv_range ''IntervalDayToSecond'' ''Encode'' ''minute-out-of-range'' 0 59)
                else if ss < 0 \<or> ss \<ge> 60 then Inl (conv_range ''IntervalDayToSecond'' ''Encode'' ''second-out-of-range'' 0 59)
                else andThen (parse_fraction fracToken) (\<lambda>ns.
                  let sg = (\<lambda>v. if isNegative then - v else v)
                  in if sg day < - (2 ^ 31) \<or> sg day > 2 ^ 31 - 1
                     then Inl (ds_err ''Encode'' ''days-overflow'' (ArgStr ''int32''))
                     else Inr (ds_wire (sg day) (sg hh) (sg mm) (sg ss) (sg ns))))))))"


subsection \<open>Round trips\<close>

definition ytm_text :: "bool \<Rightarrow> nat \<Rightarrow> nat \<Rightarrow> string" where
  "ytm_text neg y m =
     (if neg then ''-'' else []) @ (if y < 100 then fmt_pad 2 y else FormatUint y) @ ''-'' @ fmt_pad 2 m"

lemma length_FormatUint_ge: "100 \<le> n \<Longrightarrow> 2 \<le> length (FormatUint n)"
proof (rule ccontr)
  assume "100 \<le> n" "\<not> 2 \<le> length (FormatUint n)"
  then have "dec_val (digits10 n) < 10 ^ length (digits10 n)" "length (digits10 n) \<le> 1"
    by (simp_all only: dec_val_less digits_ok_digits10) (simp add: FormatUint_def)
  moreover from this have "(10 :: nat) ^ length (digits10 n) \<le> 10 ^ 1" by (intro power_increasing) simp_all
  ultimately show False using \<open>100 \<le> n\<close> by simp
qed

lemma years_text: "(if y < 100 then fmt_pad 2 y else FormatUint y) = fmt_pad 2 y"
  using length_FormatUint_ge [of y] by (simp add: fmt_pad_def)

lemma length_fmt_pad_le: "n < 10 ^ j \<Longrightarrow> 0 < j \<Longrightarrow> k \<le> j \<Longrightarrow> length (fmt_pad k n) \<le> j"
  using length_digits10_le [of n j] by (simp add: fmt_pad_digits)

lemma hd_last_digits:
  "list_all is_digit s \<Longrightarrow> s \<noteq> [] \<Longrightarrow> is_digit (hd s)" "list_all is_digit s \<Longrightarrow> s \<noteq> [] \<Longrightarrow> is_digit (last s)"
  by (auto simp: list_all_iff)

lemma split_sign_text:
  assumes "list_all is_digit ds" "ds \<noteq> []"
  shows "split_sign ((if neg then ''-'' else []) @ ds @ rest) = (neg, ds @ rest)"
  using hd_last_digits(1) [OF assms] assms(2) by (auto simp: split_sign_def hd_append)

lemma minus_no_space: "\<not> is_space CHR ''-''"
  by (simp add: is_space_def)

lemma biased_byte: "- 60 \<le> v \<Longrightarrow> v < 196 \<Longrightarrow> uint (word_of_int (60 + v) :: byte) = 60 + v"
  by (simp only: uint_word_of_int_byte) simp

lemma TrimSpace_text:
  assumes "list_all is_digit ds" "ds \<noteq> []" "list_all is_digit es" "es \<noteq> []"
  shows "TrimSpace ((if neg then ''-'' else []) @ ds @ rest @ es) = (if neg then ''-'' else []) @ ds @ rest @ es"
proof (rule TrimSpace_id)
  show "(if neg then ''-'' else []) @ ds @ rest @ es \<noteq> []" using assms by simp
  show "\<not> is_space (hd ((if neg then ''-'' else []) @ ds @ rest @ es))"
    using hd_last_digits(1) [OF assms(1,2)] assms(2) minus_no_space by (auto simp: hd_append)
  show "\<not> is_space (last ((if neg then ''-'' else []) @ ds @ rest @ es))"
    using hd_last_digits(2) [OF assms(3,4)] assms(4) by simp
qed

lemma EncodeIntervalYearToMonth_text:
  assumes "y < 10 ^ 9" "m < 12"
  shows "EncodeIntervalYearToMonth (ytm_text neg y m) =
    Inr (be_bytes 4 ((if neg then - int y else int y) + 2 ^ 31) @ [word_of_int (60 + (if neg then - int m else int m))])"
proof -
  let ?y = "fmt_pad 2 y" and ?m = "fmt_pad 2 m"
  have t: "ytm_text neg y m = (if neg then ''-'' else []) @ ?y @ ''-'' @ ?m"
    by (simp only: ytm_text_def years_text)
  have trim: "TrimSpace (ytm_text neg y m) = ytm_text neg y m"
    unfolding t by (rule TrimSpace_text) simp_all
  have sp: "split_sign (ytm_text neg y m) = (neg, ?y @ CHR ''-'' # ?m)"
    unfolding t using split_sign_text [of ?y neg "''-'' @ ?m"] by simp
  have ix: "IndexByte (?y @ CHR ''-'' # ?m) CHR ''-'' = int (length ?y)"
    using digit_sep_notin(1) [OF list_all_fmt_pad] by simp
  have len: "length (dropWhile (\<lambda>c. c = CHR ''0'') ?y) \<le> 9"
    using length_fmt_pad_le [of y 9 2] assms(1) length_dropWhile_le [of "\<lambda>c. c = CHR ''0''" ?y] by simp
  have py: "ParseInt ?y 32 = Inr (int y)" and pm: "ParseInt ?m 32 = Inr (int m)" using assms by simp_all
  have w: "uwrap 32 (swrap 32 v) XOR yearXorBias = v + 2 ^ 31" if "- (2 ^ 31) \<le> v" "v < 2 ^ 31" for v
    using that bias32 [of v] by (simp add: swrap_id)
  have ne: "ytm_text neg y m \<noteq> []" by (simp add: t)
  show ?thesis
    using assms len ne w [of "int y"] w [of "- int y"]
    by (simp add: EncodeIntervalYearToMonth_def trim sp ix py pm Let_def)
qed

text \<open>C18: Every INTERVAL YEAR TO MONTH of up to nine year digits is encoded from its canonical text to five
  bytes that decode to the same text; negative intervals keep the sign of both components.\<close>

theorem IntervalYearToMonth_roundtrip:
  assumes "y < 10 ^ 9" "m < 12" "neg \<Longrightarrow> 0 < 12 * y + m"
  shows "\<exists>w. EncodeIntervalYearToMonth (ytm_text neg y m) = Inr w \<and> DecodeIntervalYearToMonth w = Inr (ytm_text neg y m)"
proof -
  define Y where "Y = (if neg then - int y else int y)"
  define M where "M = (if neg then - int m else int m)"
  define w where "w = be_bytes 4 (Y + 2 ^ 31) @ [word_of_int (60 + M) :: byte]"
  have Y: "- (2 ^ 31) \<le> Y" "Y < 2 ^ 31" using assms(1) by (auto simp: Y_def)
  have M: "- 11 \<le> M" "M \<le> 11" using assms(2) by (auto simp: M_def)
  have "be_val (take 4 w) = Y + 2 ^ 31" using Y by (simp add: w_def)
  then have yr: "swrap 32 (be_val (take 4 w) XOR yearXorBias) = Y" using unbias32 [of "Y + 2 ^ 31"] Y by simp
  have mo: "uint (w ! 4) = 60 + M" "length w = 5"
    using M biased_byte [of M] by (simp_all add: w_def nth_append del: of_int_add)
  have tm: "(Y * 12 + M < 0) = neg" "(if neg then - (Y * 12 + M) else Y * 12 + M) = 12 * int y + int m"
    using assms(3) by (auto simp: Y_def M_def)
  have dm: "go_div (12 * int y + int m) 12 = int y" "go_mod (12 * int y + int m) 12 = int m"
    using assms(2) by simp_all
  have "DecodeIntervalYearToMonth w = Inr (ytm_text neg y m)"
    using M by (simp add: DecodeIntervalYearToMonth_def yr mo Let_def tm dm ytm_text_def del: go_div_nonneg go_mod_nonneg)
  then show ?thesis
    using EncodeIntervalYearToMonth_text [OF assms(1,2), of neg] by (simp add: w_def Y_def M_def)
qed

theorem IntervalYearToMonth_roundtrip_witness:
  "\<exists>w. EncodeIntervalYearToMonth (ytm_text True 0 5) = Inr w \<and> DecodeIntervalYearToMonth w = Inr ''-00-05''"
proof -
  have "ytm_text True 0 5 = ''-00-05''" by code_simp
  then show ?thesis using IntervalYearToMonth_roundtrip [of 0 5 True] by simp
qed


subsection \<open>Days to seconds\<close>

definition frac_text :: "nat \<Rightarrow> string" where
  "frac_text ns = (if ns = 0 then ''0'' else TrimRight0 (fmt_pad 9 ns))"

definition ds_text :: "bool \<Rightarrow> nat \<Rightarrow> nat \<Rightarrow> nat \<Rightarrow> nat \<Rightarrow> nat \<Rightarrow> string" where
  "ds_text neg d h m s ns =
     (if neg then ''-'' else []) @ (if neg then FormatUint d else fmt_pad 2 d) @ '' '' @ fmt_pad 2 h @ '':'' @
     fmt_pad 2 m @ '':'' @ fmt_pad 2 s @ ''.'' @ frac_text ns"

lemma TrimRight0_pad: "TrimRight0 x @ replicate (length x - length (TrimRight0 x)) CHR ''0'' = x"
proof -
  let ?p = "\<lambda>c. c = CHR ''0''"
  have "takeWhile ?p (rev x) = replicate (length (takeWhile ?p (rev x))) CHR ''0''"
    by (rule replicate_eqI) (auto dest: set_takeWhileD)
  moreover have "length (takeWhile ?p (rev x)) = length x - length (dropWhile ?p (rev x))"
    by (metis add_diff_cancel_right' length_append length_rev takeWhile_dropWhile_id)
  moreover have "rev (dropWhile ?p (rev x)) @ rev (takeWhile ?p (rev x)) = x"
    by (metis rev_append rev_rev_ident takeWhile_dropWhile_id)
  ultimately show ?thesis by (simp add: TrimRight0_def TrimRightFunc_def)
qed

lemma TrimRight0_fmt_pad:
  assumes "ns < 10 ^ 9" "0 < ns" shows "TrimRight0 (fmt_pad 9 ns) \<noteq> []"
proof
  let ?x = "fmt_pad 9 ns"
  assume "TrimRight0 ?x = []"
  then have "?x = replicate 9 CHR ''0''" using TrimRight0_pad [of ?x] assms(1) by (simp add: length_fmt_pad)
  then have "ParseInt (replicate 9 CHR ''0'') 32 = Inr (int ns)"
    using ParseInt_fmt_pad [of ns 32 9] assms(1) by simp
  moreover have "ParseInt (replicate 9 CHR ''0'') 32 = Inr 0" by code_simp
  ultimately show False using assms(2) by simp
qed

lemma frac_text_digits:
  assumes "ns < 10 ^ 9" shows "list_all is_digit (frac_text ns)" "frac_text ns \<noteq> []"
proof -
  have "set (TrimRight0 x) \<subseteq> set x" for x by (auto simp: TrimRight0_def TrimRightFunc_def dest: set_dropWhileD)
  then have "list_all is_digit (TrimRight0 (fmt_pad 9 ns))" using list_all_fmt_pad by (fastforce simp: list_all_iff)
  moreover have "is_digit CHR ''0''" by code_simp
  ultimately show "list_all is_digit (frac_text ns)" by (simp add: frac_text_def)
  show "frac_text ns \<noteq> []" using TrimRight0_fmt_pad [OF assms] by (simp add: frac_text_def)
qed

lemma parse_fraction_text:
  assumes "ns < 10 ^ 9" shows "parse_fraction (frac_text ns) = Inr (int ns)"
proof (cases "ns = 0")
  case False
  let ?x = "fmt_pad 9 ns"
  have len: "length ?x = 9" using assms by (simp add: length_fmt_pad)
  have "length (TrimRight0 ?x) \<le> 9"
    using len arg_cong [OF TrimRight0_pad [of ?x], of length] by simp
  then show ?thesis
    using False ParseInt_fmt_pad [of ns 32 9] TrimRight0_pad [of ?x] TrimRight0_fmt_pad [OF assms] len assms
    by (simp add: parse_fraction_def frac_text_def)
next
  case True
  have "parse_fraction ''0'' = Inr 0" by code_simp
  then show ?thesis using True by (simp add: frac_text_def)
qed

definition days_text :: "bool \<Rightarrow> nat \<Rightarrow> string" where
  "days_text neg d = (if neg then FormatUint d else fmt_pad 2 d)"

lemma days_text_facts:
  "list_all is_digit (days_text neg d)" "days_text neg d \<noteq> []"
  "int d < 2 ^ 63 \<Longrightarrow> ParseInt (days_text neg d) 64 = Inr (int d)"
  by (simp_all add: days_text_def)

lemma EncodeIntervalDayToSecond_text:
  assumes "d < 2 ^ 31" "h < 24" "m < 60" "s < 60" "ns < 10 ^ 9"
  shows "EncodeIntervalDayToSecond (ds_text neg d h m s ns) =
    Inr (let sg = (\<lambda>v. if neg then - int v else int v) in ds_wire (sg d) (sg h) (sg m) (sg s) (sg ns))"
proof -
  let ?d = "days_text neg d" and ?h = "fmt_pad 2 h" and ?m = "fmt_pad 2 m" and ?s = "fmt_pad 2 s" and ?f = "frac_text ns"
  let ?time = "?h @ CHR '':'' # ?m @ CHR '':'' # ?s @ CHR ''.'' # ?f"
  have t: "ds_text neg d h m s ns = (if neg then ''-'' else []) @ ?d @ ('' '' @ ?h @ '':'' @ ?m @ '':'' @ ?s @ ''.'') @ ?f"
    by (simp add: ds_text_def days_text_def)
  have trim: "TrimSpace (ds_text neg d h m s ns) = ds_text neg d h m s ns"
    unfolding t by (rule TrimSpace_text) (simp_all add: days_text_facts frac_text_digits [OF assms(5)])
  have sp: "split_sign (ds_text neg d h m s ns) = (neg, ?d @ CHR '' '' # ?time)"
    unfolding t using split_sign_text [OF days_text_facts(1,2)] by simp
  have trim2: "TrimSpace (?d @ CHR '' '' # ?time) = ?d @ CHR '' '' # ?time"
    using TrimSpace_text [OF days_text_facts(1,2) frac_text_digits [OF assms(5)], of False neg d "'' '' @ ?h @ '':'' @ ?m @ '':'' @ ?s @ ''.''"]
    by simp
  have ix: "IndexByte (?d @ CHR '' '' # ?time) CHR '' '' = int (length ?d)"
    using digit_sep_notin(4) [OF days_text_facts(1)] by simp
  have colon: "CHR '':'' \<notin> set ?h" "CHR '':'' \<notin> set ?m" "CHR ''.'' \<notin> set ?s"
    using digit_sep_notin list_all_fmt_pad by blast+
  have parts: "SplitN ?time CHR '':'' 3 = [?h, ?m, ?s @ CHR ''.'' # ?f]"
    using colon by (simp add: numeral_3_eq_3)
  have fr: "split_fraction (?s @ CHR ''.'' # ?f) = (?s, ?f)"
    using colon(3) by (simp add: split_fraction_def Let_def)
  have ps: "parse_part ?d r = Inr (int d)" "parse_part ?h r = Inr (int h)" "parse_part ?m r = Inr (int m)"
    "parse_part ?s r = Inr (int s)" for r
    using assms days_text_facts(3) [of d neg] by (simp_all add: parse_part_def)
  have ne: "ds_text neg d h m s ns \<noteq> []" by (simp add: t days_text_facts(2))
  have hd: "(if hd (ds_text neg d h m s ns) = CHR ''+'' \<or> hd (ds_text neg d h m s ns) = CHR ''-''
      then TrimSpace (?d @ CHR '' '' # ?time) else ?d @ CHR '' '' # ?time) = ?d @ CHR '' '' # ?time"
    by (simp only: trim2 if_cancel)
  show ?thesis
    using assms ne days_text_facts(2) [of neg d] parse_fraction_text [OF assms(5)]
    by (simp add: EncodeIntervalDayToSecond_def trim sp hd ix Let_def parts fr ps)
qed


lemma ds_wire_fields:
  assumes "- (2 ^ 31) \<le> dd" "dd < 2 ^ 31" "\<bar>hh\<bar> < 60" "\<bar>mm\<bar> < 60" "\<bar>ss\<bar> < 60" "\<bar>ff\<bar> < 2 ^ 31"
  shows "length (ds_wire dd hh mm ss ff) = 11" "swrap 32 (be_val (take 4 (ds_wire dd hh mm ss ff)) XOR yearXorBias) = dd"
    "uint (ds_wire dd hh mm ss ff ! 4) = 60 + hh" "uint (ds_wire dd hh mm ss ff ! 5) = 60 + mm"
    "uint (ds_wire dd hh mm ss ff ! 6) = 60 + ss"
    "swrap 32 (be_val (take 4 (drop 7 (ds_wire dd hh mm ss ff))) XOR yearXorBias) = ff"
proof -
  have w: "uwrap 32 (swrap 32 v) XOR yearXorBias = v + 2 ^ 31" if "- (2 ^ 31) \<le> v" "v < 2 ^ 31" for v
    using that bias32 [of v] by (simp add: swrap_id)
  have u: "swrap 32 ((v + 2 ^ 31) XOR yearXorBias) = v" if "- (2 ^ 31) \<le> v" "v < 2 ^ 31" for v
    using that unbias32 [of "v + 2 ^ 31"] by simp
  let ?w = "be_bytes 4 (dd + 2 ^ 31) @ [word_of_int (60 + hh), word_of_int (60 + mm), word_of_int (60 + ss)] @ be_bytes 4 (ff + 2 ^ 31)"
  have e: "ds_wire dd hh mm ss ff = ?w"
    using assms by (simp only: ds_wire_def w [of dd] w [of ff])
  have b: "uint (word_of_int (60 + v) :: byte) = 60 + v" if "\<bar>v\<bar> < 60" for v using biased_byte [of v] that by simp
  show "length (ds_wire dd hh mm ss ff) = 11" by (simp add: e)
  have "be_val (take 4 ?w) = dd + 2 ^ 31" using assms(1,2) by simp
  then show "swrap 32 (be_val (take 4 (ds_wire dd hh mm ss ff)) XOR yearXorBias) = dd"
    unfolding e using u [of dd] assms(1,2) by simp
  have "be_val (take 4 (drop 7 ?w)) = ff + 2 ^ 31" using assms(6) by simp
  then show "swrap 32 (be_val (take 4 (drop 7 (ds_wire dd hh mm ss ff))) XOR yearXorBias) = ff"
    unfolding e using u [of ff] assms(6) by simp
  show "uint (ds_wire dd hh mm ss ff ! 4) = 60 + hh" "uint (ds_wire dd hh mm ss ff ! 5) = 60 + mm"
    "uint (ds_wire dd hh mm ss ff ! 6) = 60 + ss"
    unfolding e using b [of hh] b [of mm] b [of ss] assms(3-5) by (simp_all add: nth_append del: of_int_add)
qed



text \<open>The smallest day count of the wire format is negated in 32 bits, where it has no positive
  counterpart: the text gets two minus signs and cannot be encoded again.\<close>

theorem DecodeIntervalDayToSecond_min_days:
  "DecodeIntervalDayToSecond (ds_wire (- (2 ^ 31)) 0 0 0 0) = Inr ''--2147483648 00:00:00.0'' \<and>
   \<not> is_ok (EncodeIntervalDayToSecond ''--2147483648 00:00:00.0'')"
proof
  have f: "FormatUint 2147483648 = ''2147483648''" 
  proof -
    have "digits10 2147483648 = [2, 1, 4, 7, 4, 8, 3, 6, 4, 8]" by (simp add: digits10.simps)
    moreover have "map digit_char [2, 1, 4, 7, 4, 8, 3, 6, 4, 8] = ''2147483648''" by code_simp
    ultimately show ?thesis by (simp add: FormatUint_def)
  qed
  have z: "fmt_pad 2 0 = ''00''" by code_simp
  show "DecodeIntervalDayToSecond (ds_wire (- (2 ^ 31)) 0 0 0 0) = Inr ''--2147483648 00:00:00.0''"
    using ds_wire_fields [of "- (2 ^ 31)" 0 0 0 0] f z
    by (simp add: DecodeIntervalDayToSecond_def Let_def swrap_def FormatInt_def)
  let ?t = "''--2147483648 00:00:00.0''"
  have "TrimSpace ?t = ?t" "split_sign ?t = (True, tl ?t)" "TrimSpace (tl ?t) = tl ?t" "IndexByte (tl ?t) CHR '' '' = 11"
    by code_simp+
  moreover have "ParseInt ''-2147483648'' 64 = Inr (- 2147483648)"
    by (simp add: ParseInt_def Let_def is_digit_def char_digit_def dec_val_def)
  ultimately show "\<not> is_ok (EncodeIntervalDayToSecond ?t)"
    by (simp add: EncodeIntervalDayToSecond_def Let_def parse_part_def)
qed

end
