(* ===== verification/Data_Buffer.thy ===== *)
theory Data_Buffer
  imports Go_Base
begin

text \<open>
  The interface between the TTC layer and the network session, Go's \<open>DataBuffer\<close>
  (\<open>internal/driver/common/interfaces.go\<close>): a record of operations over the buffer's state.
  The locale \<open>data_buffer\<close> states what the TTC layer relies on: while the buffer is in a good
  state, writes append to the bytes on their way to the server and reads take the next bytes
  that came from it. The network session is shown to provide it in \<open>NS_Channel\<close>. The context
  argument of every operation only carries deadlines and is left out.
\<close>

record 's DataBuffer =
  WriteByteWithContext :: "byte \<Rightarrow> ('s, unit) op"
  WriteBytesWithContext :: "byte list \<Rightarrow> ('s, unit) op"
  ReadByteWithContext :: "('s, byte) op"
  ReadBytesWithContext :: "int \<Rightarrow> ('s, byte list) op"
  FlushBuffer :: "('s, unit) op"

text \<open>A buffer over two byte lists, what is left to read and what was written; the witnesses
  evaluate on it.\<close>

definition list_buffer :: "(byte list \<times> byte list) DataBuffer" where
  "list_buffer =
     \<lparr>WriteByteWithContext = \<lambda>b (i, out). (Inr (), (i, out @ [b])),
      WriteBytesWithContext = \<lambda>bs (i, out). (Inr (), (i, out @ bs)),
      ReadByteWithContext = \<lambda>(i, out). (case i of [] \<Rightarrow> (Inl io_EOF, (i, out)) | b # i' \<Rightarrow> (Inr b, (i', out))),
      ReadBytesWithContext = \<lambda>n (i, out).
        (if int (length i) < n then (Inl io_EOF, (i, out)) else (Inr (take (nat n) i), (drop (nat n) i, out))),
      FlushBuffer = retE ()\<rparr>"

locale data_buffer =
  fixes D :: "'s DataBuffer"
    and inq outq :: "'s \<Rightarrow> byte list"
    and good :: "'s \<Rightarrow> bool"
  assumes write_byte: "good s \<Longrightarrow> \<exists>s'. WriteByteWithContext D b s = (Inr (), s') \<and>
      good s' \<and> outq s' = outq s @ [b] \<and> inq s' = inq s"
    and write_bytes: "good s \<Longrightarrow> \<exists>s'. WriteBytesWithContext D bs s = (Inr (), s') \<and>
      good s' \<and> outq s' = outq s @ bs \<and> inq s' = inq s"
    and read_byte: "good s \<Longrightarrow> inq s = b # q \<Longrightarrow> \<exists>s'. ReadByteWithContext D s = (Inr b, s') \<and>
      good s' \<and> inq s' = q \<and> outq s' = outq s"
    and read_bytes: "good s \<Longrightarrow> inq s = bs @ q \<Longrightarrow> 0 < length bs \<Longrightarrow> length bs < 2 ^ 31 \<Longrightarrow>
      \<exists>s'. ReadBytesWithContext D (int (length bs)) s = (Inr bs, s') \<and>
        good s' \<and> inq s' = q \<and> outq s' = outq s"
begin

text \<open>An operation that appends exactly \<open>bs\<close>, and one that reads exactly \<open>bs\<close> and returns \<open>v\<close>.\<close>

definition writes :: "('s, unit) op \<Rightarrow> byte list \<Rightarrow> bool" where
  "writes f bs = (\<forall>s. good s \<longrightarrow> (\<exists>s'. f s = (Inr (), s') \<and> good s' \<and> outq s' = outq s @ bs \<and> inq s' = inq s))"

definition reads :: "('s, 'a) op \<Rightarrow> byte list \<Rightarrow> 'a \<Rightarrow> bool" where
  "reads f bs v = (\<forall>s q. good s \<longrightarrow> inq s = bs @ q \<longrightarrow>
     (\<exists>s'. f s = (Inr v, s') \<and> good s' \<and> inq s' = q \<and> outq s' = outq s))"

lemma writes_byte: "writes (WriteByteWithContext D b) [b]"
  using write_byte by (simp add: writes_def)

lemma writes_bytes: "writes (WriteBytesWithContext D bs) bs"
  using write_bytes by (simp add: writes_def)

lemma reads_byte: "reads (ReadByteWithContext D) [b] b"
  using read_byte by (simp add: reads_def)

lemma reads_bytes: "0 < length bs \<Longrightarrow> length bs < 2 ^ 31 \<Longrightarrow> reads (ReadBytesWithContext D (int (length bs))) bs bs"
  using read_bytes by (simp add: reads_def)

lemma writes_retE: "writes (retE ()) []"
  by (simp add: writes_def)

lemma reads_retE: "reads (retE v) [] v"
  by (simp add: reads_def)

lemma writes_mapErr: "writes f bs \<Longrightarrow> writes (mapErr h f) bs"
  by (fastforce simp: writes_def)

lemma reads_mapErr: "reads f bs v \<Longrightarrow> reads (mapErr h f) bs v"
  by (fastforce simp: reads_def)

lemma writesD: "writes f bs \<Longrightarrow> good s \<Longrightarrow> \<exists>s'. f s = (Inr (), s') \<and> good s' \<and> outq s' = outq s @ bs \<and> inq s' = inq s"
  by (simp add: writes_def)

lemma readsD: "reads f bs v \<Longrightarrow> good s \<Longrightarrow> inq s = bs @ q \<Longrightarrow>
    \<exists>s'. f s = (Inr v, s') \<and> good s' \<and> inq s' = q \<and> outq s' = outq s"
  by (simp add: reads_def)

lemma writes_bindE:
  assumes "writes f as" "writes (k ()) bs"
  shows "writes (bindE f k) (as @ bs)"
  unfolding writes_def
proof (intro allI impI)
  fix s assume "good s"
  from writesD [OF assms(1) this] obtain s1
    where "f s = (Inr (), s1)" "good s1" "outq s1 = outq s @ as" "inq s1 = inq s" by auto
  moreover from writesD [OF assms(2) this(2)] obtain s2
    where "k () s1 = (Inr (), s2)" "good s2" "outq s2 = outq s1 @ bs" "inq s2 = inq s1" by auto
  ultimately show "\<exists>s'. bindE f k s = (Inr (), s') \<and> good s' \<and> outq s' = outq s @ as @ bs \<and> inq s' = inq s"
    by simp
qed

lemma reads_bindE:
  assumes "reads f as v" "reads (k v) bs w"
  shows "reads (bindE f k) (as @ bs) w"
  unfolding reads_def
proof (intro allI impI)
  fix s q assume s: "good s" "inq s = (as @ bs) @ q"
  then have "inq s = as @ bs @ q" by simp
  from readsD [OF assms(1) s(1) this] obtain s1
    where "f s = (Inr v, s1)" "good s1" "inq s1 = bs @ q" "outq s1 = outq s" by auto
  moreover from readsD [OF assms(2) this(2,3)] obtain s2
    where "k v s1 = (Inr w, s2)" "good s2" "inq s2 = q" "outq s2 = outq s1" by auto
  ultimately show "\<exists>s'. bindE f k s = (Inr w, s') \<and> good s' \<and> inq s' = q \<and> outq s' = outq s"
    by simp
qed

end

end
