(* ===== verification/Marshal_Engine.thy ===== *)
theory Marshal_Engine
  imports Data_Buffer
begin

text \<open>
  The TTC marshal engine (\<open>internal/driver/ttc/marshal_engine.go\<close>): the encodings of the
  protocol's integers, pointers, byte arrays and CLR strings over a \<open>DataBuffer\<close>. Numeric
  wrapper types (\<open>UB1\<close> to \<open>SB4\<close>) are \<open>int\<close> values within the type's range; a conversion
  between them is \<open>uwrap\<close> or \<open>swrap\<close>. The generic functions of the source take the type's
  conversions as arguments, as the source's callbacks do. Logging is left out.
\<close>

subsection \<open>Types and constants\<close>

record numericTypeRepresentation =
  typeName :: string
  typeRep :: byte
  isUnsigned :: bool
  nbBytes :: nat
  minValue :: int
  maxValue :: int

datatype ByteOrder = BIG_ENDIAN | LITTLE_ENDIAN

record 's MarshalEngine =
  PTRTypeRep :: byte
  numericTypeRep :: "numericTypeRepresentation list"
  dataBuffer :: "'s DataBuffer"
  byteOrder :: ByteOrder
  sequenceNumber :: int
  defaultLobPrefetchSize :: int

definition Native :: byte where [simp]: "Native = 0"
definition Universal :: byte where [simp]: "Universal = 1"
definition maximumShortValueLength :: byte where [simp]: "maximumShortValueLength = 0xFC"
definition espapeValue :: byte where [simp]: "espapeValue = 0xFD"
definition longLengthIndicator :: byte where [simp]: "longLengthIndicator = 0xFE"
definition nullLengthIndicator :: byte where [simp]: "nullLengthIndicator = 0xFF"
definition checkSize :: nat where [simp]: "checkSize = 32767"
definition maximumLongCLRChunkLength :: int where [simp]: "maximumLongCLRChunkLength = 65534"
definition maximumLongCLRAggregateLength :: int where [simp]: "maximumLongCLRAggregateLength = 67108864"
definition negativeValueIndicator :: byte where [simp]: "negativeValueIndicator = 0x80"

definition nullPTR :: "byte list" where "nullPTR = [0, 0, 0, 0]"
definition notNullPTR :: "byte list" where "notNullPTR = [0x7F, 0x7F, 0x7F, 0x7F]"

definition UB1Index :: nat where [simp]: "UB1Index = 0"
definition UB2Index :: nat where [simp]: "UB2Index = 1"
definition UB4Index :: nat where [simp]: "UB4Index = 2"
definition UB8Index :: nat where [simp]: "UB8Index = 3"
definition SB1Index :: nat where [simp]: "SB1Index = 4"
definition SB2Index :: nat where [simp]: "SB2Index = 5"
definition SB4Index :: nat where [simp]: "SB4Index = 6"

definition defaultNumericTypeRep :: "numericTypeRepresentation list" where
  "defaultNumericTypeRep =
    [\<lparr>typeName = ''UB1'', typeRep = Native, isUnsigned = True, nbBytes = 1, minValue = 0, maxValue = 2 ^ 8 - 1\<rparr>,
     \<lparr>typeName = ''UB2'', typeRep = Native, isUnsigned = True, nbBytes = 2, minValue = 0, maxValue = 2 ^ 16 - 1\<rparr>,
     \<lparr>typeName = ''UB4'', typeRep = Native, isUnsigned = True, nbBytes = 4, minValue = 0, maxValue = 2 ^ 32 - 1\<rparr>,
     \<lparr>typeName = ''UB8'', typeRep = Native, isUnsigned = True, nbBytes = 8, minValue = 0, maxValue = 2 ^ 64 - 1\<rparr>,
     \<lparr>typeName = ''SB1'', typeRep = Native, isUnsigned = False, nbBytes = 1, minValue = - (2 ^ 7), maxValue = 2 ^ 7 - 1\<rparr>,
     \<lparr>typeName = ''SB2'', typeRep = Native, isUnsigned = False, nbBytes = 2, minValue = - (2 ^ 15), maxValue = 2 ^ 15 - 1\<rparr>,
     \<lparr>typeName = ''SB4'', typeRep = Native, isUnsigned = False, nbBytes = 4, minValue = - (2 ^ 31), maxValue = 2 ^ 31 - 1\<rparr>]"

text \<open>The per-type representations of the five entries of the server's table: \<open>B1\<close>, \<open>B2\<close>,
  \<open>B4\<close>, \<open>B8\<close>, \<open>PTR\<close>.\<close>

definition NewNativeMarshalEngine :: "'s DataBuffer \<Rightarrow> ByteOrder \<Rightarrow> 's MarshalEngine" where
  "NewNativeMarshalEngine buf order =
     \<lparr>PTRTypeRep = Native, numericTypeRep = defaultNumericTypeRep, dataBuffer = buf,
      byteOrder = order, sequenceNumber = 1, defaultLobPrefetchSize = 0\<rparr>"

definition NewMarshalEngine :: "'s DataBuffer \<Rightarrow> ByteOrder \<Rightarrow> byte list \<Rightarrow> 's MarshalEngine" where
  "NewMarshalEngine buf order types =
     \<lparr>PTRTypeRep = types ! 4,
      numericTypeRep =
        map2 (\<lambda>rep t. rep\<lparr>typeRep := t\<rparr>) defaultNumericTypeRep
          [types ! 0, types ! 1, types ! 2, types ! 3, types ! 0, types ! 1, types ! 2],
      dataBuffer = buf, byteOrder = order, sequenceNumber = 1, defaultLobPrefetchSize = 0\<rparr>"

definition setDefaultLobPrefetchSize :: "'s MarshalEngine \<Rightarrow> int \<Rightarrow> 's MarshalEngine" where
  "setDefaultLobPrefetchSize m prefetchSize = m\<lparr>defaultLobPrefetchSize := prefetchSize\<rparr>"

subsection \<open>Errors and the universal encoding\<close>

definition wrapErr :: "string \<Rightarrow> go_error \<Rightarrow> go_error" where
  "wrapErr dataType err = NewOracleError MarshalEngineError (Some err) [ArgStr dataType]"

definition wrapError :: "string \<Rightarrow> ('s, 'a) op \<Rightarrow> ('s, 'a) op" where
  "wrapError dataType f = mapErr (wrapErr dataType) f"

abbreviation marshal_err :: "string \<Rightarrow> go_error" where
  "marshal_err name \<equiv> NewOracleError MarshalEngineError None [ArgStr name]"

definition getAbsoluteValue :: "int \<Rightarrow> int \<times> bool" where
  "getAbsoluteValue value =
     (if value < 0 then (uwrap 64 (- value), True) else (uwrap 64 value, False))"

definition encodeAbsoluteUniversalValue :: "int \<Rightarrow> bool \<Rightarrow> byte list" where
  "encodeAbsoluteUniversalValue absoluteValue isNegative =
     (let bigEndianValue = be_bytes 8 absoluteValue;
          significant = dropWhile (\<lambda>b. b = 0) bigEndianValue;
          size = (word_of_nat (length significant) :: byte)
      in (if isNegative then size OR negativeValueIndicator else size) # significant)"

definition writeUniversal :: "int \<Rightarrow> bool \<Rightarrow> 's DataBuffer \<Rightarrow> ('s, unit) op" where
  "writeUniversal absoluteValue isNegative buf =
     (if absoluteValue = 0 then WriteBytesWithContext buf [0]
      else WriteBytesWithContext buf (encodeAbsoluteUniversalValue absoluteValue isNegative))"

definition validateUniversalByteCount :: "byte \<Rightarrow> nat \<Rightarrow> string \<Rightarrow> unit result" where
  "validateUniversalByteCount numberOfBytes maxBytes name =
     (if numberOfBytes = 0 then Inl (marshal_err name)
      else if unat numberOfBytes > maxBytes then Inl (marshal_err name)
      else Inr ())"

text \<open>From the bytes read to the value: \<open>toT\<close> is the conversion to the target type,
  \<open>bigEndianFunc\<close> and \<open>toNegative\<close> are the callbacks of the source. \<open>copy\<close> writes the bytes at
  the end of a zeroed array.\<close>

definition convertUniversal ::
  "numericTypeRepresentation \<Rightarrow> (int \<Rightarrow> int) \<Rightarrow> (byte list \<Rightarrow> int) \<Rightarrow> (int \<Rightarrow> int) \<Rightarrow> nat \<Rightarrow> bool \<Rightarrow>
   byte list \<Rightarrow> int result" where
  "convertUniversal rep toT bigEndianFunc toNegative numberOfBytes negativeUNV bytes =
     (let bytesValues = put_bytes (nbBytes rep - numberOfBytes) bytes (replicate (nbBytes rep) 0);
          calculatedValue = bigEndianFunc bytesValues;
          finalValue = (if negativeUNV then toNegative calculatedValue else toT calculatedValue)
      in if calculatedValue < 0 then Inl (marshal_err (typeName rep))
         else if (negativeUNV \<and> (minValue rep \<ge> 0 \<or> finalValue > 0)) \<or>
                 finalValue > toT (maxValue rep) \<or> (\<not> negativeUNV \<and> finalValue < 0)
         then Inl (marshal_err (typeName rep))
         else Inr finalValue)"

definition decodeUniversal ::
  "'s MarshalEngine \<Rightarrow> numericTypeRepresentation \<Rightarrow> (int \<Rightarrow> int) \<Rightarrow> (byte list \<Rightarrow> int) \<Rightarrow>
   (int \<Rightarrow> int) \<Rightarrow> ('s, int) op" where
  "decodeUniversal m rep toT bigEndianFunc toNegative =
     bindE (ReadByteWithContext (dataBuffer m)) (\<lambda>firstByte.
       if firstByte = 0 then retE 0
       else
         let numberOfBytes = firstByte AND 0x7F;
             negativeUNV = (firstByte AND negativeValueIndicator = negativeValueIndicator)
         in bindE (liftE (validateUniversalByteCount numberOfBytes (nbBytes rep) (typeName rep))) (\<lambda>_.
            if negativeUNV \<and> isUnsigned rep then throwE (marshal_err (typeName rep))
            else bindE (ReadBytesWithContext (dataBuffer m) (int (unat numberOfBytes))) (\<lambda>bytes.
                   liftE (convertUniversal rep toT bigEndianFunc toNegative (unat numberOfBytes) negativeUNV bytes))))"

definition readNative ::
  "'s DataBuffer \<Rightarrow> ByteOrder \<Rightarrow> string \<Rightarrow> nat \<Rightarrow> (int \<Rightarrow> int) \<Rightarrow> (byte list \<Rightarrow> int) \<Rightarrow>
   (byte list \<Rightarrow> int) \<Rightarrow> ('s, int) op" where
  "readNative buf order name maxBytes toT littleEndianFunc bigEndianFunc =
     bindE (wrapError (''unmarshal '' @ name) (ReadBytesWithContext buf (int maxBytes))) (\<lambda>buffer.
       retE (toT (if order = LITTLE_ENDIAN then littleEndianFunc buffer else bigEndianFunc buffer)))"

definition unmarshalNumeric ::
  "'s MarshalEngine \<Rightarrow> numericTypeRepresentation \<Rightarrow> (int \<Rightarrow> int) \<Rightarrow> (byte list \<Rightarrow> int) \<Rightarrow>
   (byte list \<Rightarrow> int) \<Rightarrow> (int \<Rightarrow> int) \<Rightarrow> ('s, int) op" where
  "unmarshalNumeric m rep toT bigEndianFunc littleEndianFunc toNegative =
     (if typeRep rep \<noteq> Universal
      then wrapError (typeName rep)
             (readNative (dataBuffer m) (byteOrder m) (typeName rep) (nbBytes rep) toT littleEndianFunc bigEndianFunc)
      else wrapError (typeName rep) (decodeUniversal m rep toT bigEndianFunc toNegative))"

definition writeNative ::
  "int \<Rightarrow> 's MarshalEngine \<Rightarrow> numericTypeRepresentation \<Rightarrow> (int \<Rightarrow> byte list) \<Rightarrow> (int \<Rightarrow> byte list) \<Rightarrow>
   ('s, unit) op" where
  "writeNative value m rep littleEndianFunc bigEndianFunc =
     wrapError (''marshal '' @ typeName rep)
       (WriteBytesWithContext (dataBuffer m)
          (if byteOrder m = LITTLE_ENDIAN then littleEndianFunc value else bigEndianFunc value))"

subsection \<open>Marshalling\<close>

definition MarshalUB1 :: "'s MarshalEngine \<Rightarrow> int \<Rightarrow> ('s, unit) op" where
  "MarshalUB1 m value =
     wrapError (typeName (numericTypeRep m ! UB1Index))
       (WriteByteWithContext (dataBuffer m) (word_of_int value))"

definition MarshalUB2 :: "'s MarshalEngine \<Rightarrow> int \<Rightarrow> ('s, unit) op" where
  "MarshalUB2 m value =
     (let rep = numericTypeRep m ! UB2Index
      in if typeRep rep \<noteq> Universal then writeNative value m rep (le_bytes 2) (be_bytes 2)
         else wrapError (typeName rep) (writeUniversal (uwrap 64 value) False (dataBuffer m)))"

definition MarshalUB4 :: "'s MarshalEngine \<Rightarrow> int \<Rightarrow> ('s, unit) op" where
  "MarshalUB4 m value =
     (let rep = numericTypeRep m ! UB4Index
      in if typeRep rep \<noteq> Universal then writeNative value m rep (le_bytes 4) (be_bytes 4)
         else wrapError (typeName rep) (writeUniversal (uwrap 64 value) False (dataBuffer m)))"

definition MarshalUB8 :: "'s MarshalEngine \<Rightarrow> int \<Rightarrow> ('s, unit) op" where
  "MarshalUB8 m value =
     (let rep = numericTypeRep m ! UB8Index
      in if typeRep rep \<noteq> Universal then writeNative value m rep (le_bytes 8) (be_bytes 8)
         else wrapError (typeName rep) (writeUniversal (uwrap 64 value) False (dataBuffer m)))"

definition MarshalSB4 :: "'s MarshalEngine \<Rightarrow> int \<Rightarrow> ('s, unit) op" where
  "MarshalSB4 m value =
     (let rep = numericTypeRep m ! SB4Index
      in if typeRep rep \<noteq> Universal
         then writeNative value m rep (\<lambda>v. le_bytes 4 (uwrap 32 v)) (\<lambda>v. be_bytes 4 (uwrap 32 v))
         else let (absoluteValue, isNegative) = getAbsoluteValue value
              in wrapError (typeName rep) (writeUniversal absoluteValue isNegative (dataBuffer m)))"

definition marshalSeqNo :: "'s MarshalEngine \<Rightarrow> 's \<Rightarrow> (int result \<times> 's) \<times> 's MarshalEngine" where
  "marshalSeqNo m s =
     (let seq = (if sequenceNumber m \<le> 0 then 1 else sequenceNumber m)
      in (bindE (MarshalUB1 m (uwrap 8 seq)) (\<lambda>_. retE (uwrap 8 seq)) s,
          m\<lparr>sequenceNumber := swrap 8 (seq + 1)\<rparr>))"

definition marshalTokenNo :: "'s MarshalEngine \<Rightarrow> ('s, int) op" where
  "marshalTokenNo m = bindE (MarshalUB8 m 0) (\<lambda>_. retE 0)"

definition MarshalB1Array :: "'s MarshalEngine \<Rightarrow> byte list \<Rightarrow> ('s, unit) op" where
  "MarshalB1Array m value = wrapError ''B1Array'' (WriteBytesWithContext (dataBuffer m) value)"

definition MarshalPTR :: "'s MarshalEngine \<Rightarrow> ('s, unit) op" where
  "MarshalPTR m =
     (if PTRTypeRep m \<noteq> Universal then wrapError ''PTR'' (MarshalB1Array m notNullPTR)
      else wrapError ''PTR'' (MarshalUB1 m 1))"

definition MarshalNullPTR :: "'s MarshalEngine \<Rightarrow> ('s, unit) op" where
  "MarshalNullPTR m =
     (if PTRTypeRep m \<noteq> Universal then wrapError ''null PTR'' (MarshalB1Array m nullPTR)
      else wrapError ''null PTR'' (MarshalUB1 m 0))"

text \<open>\<open>value[from:to]\<close>; a slice outside the array panics.\<close>

definition slice :: "byte list \<Rightarrow> nat \<Rightarrow> nat \<Rightarrow> ('s, byte list) op" where
  "slice value from to =
     (if from \<le> to \<and> to \<le> length value then retE (drop from (take to value))
      else throwE (RuntimePanic ''slice bounds out of range''))"

text \<open>The loop of the long form: one chunk of at most \<open>_checkSize\<close> bytes per round.\<close>

function MarshalCLR_loop :: "'s MarshalEngine \<Rightarrow> byte list \<Rightarrow> nat \<Rightarrow> nat \<Rightarrow> nat \<Rightarrow> ('s, unit) op" where
  "MarshalCLR_loop m value offset totalLength nbBytesWritten =
     (if nbBytesWritten < totalLength
      then
        let bytesLeft = totalLength - nbBytesWritten;
            len = (if bytesLeft > checkSize then checkSize else bytesLeft)
        in bindE (wrapError ''CLR'' (MarshalSB4 m (int len))) (\<lambda>_.
           bindE (slice value (offset + nbBytesWritten) (offset + nbBytesWritten + len)) (\<lambda>chunk.
           bindE (wrapError ''CLR'' (WriteBytesWithContext (dataBuffer m) chunk)) (\<lambda>_.
             MarshalCLR_loop m value offset totalLength (nbBytesWritten + len))))
      else retE ())"
  by pat_completeness auto
termination by (relation "measure (\<lambda>(m, value, offset, totalLength, n). totalLength - n)") auto

declare MarshalCLR_loop.simps [simp del]

definition MarshalCLR :: "'s MarshalEngine \<Rightarrow> byte list \<Rightarrow> nat \<Rightarrow> nat \<Rightarrow> ('s, unit) op" where
  "MarshalCLR m value offset totalLength =
     (if totalLength > unat maximumShortValueLength
      then bindE (wrapError ''CLR'' (WriteByteWithContext (dataBuffer m) longLengthIndicator)) (\<lambda>_.
           bindE (MarshalCLR_loop m value offset totalLength 0) (\<lambda>_.
             wrapError ''CLR'' (MarshalSB4 m 0)))
      else bindE (wrapError ''CLR'' (WriteByteWithContext (dataBuffer m) (word_of_nat totalLength AND 0xFF))) (\<lambda>_.
             if value \<noteq> []
             then bindE (slice value offset (offset + totalLength)) (\<lambda>bs.
                    wrapError ''CLR'' (WriteBytesWithContext (dataBuffer m) bs))
             else retE ()))"

text \<open>The conversion flags of the global \<open>typeRepresentationTable\<close> are an argument.\<close>

definition TTCLXMULTI :: byte where [simp]: "TTCLXMULTI = 1"

definition MarshalChar :: "byte \<Rightarrow> 's MarshalEngine \<Rightarrow> byte list \<Rightarrow> ('s, unit) op" where
  "MarshalChar flags m value =
     (if length value > 0
      then if flags = TTCLXMULTI then wrapError ''Char'' (WriteBytesWithContext (dataBuffer m) value)
           else MarshalCLR m value 0 (length value)
      else retE ())"

definition Flush :: "'s MarshalEngine \<Rightarrow> ('s, unit) op" where
  "Flush m = mapErr (\<lambda>e. NewOracleError MarshalEngineFlushError (Some e) []) (FlushBuffer (dataBuffer m))"

subsection \<open>Unmarshalling\<close>

definition UnmarshalUB1 :: "'s MarshalEngine \<Rightarrow> ('s, int) op" where
  "UnmarshalUB1 m =
     wrapError (typeName (numericTypeRep m ! UB1Index))
       (bindE (ReadByteWithContext (dataBuffer m)) (\<lambda>value. retE (uint value)))"

definition UnmarshalUB2 :: "'s MarshalEngine \<Rightarrow> ('s, int) op" where
  "UnmarshalUB2 m = unmarshalNumeric m (numericTypeRep m ! UB2Index) (uwrap 16) be_val le_val (\<lambda>v. v)"

definition UnmarshalUB4 :: "'s MarshalEngine \<Rightarrow> ('s, int) op" where
  "UnmarshalUB4 m = unmarshalNumeric m (numericTypeRep m ! UB4Index) (uwrap 32) be_val le_val (\<lambda>v. v)"

definition UnmarshalUB8 :: "'s MarshalEngine \<Rightarrow> ('s, int) op" where
  "UnmarshalUB8 m = unmarshalNumeric m (numericTypeRep m ! UB8Index) (uwrap 64) be_val le_val (\<lambda>v. v)"

definition UnmarshalSB2 :: "'s MarshalEngine \<Rightarrow> ('s, int) op" where
  "UnmarshalSB2 m = unmarshalNumeric m (numericTypeRep m ! SB2Index) (swrap 16) be_val le_val
     (\<lambda>v. swrap 16 (- 1 * swrap 16 v))"

definition UnmarshalSB1 :: "'s MarshalEngine \<Rightarrow> ('s, int) op" where
  "UnmarshalSB1 m =
     bindE (wrapError (typeName (numericTypeRep m ! SB1Index)) (UnmarshalSB2 m)) (\<lambda>value. retE (swrap 8 value))"

definition UnmarshalSB4 :: "'s MarshalEngine \<Rightarrow> ('s, int) op" where
  "UnmarshalSB4 m = unmarshalNumeric m (numericTypeRep m ! SB4Index) (swrap 32) be_val le_val
     (\<lambda>v. swrap 32 (- 1 * swrap 32 v))"

text \<open>\<open>make([]byte, length)\<close> panics on a negative length; \<open>copy\<close> moves at most \<open>length\<close> bytes.\<close>

definition UnmarshalB1Array :: "'s MarshalEngine \<Rightarrow> int \<Rightarrow> ('s, byte list) op" where
  "UnmarshalB1Array m len =
     bindE (wrapError ''B1Array'' (ReadBytesWithContext (dataBuffer m) (swrap 32 len))) (\<lambda>readValues.
       if len < 0 then throwE (RuntimePanic ''makeslice: len out of range'')
       else retE (put_bytes 0 (take (nat len) readValues) (replicate (nat len) 0)))"

primrec UnmarshalText_loop :: "'s MarshalEngine \<Rightarrow> nat \<Rightarrow> byte list \<Rightarrow> ('s, byte list) op" where
  "UnmarshalText_loop m 0 tmpBuffer = retE tmpBuffer"
| "UnmarshalText_loop m (Suc n) tmpBuffer =
     bindE (wrapError ''Text'' (ReadByteWithContext (dataBuffer m))) (\<lambda>b.
       if b = 0 then retE tmpBuffer else UnmarshalText_loop m n (tmpBuffer @ [b]))"

definition UnmarshalText :: "'s MarshalEngine \<Rightarrow> int \<Rightarrow> ('s, byte list) op" where
  "UnmarshalText m len =
     (if len < 0 then throwE (RuntimePanic ''makeslice: len out of range'')
      else UnmarshalText_loop m (nat len) [])"

definition readAndCopyToBuffer :: "'s MarshalEngine \<Rightarrow> nat \<Rightarrow> nat \<Rightarrow> byte list \<Rightarrow> ('s, byte list) op" where
  "readAndCopyToBuffer m offset len byteValue =
     bindE (ReadBytesWithContext (dataBuffer m) (swrap 32 (int len))) (\<lambda>data.
       retE (put_bytes offset (take len data) byteValue))"

text \<open>Returns the destination array with the bytes copied in.\<close>

definition unmarshalBuffer :: "'s MarshalEngine \<Rightarrow> byte list \<Rightarrow> nat \<Rightarrow> int \<Rightarrow> ('s, byte list) op" where
  "unmarshalBuffer m byteValue offset len =
     (if len \<le> 0 then retE byteValue
      else if int (length byteValue) < int offset + len then throwE (marshal_err ''CLR'')
      else readAndCopyToBuffer m offset (nat len) byteValue)"

text \<open>The loop of the long form of \<open>UnmarshalCLR\<close>: it ends only when the server sends a zero
  length, so it takes fuel; \<open>None\<close> is a loop that has not ended.\<close>

primrec UnmarshalCLR_loop ::
  "nat \<Rightarrow> 's MarshalEngine \<Rightarrow> int \<Rightarrow> byte list \<Rightarrow> nat \<Rightarrow> ('s, (int \<times> byte list) option) op" where
  "UnmarshalCLR_loop 0 m maxSize bytes nbBytesWritten = retE None"
| "UnmarshalCLR_loop (Suc fuel) m maxSize bytes nbBytesWritten =
     bindE (wrapError ''CLR'' (UnmarshalSB4 m)) (\<lambda>len.
       if len = 0 then retE (Some (int nbBytesWritten, bytes))
       else if len < 0 then throwE (marshal_err ''CLR'')
       else let keepThem = min (maxSize - int nbBytesWritten) len
            in bindE (wrapError ''CLR'' (unmarshalBuffer m bytes nbBytesWritten keepThem)) (\<lambda>bytes'.
                 if len - keepThem > 0
                 then bindE (wrapError ''CLR'' (ReadBytesWithContext (dataBuffer m) (swrap 32 (len - keepThem)))) (\<lambda>_.
                        UnmarshalCLR_loop fuel m maxSize bytes' (nat (int nbBytesWritten + keepThem)))
                 else UnmarshalCLR_loop fuel m maxSize bytes' (nat (int nbBytesWritten + keepThem))))"

definition UnmarshalCLR ::
  "nat \<Rightarrow> 's MarshalEngine \<Rightarrow> byte list \<Rightarrow> int \<Rightarrow> ('s, (int \<times> byte list) option) op" where
  "UnmarshalCLR fuel m bytes maxSize =
     bindE (wrapError ''CLR'' (UnmarshalUB1 m)) (\<lambda>lenflag.
       if lenflag = uint espapeValue
       then throwE (wrapErr ''CLR'' (NewOracleError ProtocolViolation None [ArgNil]))
       else if lenflag = uint nullLengthIndicator then retE (Some (0, bytes))
       else if lenflag \<le> uint maximumShortValueLength
       then bindE (wrapError ''CLR'' (unmarshalBuffer m bytes 0 lenflag)) (\<lambda>bytes'. retE (Some (lenflag, bytes')))
       else UnmarshalCLR_loop fuel m maxSize bytes 0)"

abbreviation clr_violation :: go_error where
  "clr_violation \<equiv> wrapErr ''CLR'' (NewOracleError ProtocolViolation None [])"

definition maxAllowedCLRLength :: "'s MarshalEngine \<Rightarrow> int" where
  "maxAllowedCLRLength m = max maximumLongCLRAggregateLength (defaultLobPrefetchSize m * 2)"

text \<open>Every round of this loop adds at least one byte, and the aggregate limit ends it.\<close>

function UnmarshalCLRColumnData_loop ::
  "'s MarshalEngine \<Rightarrow> int \<Rightarrow> byte list \<Rightarrow> ('s, byte list \<times> int) op" where
  "UnmarshalCLRColumnData_loop m nbBytesWritten bytes =
     bindE (wrapError ''CLR'' (UnmarshalSB4 m)) (\<lambda>len.
       if len = 0 then retE (bytes, nbBytesWritten)
       else if len < 0 then throwE clr_violation
       else if len > maximumLongCLRChunkLength then throwE clr_violation
       else bindE (wrapError ''CLR'' (unmarshalBuffer m (replicate (nat len) 0) 0 len)) (\<lambda>currentBytes.
         if nbBytesWritten + len > maxAllowedCLRLength m then throwE clr_violation
         else UnmarshalCLRColumnData_loop m (nbBytesWritten + len) (bytes @ currentBytes)))"
  by pat_completeness auto
termination
  by (relation "measure (\<lambda>(m, n, bytes). nat (maxAllowedCLRLength m - n))") auto

declare UnmarshalCLRColumnData_loop.simps [simp del]

definition UnmarshalCLRColumnData :: "'s MarshalEngine \<Rightarrow> ('s, byte list \<times> int) op" where
  "UnmarshalCLRColumnData m =
     bindE (wrapError ''CLR'' (UnmarshalUB1 m)) (\<lambda>lenflag.
       if lenflag = uint espapeValue
       then throwE (wrapErr ''CLR'' (NewOracleError ProtocolViolation None [ArgNil]))
       else if lenflag = uint nullLengthIndicator then retE ([], 0)
       else if lenflag \<le> uint maximumShortValueLength
       then bindE (wrapError ''CLR'' (unmarshalBuffer m (replicate (nat lenflag) 0) 0 lenflag)) (\<lambda>bytes.
              retE (bytes, lenflag))
       else UnmarshalCLRColumnData_loop m 0 [])"

end
