(* ===== verification/Marshal_Roundtrip.thy ===== *)
theory Marshal_Roundtrip
  imports Marshal_Engine
begin

text \<open>
  What the marshal engine of \<open>Marshal_Engine\<close> guarantees. The locale \<open>marshal_engine\<close> is an
  engine on top of a \<open>data_buffer\<close>: in it, every marshalling operation appends a fixed byte
  string and the matching unmarshalling operation reads exactly that string back as the value
  marshalled, in native and universal representation and either byte order. The second part
  needs no assumption on the buffer: bounds that hold whatever the server sends.
\<close>

subsection \<open>The universal encoding\<close>

definition universal_bytes :: "int \<Rightarrow> bool \<Rightarrow> byte list" where
  "universal_bytes a negative = (if a = 0 then [0] else encodeAbsoluteUniversalValue a negative)"

definition significant :: "int \<Rightarrow> byte list" where
  "significant a = dropWhile (\<lambda>b. b = 0) (be_bytes 8 a)"

lemma be_val_dropWhile_0: "be_val (dropWhile (\<lambda>b. b = 0) bs) = be_val bs"
  by (induction bs) (auto simp: be_val_Cons)

lemma be_val_dropWhile_lower:
  "bs \<noteq> [] \<Longrightarrow> hd bs \<noteq> 0 \<Longrightarrow> 256 ^ (length bs - 1) \<le> be_val bs"
proof -
  assume h: "bs \<noteq> []" "hd bs \<noteq> 0"
  then obtain b cs where bs: "bs = b # cs" by (cases bs) auto
  have "uint b \<noteq> 0" using h bs by (simp add: unsigned_eq_0_iff)
  then have "1 \<le> uint b" using uint_ge_0 [of b] by linarith
  then have "1 * 256 ^ length cs \<le> uint b * 256 ^ length cs" by (intro mult_right_mono) simp_all
  moreover have "0 \<le> be_val cs" by (rule be_val_bounds(1))
  ultimately have "256 ^ length cs \<le> uint b * 256 ^ length cs + be_val cs" by linarith
  then show ?thesis unfolding bs be_val_Cons by simp
qed

lemma significant_props:
  assumes "0 < a" "a < 256 ^ n" "n \<le> 8"
  shows "be_val (significant a) = a" "0 < length (significant a)" "length (significant a) \<le> n"
proof -
  have "(256::int) ^ n \<le> 256 ^ 8" using assms(3) by (intro power_increasing) simp_all
  then have a: "a < 256 ^ 8" using assms(2) by linarith
  show v: "be_val (significant a) = a"
    unfolding significant_def be_val_dropWhile_0 be_val_be_bytes using a assms(1) by (intro mod_pos_pos_trivial) simp_all
  then show ne: "0 < length (significant a)" using assms(1) by fastforce
  have "hd (significant a) \<noteq> 0" using ne unfolding significant_def length_greater_0_conv by (rule hd_dropWhile)
  then have "256 ^ (length (significant a) - 1) \<le> a" using be_val_dropWhile_lower [of "significant a"] ne v by simp
  then have "(256::int) ^ (length (significant a) - 1) < 256 ^ n" using assms(2) by linarith
  then have "length (significant a) - 1 < n" by (rule power_less_imp_less_exp [rotated]) simp
  then show "length (significant a) \<le> n" by simp
qed

definition universal_lead :: "nat \<Rightarrow> bool \<Rightarrow> byte" where
  "universal_lead k negative = (if negative then word_of_nat k OR 0x80 else word_of_nat k)"

lemma universal_lead_table:
  "list_all (\<lambda>k. \<forall>negative. universal_lead k negative \<noteq> 0 \<and> unat (universal_lead k negative AND 0x7F) = k \<and>
     universal_lead k negative AND 0x7F \<noteq> 0 \<and>
     (universal_lead k negative AND 0x80 = 0x80 \<longleftrightarrow> negative)) [1, 2, 3, 4, 5, 6, 7, 8]"
  by code_simp

lemma universal_lead:
  assumes "0 < k" "k \<le> 8"
  shows "universal_lead k negative \<noteq> 0" "unat (universal_lead k negative AND 0x7F) = k"
    "universal_lead k negative AND 0x7F \<noteq> 0" "universal_lead k negative AND 0x80 = 0x80 \<longleftrightarrow> negative"
proof -
  have "k \<in> set [1, 2, 3, 4, 5, 6, 7, 8]" using assms by auto
  then show "universal_lead k negative \<noteq> 0" "unat (universal_lead k negative AND 0x7F) = k"
    "universal_lead k negative AND 0x7F \<noteq> 0" "universal_lead k negative AND 0x80 = 0x80 \<longleftrightarrow> negative"
    using universal_lead_table unfolding list_all_iff by blast+
qed

lemma encodeAbsoluteUniversalValue_eq:
  "encodeAbsoluteUniversalValue a negative = universal_lead (length (significant a)) negative # significant a"
  by (simp add: encodeAbsoluteUniversalValue_def significant_def universal_lead_def Let_def)

lemma put_bytes_zeros: "k \<le> n \<Longrightarrow> length bs = k \<Longrightarrow> put_bytes (n - k) bs (replicate n 0) = replicate (n - k) 0 @ bs"
  by (simp add: put_bytes_def)

lemma put_bytes_all: "length bs = n \<Longrightarrow> put_bytes 0 bs (replicate n 0) = bs"
  by (simp add: put_bytes_def)

subsection \<open>Engines\<close>

text \<open>The type table of an engine is the default one up to the representation bytes.\<close>

definition engine_ok :: "'s MarshalEngine \<Rightarrow> bool" where
  "engine_ok m = (\<exists>ts. length ts = 7 \<and>
     numericTypeRep m = map2 (\<lambda>rep t. rep\<lparr>typeRep := t\<rparr>) defaultNumericTypeRep ts)"

lemma length_defaultNumericTypeRep [simp]: "length defaultNumericTypeRep = 7"
  by (simp add: defaultNumericTypeRep_def)

lemma engine_ok_New: "engine_ok (NewNativeMarshalEngine D ord)" "engine_ok (NewMarshalEngine D ord types)"
proof -
  have "defaultNumericTypeRep = map2 (\<lambda>rep t. rep\<lparr>typeRep := t\<rparr>) defaultNumericTypeRep [0, 0, 0, 0, 0, 0, 0]"
    by (simp add: defaultNumericTypeRep_def)
  then show "engine_ok (NewNativeMarshalEngine D ord)"
    unfolding engine_ok_def NewNativeMarshalEngine_def
    by (intro exI [of _ "[0, 0, 0, 0, 0, 0, 0]"]) simp
  show "engine_ok (NewMarshalEngine D ord types)"
    unfolding engine_ok_def NewMarshalEngine_def
    by (intro exI [of _ "[types ! 0, types ! 1, types ! 2, types ! 3, types ! 0, types ! 1, types ! 2]"]) simp
qed

lemma engine_ok_nth:
  assumes "engine_ok m" "i < 7"
  shows "nbBytes (numericTypeRep m ! i) = nbBytes (defaultNumericTypeRep ! i)"
    "isUnsigned (numericTypeRep m ! i) = isUnsigned (defaultNumericTypeRep ! i)"
    "minValue (numericTypeRep m ! i) = minValue (defaultNumericTypeRep ! i)"
    "maxValue (numericTypeRep m ! i) = maxValue (defaultNumericTypeRep ! i)"
  using assms unfolding engine_ok_def by auto

lemma defaultNumericTypeRep_nth [simp]:
  "nbBytes (defaultNumericTypeRep ! 1) = 2" "nbBytes (defaultNumericTypeRep ! Suc 0) = 2"
  "nbBytes (defaultNumericTypeRep ! 2) = 4" "nbBytes (defaultNumericTypeRep ! 3) = 8"
  "nbBytes (defaultNumericTypeRep ! 5) = 2" "nbBytes (defaultNumericTypeRep ! 6) = 4"
  "isUnsigned (defaultNumericTypeRep ! Suc 0)" "isUnsigned (defaultNumericTypeRep ! 2)"
  "isUnsigned (defaultNumericTypeRep ! 3)" "\<not> isUnsigned (defaultNumericTypeRep ! 5)"
  "\<not> isUnsigned (defaultNumericTypeRep ! 6)"
  "maxValue (defaultNumericTypeRep ! Suc 0) = 2 ^ 16 - 1" "maxValue (defaultNumericTypeRep ! 2) = 2 ^ 32 - 1"
  "maxValue (defaultNumericTypeRep ! 3) = 2 ^ 64 - 1" "maxValue (defaultNumericTypeRep ! 5) = 2 ^ 15 - 1"
  "maxValue (defaultNumericTypeRep ! 6) = 2 ^ 31 - 1" "minValue (defaultNumericTypeRep ! 6) = - (2 ^ 31)"
  "minValue (defaultNumericTypeRep ! 5) = - (2 ^ 15)"
  by (simp_all add: defaultNumericTypeRep_def)


text \<open>The bytes of an integer of the type at \<open>i\<close>, as written by this engine.\<close>

definition int_bytes :: "'s MarshalEngine \<Rightarrow> nat \<Rightarrow> int \<Rightarrow> byte list" where
  "int_bytes m i v =
     (let rep = numericTypeRep m ! i; n = nbBytes rep
      in if typeRep rep \<noteq> Universal
         then (if byteOrder m = LITTLE_ENDIAN then le_bytes n (uwrap (8 * n) v) else be_bytes n (uwrap (8 * n) v))
         else universal_bytes \<bar>v\<bar> (v < 0))"

lemma uwrap_256: "uwrap (8 * n) v = v mod 256 ^ n"
  by (simp add: uwrap_def power_mult)

text \<open>A CLR string: up to 252 bytes after a length byte, otherwise chunks of at most 32767
  bytes, each after its length, closed by a zero length.\<close>

function clr_chunks :: "'s MarshalEngine \<Rightarrow> byte list \<Rightarrow> byte list" where
  "clr_chunks m bs =
     (if bs = [] then int_bytes m SB4Index 0
      else int_bytes m SB4Index (int (min checkSize (length bs))) @ take checkSize bs @
        clr_chunks m (drop checkSize bs))"
  by pat_completeness auto
termination by (relation "measure (\<lambda>(m, bs). length bs)") auto

declare clr_chunks.simps [simp del]

definition clr_bytes :: "'s MarshalEngine \<Rightarrow> byte list \<Rightarrow> byte list" where
  "clr_bytes m bs =
     (if length bs > 252 then longLengthIndicator # clr_chunks m bs else word_of_nat (length bs) # bs)"

lemma put_bytes_put_bytes:
  "off' = off + length bs \<Longrightarrow> off + length bs + length cs \<le> length buf \<Longrightarrow>
   put_bytes off' cs (put_bytes off bs buf) = put_bytes off (bs @ cs) buf"
  by (simp add: put_bytes_def min_def ac_simps) (metis le_add1 le_zero_eq list.size(3) nat_le_linear le_add_diff_inverse length_0_conv add_le_cancel_left le_trans add_0_right)

lemma put_bytes_Nil [simp]: "put_bytes off [] buf = buf"
  by (simp add: put_bytes_def)

lemma short_length_byte:
  "n \<le> 252 \<Longrightarrow> uint (word_of_nat n :: byte) = int n" "n \<le> 252 \<Longrightarrow> (word_of_nat n :: byte) AND 0xFF = word_of_nat n"
proof -
  show "n \<le> 252 \<Longrightarrow> uint (word_of_nat n :: byte) = int n"
    by (simp only: unsigned_of_nat) (simp add: take_bit_eq_mod)
  have "(0xFF :: byte) = - 1" by simp
  then show "n \<le> 252 \<Longrightarrow> (word_of_nat n :: byte) AND 0xFF = word_of_nat n" by (simp only: and.right_neutral)
qed

locale marshal_engine = data_buffer D inq outq good
  for D :: "'s DataBuffer" and inq outq good +
  fixes m :: "'s MarshalEngine"
  assumes engine: "engine_ok m" and buffer: "dataBuffer m = D"
begin

lemma writes_wrap: "writes f bs \<Longrightarrow> writes (wrapError n f) bs"
  by (simp add: wrapError_def writes_mapErr)

lemma reads_wrap: "reads f bs v \<Longrightarrow> reads (wrapError n f) bs v"
  by (simp add: wrapError_def reads_mapErr)

lemmas rep = engine_ok_nth [OF engine]

lemma writeUniversal_writes: "writes (writeUniversal a negative D) (universal_bytes a negative)"
  by (simp add: writeUniversal_def universal_bytes_def writes_bytes)

lemma decodeUniversal_reads:
  assumes n: "nbBytes r \<le> 8" and a: "0 \<le> a" "a < 256 ^ nbBytes r"
    and neg: "negative \<Longrightarrow> 0 < a \<and> \<not> isUnsigned r \<and> minValue r < 0 \<and> toNegative a \<le> 0"
    and v: "v = (if negative then toNegative a else toT a)"
    and bounds: "v \<le> toT (maxValue r)" "\<not> negative \<Longrightarrow> 0 \<le> v" "a = 0 \<Longrightarrow> v = 0"
  shows "reads (decodeUniversal m r toT be_val toNegative) (universal_bytes a negative) v"
proof (cases "a = 0")
  case True
  have "reads (decodeUniversal m r toT be_val toNegative) ([0] @ []) 0"
    unfolding decodeUniversal_def buffer by (rule reads_bindE [OF reads_byte]) (simp add: reads_retE)
  then show ?thesis using True bounds(3) by (simp add: universal_bytes_def)
next
  case False
  then have a0: "0 < a" using a(1) by simp
  let ?s = "significant a"
  note s = significant_props [OF a0 a(2) n]
  have k: "0 < length ?s" "length ?s \<le> 8" using s n by simp_all
  note lead = universal_lead [OF k, of negative]
  have val: "be_val (put_bytes (nbBytes r - length ?s) ?s (replicate (nbBytes r) 0)) = a"
    using s by (simp add: put_bytes_zeros)
  have cv: "convertUniversal r toT be_val toNegative (length ?s) negative ?s = Inr v"
    unfolding convertUniversal_def Let_def val using a neg v bounds by auto
  have vc: "validateUniversalByteCount (universal_lead (length ?s) negative AND 0x7F) (nbBytes r) (typeName r) = Inr ()"
    using lead(2,3) s(3) by (simp add: validateUniversalByteCount_def)
  have "length ?s < 2 ^ 31" using k(2) by simp
  then have rd: "reads (bindE (ReadBytesWithContext D (int (length ?s)))
      (\<lambda>bytes. liftE (convertUniversal r toT be_val toNegative (length ?s) negative bytes))) (?s @ []) v"
    by (intro reads_bindE [OF reads_bytes [OF k(1)]]) (simp_all add: cv reads_retE)
  have "reads (decodeUniversal m r toT be_val toNegative) ([universal_lead (length ?s) negative] @ (?s @ [])) v"
    unfolding decodeUniversal_def buffer
    by (rule reads_bindE [OF reads_byte]) (use rd neg lead in \<open>auto simp: Let_def vc\<close>)
  then show ?thesis using False by (simp add: universal_bytes_def encodeAbsoluteUniversalValue_eq)
qed


lemma unmarshalNumeric_reads:
  fixes v :: int and i :: nat
  defines "r \<equiv> numericTypeRep m ! i"
  assumes nb: "0 < nbBytes r" "nbBytes r \<le> 8"
    and native: "toT (v mod 256 ^ nbBytes r) = v"
    and abs: "\<bar>v\<bar> < 256 ^ nbBytes r" "v \<le> toT (maxValue r)" "0 \<le> v \<Longrightarrow> toT v = v"
    and neg: "v < 0 \<Longrightarrow> \<not> isUnsigned r \<and> minValue r < 0 \<and> toNegative (- v) = v"
  shows "reads (unmarshalNumeric m r toT be_val le_val toNegative) (int_bytes m i v) v"
proof (cases "typeRep r = Universal")
  case True
  have "reads (decodeUniversal m r toT be_val toNegative) (universal_bytes \<bar>v\<bar> (v < 0)) v"
    by (rule decodeUniversal_reads) (use nb abs neg in auto)
  then show ?thesis using True unfolding unmarshalNumeric_def int_bytes_def r_def [symmetric] Let_def
    by (simp add: reads_wrap)
next
  case False
  let ?bs = "if byteOrder m = LITTLE_ENDIAN then le_bytes (nbBytes r) (uwrap (8 * nbBytes r) v)
    else be_bytes (nbBytes r) (uwrap (8 * nbBytes r) v)"
  have l: "length ?bs = nbBytes r" by simp
  have rd: "reads (ReadBytesWithContext D (int (nbBytes r))) ?bs ?bs"
    using reads_bytes [of ?bs] nb unfolding l by simp
  have "reads (readNative D (byteOrder m) (typeName r) (nbBytes r) toT le_val be_val) (?bs @ []) v"
    unfolding readNative_def by (rule reads_bindE [OF reads_wrap [OF rd]])
      (use native in \<open>auto simp: uwrap_256 reads_retE\<close>)
  then show ?thesis using False unfolding unmarshalNumeric_def int_bytes_def r_def [symmetric] Let_def buffer
    by (auto intro!: reads_wrap)
qed

lemma writeNative_writes:
  "(le v = le_bytes (nbBytes (numericTypeRep m ! i)) (uwrap (8 * nbBytes (numericTypeRep m ! i)) v)) \<Longrightarrow>
   (be v = be_bytes (nbBytes (numericTypeRep m ! i)) (uwrap (8 * nbBytes (numericTypeRep m ! i)) v)) \<Longrightarrow>
   typeRep (numericTypeRep m ! i) \<noteq> Universal \<Longrightarrow>
   writes (writeNative v m (numericTypeRep m ! i) le be) (int_bytes m i v)"
  by (simp add: writeNative_def int_bytes_def buffer Let_def writes_wrap writes_bytes)

lemma MarshalUB1_writes: "writes (MarshalUB1 m v) [word_of_int v]"
  by (simp add: MarshalUB1_def buffer writes_wrap writes_byte)

lemma UnmarshalUB1_reads: "reads (UnmarshalUB1 m) [b] (uint b)"
proof -
  have "reads (bindE (ReadByteWithContext D) (\<lambda>v. retE (uint v))) ([b] @ []) (uint b)"
    by (rule reads_bindE [OF reads_byte reads_retE])
  then show ?thesis by (simp add: UnmarshalUB1_def buffer reads_wrap)
qed

lemma writeUniversal_int:
  "typeRep (numericTypeRep m ! i) = Universal \<Longrightarrow>
   writes (wrapError n (writeUniversal \<bar>v\<bar> (v < 0) D)) (int_bytes m i v)"
  using writeUniversal_writes [of "\<bar>v\<bar>" "v < 0"] by (simp add: int_bytes_def Let_def writes_wrap)

lemma MarshalUB2_writes: "0 \<le> v \<Longrightarrow> v < 2 ^ 16 \<Longrightarrow> writes (MarshalUB2 m v) (int_bytes m UB2Index v)"
  using writeUniversal_int [where i = UB2Index and v = v] writeNative_writes [of "le_bytes 2" v UB2Index "be_bytes 2"]
  by (auto simp: MarshalUB2_def Let_def buffer rep)

lemma MarshalUB4_writes: "0 \<le> v \<Longrightarrow> v < 2 ^ 32 \<Longrightarrow> writes (MarshalUB4 m v) (int_bytes m UB4Index v)"
  using writeUniversal_int [where i = UB4Index and v = v] writeNative_writes [of "le_bytes 4" v UB4Index "be_bytes 4"]
  by (auto simp: MarshalUB4_def Let_def buffer rep)

lemma MarshalUB8_writes: "0 \<le> v \<Longrightarrow> v < 2 ^ 64 \<Longrightarrow> writes (MarshalUB8 m v) (int_bytes m UB8Index v)"
  using writeUniversal_int [where i = UB8Index and v = v] writeNative_writes [of "le_bytes 8" v UB8Index "be_bytes 8"]
  by (auto simp: MarshalUB8_def Let_def buffer rep)

lemma MarshalSB4_writes:
  assumes "- (2 ^ 31) \<le> v" "v < 2 ^ 31"
  shows "writes (MarshalSB4 m v) (int_bytes m SB4Index v)"
proof -
  have "getAbsoluteValue v = (\<bar>v\<bar>, v < 0)" using assms by (simp add: getAbsoluteValue_def)
  then show ?thesis
    using writeUniversal_int [where i = SB4Index and v = v]
      writeNative_writes [of "\<lambda>v. le_bytes 4 (uwrap 32 v)" v SB4Index "\<lambda>v. be_bytes 4 (uwrap 32 v)"]
    by (auto simp: MarshalSB4_def Let_def buffer rep)
qed

lemma UnmarshalUB2_reads: "0 \<le> v \<Longrightarrow> v < 2 ^ 16 \<Longrightarrow> reads (UnmarshalUB2 m) (int_bytes m UB2Index v) v"
  unfolding UnmarshalUB2_def by (rule unmarshalNumeric_reads) (simp_all add: rep)

lemma UnmarshalUB4_reads: "0 \<le> v \<Longrightarrow> v < 2 ^ 32 \<Longrightarrow> reads (UnmarshalUB4 m) (int_bytes m UB4Index v) v"
  unfolding UnmarshalUB4_def by (rule unmarshalNumeric_reads) (simp_all add: rep)

lemma UnmarshalUB8_reads: "0 \<le> v \<Longrightarrow> v < 2 ^ 64 \<Longrightarrow> reads (UnmarshalUB8 m) (int_bytes m UB8Index v) v"
  unfolding UnmarshalUB8_def by (rule unmarshalNumeric_reads) (simp_all add: rep)

lemma UnmarshalSB4_reads:
  assumes "- (2 ^ 31) \<le> v" "v < 2 ^ 31"
  shows "reads (UnmarshalSB4 m) (int_bytes m SB4Index v) v"
proof -
  have a: "swrap 32 (v mod 256 ^ 4) = v"
    using swrap_uwrap [of 32 v] assms by (simp add: uwrap_def swrap_id)
  have b: "swrap 32 (- 1 * swrap 32 (- v)) = v" if "v < 0"
  proof (cases "v = - (2 ^ 31)")
    case True
    then show ?thesis by (simp add: swrap_def)
  next
    case False
    then show ?thesis using that assms by (simp add: swrap_id)
  qed
  have c: "0 \<le> v \<Longrightarrow> swrap 32 v = v" using assms by (simp add: swrap_id)
  have d: "swrap 32 (2 ^ 31 - 1) = 2 ^ 31 - 1" by (simp add: swrap_def)
  have r: "nbBytes (numericTypeRep m ! SB4Index) = 4" "maxValue (numericTypeRep m ! SB4Index) = 2 ^ 31 - 1"
    "minValue (numericTypeRep m ! SB4Index) = - (2 ^ 31)" "\<not> isUnsigned (numericTypeRep m ! SB4Index)"
    by (simp_all add: rep)
  have e: "\<bar>v\<bar> < 256 ^ 4" using assms by simp
  show ?thesis unfolding UnmarshalSB4_def
  proof (rule unmarshalNumeric_reads, unfold r d)
    show "v \<le> 2 ^ 31 - 1" using assms by simp
  qed (use a b c e r in simp_all)
qed


lemma slice_ok: "from \<le> to \<Longrightarrow> to \<le> length value \<Longrightarrow> slice value from to = retE (drop from (take to value))"
  by (simp add: slice_def)

lemma MarshalCLR_loop_writes:
  "n \<le> tot \<Longrightarrow> off + tot \<le> length value \<Longrightarrow>
   writes (bindE (MarshalCLR_loop m value off tot n) (\<lambda>_. wrapError ''CLR'' (MarshalSB4 m 0)))
     (clr_chunks m (drop (off + n) (take (off + tot) value)))"
proof (induction "tot - n" arbitrary: n rule: less_induct)
  case less
  let ?bs = "drop (off + n) (take (off + tot) value)"
  have len: "length ?bs = tot - n" using less.prems by simp
  show ?case
  proof (cases "n < tot")
    case False
    then have "?bs = []" using less.prems by simp
    then show ?thesis using False MarshalSB4_writes [of 0]
      by (simp add: MarshalCLR_loop.simps [of _ _ _ _ n] clr_chunks.simps [of m] writes_wrap)
  next
    case True
    let ?k = "min checkSize (tot - n)"
    have k: "0 < ?k" "n + ?k \<le> tot" "?k \<le> 32767" using True by auto
    have ih: "writes (bindE (MarshalCLR_loop m value off tot (n + ?k)) (\<lambda>_. wrapError ''CLR'' (MarshalSB4 m 0)))
        (clr_chunks m (drop (off + (n + ?k)) (take (off + tot) value)))"
      using less.hyps [of "n + ?k"] less.prems k by simp
    have chunk: "drop (off + n) (take (off + n + ?k) value) = take checkSize ?bs"
      using less.prems k len by (simp add: take_drop min_def ac_simps)
    have rest: "drop (off + (n + ?k)) (take (off + tot) value) = drop checkSize ?bs"
      using less.prems k by (simp add: min_def ac_simps)
    have sb4: "writes (wrapError ''CLR'' (MarshalSB4 m (int ?k))) (int_bytes m SB4Index (int ?k))"
      by (intro writes_wrap MarshalSB4_writes) auto
    have "bindE (MarshalCLR_loop m value off tot n) (\<lambda>_. wrapError ''CLR'' (MarshalSB4 m 0)) =
        bindE (wrapError ''CLR'' (MarshalSB4 m (int ?k))) (\<lambda>_.
        bindE (wrapError ''CLR'' (WriteBytesWithContext D (take checkSize ?bs))) (\<lambda>_.
        bindE (MarshalCLR_loop m value off tot (n + ?k)) (\<lambda>_. wrapError ''CLR'' (MarshalSB4 m 0))))"
    proof -
      have l: "(if tot - n > checkSize then checkSize else tot - n) = ?k" by simp
      have sl: "slice value (off + n) (off + n + ?k) = retE (take checkSize ?bs)"
        using chunk less.prems k by (simp only: slice_def) simp
      show ?thesis using True
        by (subst MarshalCLR_loop.simps) (simp only: if_True Let_def l sl bindE_retE bindE_assoc buffer)
    qed
    moreover have "writes (bindE (wrapError ''CLR'' (MarshalSB4 m (int ?k))) (\<lambda>_.
        bindE (wrapError ''CLR'' (WriteBytesWithContext D (take checkSize ?bs))) (\<lambda>_.
        bindE (MarshalCLR_loop m value off tot (n + ?k)) (\<lambda>_. wrapError ''CLR'' (MarshalSB4 m 0)))))
        (int_bytes m SB4Index (int ?k) @ take checkSize ?bs @ clr_chunks m (drop checkSize ?bs))"
      by (rule writes_bindE [OF sb4], rule writes_bindE [OF writes_wrap [OF writes_bytes]], rule ih [unfolded rest])
    moreover have "clr_chunks m ?bs =
        int_bytes m SB4Index (int ?k) @ take checkSize ?bs @ clr_chunks m (drop checkSize ?bs)"
    proof -
      have "?bs \<noteq> []" using len True by auto
      then show ?thesis unfolding clr_chunks.simps [of m ?bs] len by (simp only: if_False)
    qed
    ultimately show ?thesis by (simp only:)
  qed
qed


text \<open>Marshalling a part of an array writes the CLR form of that part.\<close>

lemma MarshalCLR_writes:
  assumes "off + len \<le> length value"
  shows "writes (MarshalCLR m value off len) (clr_bytes m (take len (drop off value)))"
proof (cases "len > 252")
  case True
  have loop: "writes (bindE (MarshalCLR_loop m value off len 0) (\<lambda>_. wrapError ''CLR'' (MarshalSB4 m 0)))
      (clr_chunks m (drop (off + 0) (take (off + len) value)))"
    by (rule MarshalCLR_loop_writes) (use assms in simp_all)
  have eq: "MarshalCLR m value off len = bindE (wrapError ''CLR'' (WriteByteWithContext D longLengthIndicator)) (\<lambda>_.
      bindE (MarshalCLR_loop m value off len 0) (\<lambda>_. wrapError ''CLR'' (MarshalSB4 m 0)))"
    using True by (simp add: MarshalCLR_def buffer)
  have "writes (MarshalCLR m value off len) ([longLengthIndicator] @ clr_chunks m (drop (off + 0) (take (off + len) value)))"
    unfolding eq by (rule writes_bindE [OF writes_wrap [OF writes_byte] loop])
  then show ?thesis using True assms by (simp add: clr_bytes_def take_drop add.commute)
next
  case False
  have f: "writes (bindE (wrapError ''CLR'' (WriteByteWithContext D (word_of_nat len AND 0xFF))) k)
      ([word_of_nat len] @ bs)" if "writes (k ()) bs" for k bs
    using False by (subst short_length_byte(2)) (simp, rule writes_bindE, rule writes_wrap, rule writes_byte, rule that)
  have "writes (MarshalCLR m value off len) ([word_of_nat len] @ take len (drop off value))"
  proof (cases "value = []")
    case True
    then show ?thesis using False f [of "\<lambda>_. retE ()" "[]"] assms writes_retE
      by (simp add: MarshalCLR_def buffer)
  next
    case ne: False
    have "drop off (take (off + len) value) = take len (drop off value)" by (simp add: take_drop add.commute)
    then show ?thesis using False ne assms
        f [of "\<lambda>_. wrapError ''CLR'' (WriteBytesWithContext D (take len (drop off value)))"]
      by (simp add: MarshalCLR_def buffer slice_ok writes_wrap writes_bytes)
  qed
  moreover have "length (take len (drop off value)) = len" using assms by simp
  ultimately show ?thesis using False by (simp only: clr_bytes_def if_False) simp
qed

lemma unmarshalBuffer_reads:
  assumes "off + length bs \<le> length dest" "length bs < 2 ^ 31"
  shows "reads (unmarshalBuffer m dest off (int (length bs))) bs (put_bytes off bs dest)"
proof (cases "bs = []")
  case True
  then show ?thesis by (simp add: unmarshalBuffer_def reads_retE)
next
  case False
  have "swrap 32 (int (length bs)) = int (length bs)" using assms(2) by (intro swrap_id) simp_all
  moreover have "reads (bindE (ReadBytesWithContext D (int (length bs)))
      (\<lambda>data. retE (put_bytes off (take (length bs) data) dest))) (bs @ []) (put_bytes off bs dest)"
    using False assms by (intro reads_bindE [OF reads_bytes]) (simp_all add: reads_retE)
  ultimately show ?thesis
    using False assms(1) by (simp add: unmarshalBuffer_def readAndCopyToBuffer_def buffer flip: of_nat_add)
qed

lemma UnmarshalSB4_CLR_reads:
  "n < 2 ^ 31 \<Longrightarrow> reads (wrapError ''CLR'' (UnmarshalSB4 m)) (int_bytes m SB4Index (int n)) (int n)"
  by (intro reads_wrap UnmarshalSB4_reads) simp_all

lemma UnmarshalSB4_CLR_0: "reads (wrapError ''CLR'' (UnmarshalSB4 m)) (int_bytes m SB4Index 0) 0"
  by (intro reads_wrap UnmarshalSB4_reads) simp_all

lemma UnmarshalCLRColumnData_loop_reads:
  "n + int (length bs) \<le> maxAllowedCLRLength m \<Longrightarrow>
   reads (UnmarshalCLRColumnData_loop m n acc) (clr_chunks m bs) (acc @ bs, n + int (length bs))"
proof (induction "length bs" arbitrary: bs n acc rule: less_induct)
  case less
  show ?case
  proof (cases "bs = []")
    case True
    have "reads (UnmarshalCLRColumnData_loop m n acc) (int_bytes m SB4Index 0 @ []) (acc, n)"
      unfolding UnmarshalCLRColumnData_loop.simps [of m n]
      by (rule reads_bindE [OF UnmarshalSB4_CLR_0]) (simp add: reads_retE)
    then show ?thesis using True by (simp add: clr_chunks.simps [of m])
  next
    case False
    define k where "k = min checkSize (length bs)"
    let ?c = "take checkSize bs" and ?r = "drop checkSize bs"
    have k: "0 < k" "k \<le> 32767" "length ?c = k" "length bs = k + length ?r" "length ?r < length bs"
      using False by (auto simp: k_def)
    have "reads (wrapError ''CLR'' (unmarshalBuffer m (replicate k 0) 0 (int k))) ?c ?c"
      using unmarshalBuffer_reads [of 0 ?c "replicate k 0"] k(2,3) put_bytes_all [of ?c k] by (simp add: reads_wrap)
    moreover have "reads (UnmarshalCLRColumnData_loop m (n + int k) (acc @ ?c)) (clr_chunks m ?r)
        ((acc @ ?c) @ ?r, n + int k + int (length ?r))"
      by (rule less.hyps [OF k(5)]) (use less.prems k(4) in linarith)
    moreover have "\<not> n + int k > maxAllowedCLRLength m" using less.prems k(4) by linarith
    ultimately have "reads (bindE (wrapError ''CLR'' (unmarshalBuffer m (replicate k 0) 0 (int k))) (\<lambda>currentBytes.
         if n + int k > maxAllowedCLRLength m then throwE clr_violation
         else UnmarshalCLRColumnData_loop m (n + int k) (acc @ currentBytes)))
        (?c @ clr_chunks m ?r) ((acc @ ?c) @ ?r, n + int k + int (length ?r))"
      by (intro reads_bindE) (simp_all only: if_False)
    then have "reads (UnmarshalCLRColumnData_loop m n acc)
        (int_bytes m SB4Index (int k) @ ?c @ clr_chunks m ?r) ((acc @ ?c) @ ?r, n + int k + int (length ?r))"
      unfolding UnmarshalCLRColumnData_loop.simps [of m n]
      by (intro reads_bindE [OF UnmarshalSB4_CLR_reads]) (use k(1,2) in simp_all)
    moreover have "clr_chunks m bs = int_bytes m SB4Index (int k) @ ?c @ clr_chunks m ?r"
      unfolding clr_chunks.simps [of m bs] k_def using False by (simp only: if_False)
    moreover have "(acc @ ?c) @ ?r = acc @ bs" "n + int k + int (length ?r) = n + int (length bs)"
      using k(4) by simp_all
    ultimately show ?thesis by (simp only:)
  qed
qed

lemma UnmarshalCLRColumnData_reads:
  assumes "int (length bs) \<le> maxAllowedCLRLength m"
  shows "reads (UnmarshalCLRColumnData m) (clr_bytes m bs) (bs, int (length bs))"
proof (cases "length bs > 252")
  case True
  have "reads (UnmarshalCLRColumnData m) ([0xFE] @ clr_chunks m bs) (bs, int (length bs))"
    unfolding UnmarshalCLRColumnData_def
    by (rule reads_bindE [OF reads_wrap [OF UnmarshalUB1_reads]])
      (use UnmarshalCLRColumnData_loop_reads [of 0 bs "[]"] assms in simp)
  then show ?thesis using True by (simp add: clr_bytes_def)
next
  case False
  have "reads (wrapError ''CLR'' (unmarshalBuffer m (replicate (length bs) 0) 0 (int (length bs)))) bs bs"
    using unmarshalBuffer_reads [of 0 bs "replicate (length bs) 0"] False put_bytes_all [of bs "length bs"]
    by (simp add: reads_wrap)
  then have rd: "reads (bindE (wrapError ''CLR'' (unmarshalBuffer m (replicate (length bs) 0) 0 (int (length bs))))
      (\<lambda>bytes. retE (bytes, int (length bs)))) (bs @ []) (bs, int (length bs))"
    by (rule reads_bindE) (rule reads_retE)
  have "reads (UnmarshalCLRColumnData m) ([word_of_nat (length bs)] @ bs) (bs, int (length bs))"
    unfolding UnmarshalCLRColumnData_def
    by (rule reads_bindE [OF reads_wrap [OF UnmarshalUB1_reads]])
      (use rd False in \<open>simp add: short_length_byte\<close>)
  then show ?thesis using False by (simp add: clr_bytes_def)
qed

end


context marshal_engine
begin

lemma UnmarshalCLR_loop_reads:
  "n \<le> cap \<Longrightarrow> cap \<le> length dest \<Longrightarrow> cap < 2 ^ 31 \<Longrightarrow> length bs \<le> fuel * checkSize \<Longrightarrow>
   reads (UnmarshalCLR_loop (Suc fuel) m (int cap) dest n) (clr_chunks m bs)
     (Some (int (n + min (cap - n) (length bs)), put_bytes n (take (cap - n) bs) dest))"
proof (induction fuel arbitrary: bs n dest)
  case 0
  have "reads (UnmarshalCLR_loop (Suc 0) m (int cap) dest n) (int_bytes m SB4Index 0 @ []) (Some (int n, dest))"
    unfolding UnmarshalCLR_loop.simps by (rule reads_bindE [OF UnmarshalSB4_CLR_0]) (simp add: reads_retE)
  then show ?case using 0 by (simp add: clr_chunks.simps [of m])
next
  case (Suc fuel)
  show ?case
  proof (cases "bs = []")
    case True
    have "reads (UnmarshalCLR_loop (Suc (Suc fuel)) m (int cap) dest n) (int_bytes m SB4Index 0 @ []) (Some (int n, dest))"
      unfolding UnmarshalCLR_loop.simps(2) [of "Suc fuel"]
      by (rule reads_bindE [OF UnmarshalSB4_CLR_0]) (simp add: reads_retE)
    then show ?thesis using True by (simp add: clr_chunks.simps [of m])
  next
    case False
    define k where "k = min checkSize (length bs)"
    define kp where "kp = min (cap - n) k"
    let ?c = "take checkSize bs" and ?r = "drop checkSize bs"
    have k: "0 < k" "k \<le> 32767" "length ?c = k" "length bs = k + length ?r" using False by (auto simp: k_def)
    have r: "length ?r \<le> fuel * checkSize" using Suc.prems(4) by simp
    have kp: "kp \<le> k" "n + kp \<le> cap" using Suc.prems(1) by (auto simp: kp_def)
    let ?d = "put_bytes n (take kp ?c) dest"
    have ih: "reads (UnmarshalCLR_loop (Suc fuel) m (int cap) ?d (n + kp)) (clr_chunks m ?r)
        (Some (int (n + kp + min (cap - (n + kp)) (length ?r)), put_bytes (n + kp) (take (cap - (n + kp)) ?r) ?d))"
      using Suc.prems r kp k(3) by (intro Suc.IH) simp_all
    have res: "n + kp + min (cap - (n + kp)) (length ?r) = n + min (cap - n) (length bs)"
      using k(4) by (simp add: kp_def min_def del: length_drop)
    have cat: "take kp ?c @ take (cap - (n + kp)) ?r = take (cap - n) bs"
    proof (cases "cap - n \<le> k")
      case True
      then show ?thesis using k(3) by (simp add: kp_def min_def k_def split: if_splits)
    next
      case False
      then have "kp = k" "cap - n = k + (cap - (n + k))" by (simp_all add: kp_def)
      then show ?thesis using k(3,4) by (metis append_take_drop_id diff_diff_left k_def length_take take_add
          take_all_iff order_refl min.commute drop_take append_eq_conv_conj)
    qed
    have buf: "put_bytes (n + kp) (take (cap - (n + kp)) ?r) ?d = put_bytes n (take (cap - n) bs) dest"
    proof -
      have "length (take kp ?c) = kp" using kp(1) k(3) by simp
      moreover have "n + kp + length (take (cap - (n + kp)) ?r) \<le> length dest"
        using kp(2) Suc.prems(2) by (auto simp: min_def)
      ultimately show ?thesis
        using put_bytes_put_bytes [of "n + kp" n "take kp ?c" "take (cap - (n + kp)) ?r" dest] unfolding cat by simp
    qed
    have keep: "reads (wrapError ''CLR'' (unmarshalBuffer m dest n (int kp))) (take kp ?c) ?d"
    proof -
      have l: "length (take kp ?c) = kp" using kp(1) k(3) by simp
      have "n + length (take kp ?c) \<le> length dest" unfolding l using kp Suc.prems(2) by linarith
      moreover have "length (take kp ?c) < 2 ^ 31" unfolding l using kp(1) k(2) by simp
      ultimately have "reads (unmarshalBuffer m dest n (int (length (take kp ?c)))) (take kp ?c) ?d"
        by (rule unmarshalBuffer_reads)
      then show ?thesis unfolding l by (rule reads_wrap)
    qed
    have skip: "reads (if int k - int kp > 0
         then bindE (wrapError ''CLR'' (ReadBytesWithContext (dataBuffer m) (swrap 32 (int k - int kp)))) (\<lambda>_.
                UnmarshalCLR_loop (Suc fuel) m (int cap) ?d (n + kp))
         else UnmarshalCLR_loop (Suc fuel) m (int cap) ?d (n + kp))
        (drop kp ?c @ clr_chunks m ?r) (Some (int (n + min (cap - n) (length bs)), put_bytes n (take (cap - n) bs) dest))"
    proof (cases "kp < k")
      case True
      have l: "int k - int kp = int (length (drop kp ?c))" using True k(3) by simp
      have "swrap 32 (int (length (drop kp ?c))) = int (length (drop kp ?c))"
        by (intro swrap_id) simp_all
      moreover have "reads (ReadBytesWithContext D (int (length (drop kp ?c)))) (drop kp ?c) (drop kp ?c)"
        using True k(2,3) by (intro reads_bytes) simp_all
      ultimately have rd: "reads (wrapError ''CLR'' (ReadBytesWithContext (dataBuffer m) (swrap 32 (int k - int kp))))
          (drop kp ?c) (drop kp ?c)"
        unfolding l buffer by (simp only: reads_wrap)
      have "0 < int k - int kp" using True by simp
      then show ?thesis unfolding if_P [OF \<open>0 < int k - int kp\<close>]
        by (intro reads_bindE [OF rd]) (rule ih [unfolded res buf])
    next
      case False
      then have "\<not> 0 < int k - int kp" "drop kp ?c = []" using kp(1) k(3) by simp_all
      then show ?thesis using ih unfolding res buf by (simp only: if_False append_Nil)
    qed
    have nk: "min (int cap - int n) (int k) = int kp" using Suc.prems(1) by (auto simp: kp_def)
    have nn: "nat (int n + int kp) = n + kp" by simp
    have "reads (UnmarshalCLR_loop (Suc (Suc fuel)) m (int cap) dest n)
        (int_bytes m SB4Index (int k) @ take kp ?c @ (drop kp ?c @ clr_chunks m ?r))
        (Some (int (n + min (cap - n) (length bs)), put_bytes n (take (cap - n) bs) dest))"
      unfolding UnmarshalCLR_loop.simps(2) [of "Suc fuel"]
    proof (rule reads_bindE [OF UnmarshalSB4_CLR_reads])
      have "int k \<noteq> 0" "\<not> int k < 0" using k(1) by simp_all
      then show "reads (if int k = 0 then retE (Some (int n, dest))
        else if int k < 0 then throwE (marshal_err ''CLR'')
        else let keepThem = min (int cap - int n) (int k)
             in bindE (wrapError ''CLR'' (unmarshalBuffer m dest n keepThem)) (\<lambda>bytes'.
                  if int k - keepThem > 0
                  then bindE (wrapError ''CLR'' (ReadBytesWithContext (dataBuffer m) (swrap 32 (int k - keepThem)))) (\<lambda>_.
                         UnmarshalCLR_loop (Suc fuel) m (int cap) bytes' (nat (int n + keepThem)))
                  else UnmarshalCLR_loop (Suc fuel) m (int cap) bytes' (nat (int n + keepThem))))
          (take kp ?c @ drop kp ?c @ clr_chunks m ?r)
          (Some (int (n + min (cap - n) (length bs)), put_bytes n (take (cap - n) bs) dest))"
        unfolding Let_def nk nn by (simp only: if_False) (rule reads_bindE [OF keep], rule skip)
    qed (use k(2) in simp)
    moreover have "clr_chunks m bs = int_bytes m SB4Index (int k) @ ?c @ clr_chunks m ?r"
      unfolding clr_chunks.simps [of m bs] k_def using False by (simp only: if_False)
    moreover have "take kp ?c @ (drop kp ?c @ clr_chunks m ?r) = ?c @ clr_chunks m ?r"
      by (metis append_take_drop_id append.assoc)
    ultimately show ?thesis by (simp only:)
  qed
qed


lemma UnmarshalCLR_reads:
  assumes "length bs \<le> length dest" "length dest < 2 ^ 31" "length bs \<le> fuel * checkSize"
  shows "reads (UnmarshalCLR (Suc fuel) m dest (int (length dest))) (clr_bytes m bs)
     (Some (int (length bs), put_bytes 0 bs dest))"
proof (cases "length bs > 252")
  case True
  have "reads (UnmarshalCLR (Suc fuel) m dest (int (length dest))) ([0xFE] @ clr_chunks m bs)
      (Some (int (length bs), put_bytes 0 bs dest))"
    unfolding UnmarshalCLR_def
    by (rule reads_bindE [OF reads_wrap [OF UnmarshalUB1_reads]])
      (use UnmarshalCLR_loop_reads [of 0 "length dest" dest bs fuel] assms in \<open>simp del: UnmarshalCLR_loop.simps\<close>)
  then show ?thesis using True by (simp add: clr_bytes_def)
next
  case False
  have "reads (wrapError ''CLR'' (unmarshalBuffer m dest 0 (int (length bs)))) bs (put_bytes 0 bs dest)"
    using unmarshalBuffer_reads [of 0 bs dest] assms False by (simp add: reads_wrap)
  then have rd: "reads (bindE (wrapError ''CLR'' (unmarshalBuffer m dest 0 (int (length bs))))
      (\<lambda>bytes. retE (Some (int (length bs), bytes)))) (bs @ []) (Some (int (length bs), put_bytes 0 bs dest))"
    by (rule reads_bindE) (rule reads_retE)
  have "reads (UnmarshalCLR (Suc fuel) m dest (int (length dest))) ([word_of_nat (length bs)] @ bs)
      (Some (int (length bs), put_bytes 0 bs dest))"
    unfolding UnmarshalCLR_def
    by (rule reads_bindE [OF reads_wrap [OF UnmarshalUB1_reads]])
      (use rd False in \<open>simp add: short_length_byte\<close>)
  then show ?thesis using False by (simp add: clr_bytes_def)
qed

lemma UnmarshalB1Array_reads:
  assumes "0 < length bs" "length bs < 2 ^ 31"
  shows "reads (UnmarshalB1Array m (int (length bs))) bs bs"
proof -
  have "swrap 32 (int (length bs)) = int (length bs)" using assms(2) by (intro swrap_id) simp_all
  then have "reads (UnmarshalB1Array m (int (length bs))) (bs @ []) bs"
    unfolding UnmarshalB1Array_def buffer using assms
    by (simp only:) (rule reads_bindE [OF reads_wrap [OF reads_bytes]], simp_all add: put_bytes_all reads_retE)
  then show ?thesis by simp
qed

lemma MarshalB1Array_writes: "writes (MarshalB1Array m bs) bs"
  by (simp add: MarshalB1Array_def buffer writes_wrap writes_bytes)

end

subsection \<open>Any buffer, any server\<close>

lemma length_unmarshalBuffer:
  "unmarshalBuffer m dest off len s = (Inr dest', s') \<Longrightarrow> length dest' = length dest"
  by (auto simp: unmarshalBuffer_def readAndCopyToBuffer_def bindE_Inr_iff put_bytes_def split: if_splits)

lemma UnmarshalCLRColumnData_loop_bound:
  "UnmarshalCLRColumnData_loop m n acc s = (Inr (bytes, len), s') \<Longrightarrow> n = int (length acc) \<Longrightarrow>
   n \<le> maxAllowedCLRLength m \<Longrightarrow> len = int (length bytes) \<and> len \<le> maxAllowedCLRLength m"
proof (induction m n acc arbitrary: s rule: UnmarshalCLRColumnData_loop.induct)
  case (1 m n acc)
  from "1.prems"(1) obtain k s1 where k: "wrapError ''CLR'' (UnmarshalSB4 m) s = (Inr k, s1)"
    and rest: "(if k = 0 then retE (acc, n)
       else if k < 0 then throwE clr_violation
       else if k > maximumLongCLRChunkLength then throwE clr_violation
       else bindE (wrapError ''CLR'' (unmarshalBuffer m (replicate (nat k) 0) 0 k)) (\<lambda>currentBytes.
         if n + k > maxAllowedCLRLength m then throwE clr_violation
         else UnmarshalCLRColumnData_loop m (n + k) (acc @ currentBytes))) s1 = (Inr (bytes, len), s')"
    unfolding UnmarshalCLRColumnData_loop.simps [of m n] bindE_Inr_iff by blast
  show ?case
  proof (cases "k = 0")
    case True
    then show ?thesis using rest "1.prems" by auto
  next
    case False
    with rest have kk: "\<not> k < 0" "\<not> k > maximumLongCLRChunkLength" by (auto split: if_splits)
    with False rest obtain cs s2 where cs: "unmarshalBuffer m (replicate (nat k) 0) 0 k s1 = (Inr cs, s2)"
      and more: "(if n + k > maxAllowedCLRLength m then throwE clr_violation
         else UnmarshalCLRColumnData_loop m (n + k) (acc @ cs)) s2 = (Inr (bytes, len), s')"
      by (auto simp: bindE_Inr_iff wrapError_def)
    have l: "int (length cs) = k" using length_unmarshalBuffer [OF cs] kk(1) by simp
    have le: "\<not> n + k > maxAllowedCLRLength m" using more by (auto split: if_splits)
    then have "UnmarshalCLRColumnData_loop m (n + k) (acc @ cs) s2 = (Inr (bytes, len), s')" using more by simp
    then show ?thesis by (rule "1.IH" [OF False kk le]) (use l le "1.prems"(2) in auto)
  qed
qed

text \<open>C6: Whatever a server sends, a CLR column value is never longer than the aggregate limit, and
  the reported length is the length of the value: the reassembly of long values is bounded.\<close>

theorem UnmarshalCLRColumnData_bounded:
  assumes "UnmarshalCLRColumnData m s = (Inr (bytes, len), s')"
  shows "len = int (length bytes) \<and> len \<le> max (2 ^ 26) (2 * defaultLobPrefetchSize m)"
proof -
  from assms obtain f s1 where "(if f = uint espapeValue
       then throwE (wrapErr ''CLR'' (NewOracleError ProtocolViolation None [ArgNil]))
       else if f = uint nullLengthIndicator then retE ([], 0)
       else if f \<le> uint maximumShortValueLength
       then bindE (wrapError ''CLR'' (unmarshalBuffer m (replicate (nat f) 0) 0 f)) (\<lambda>bytes. retE (bytes, f))
       else UnmarshalCLRColumnData_loop m 0 []) s1 = (Inr (bytes, len), s')" "0 \<le> f"
    unfolding UnmarshalCLRColumnData_def bindE_Inr_iff
    by (auto simp: UnmarshalUB1_def wrapError_def bindE_Inr_iff)
  moreover have "0 \<le> maxAllowedCLRLength m" "252 \<le> maxAllowedCLRLength m"
    "maxAllowedCLRLength m = max (2 ^ 26) (2 * defaultLobPrefetchSize m)"
    by (simp_all add: maxAllowedCLRLength_def)
  ultimately show ?thesis
    using UnmarshalCLRColumnData_loop_bound [of m 0 "[]" s1 bytes len s']
    by (auto simp: bindE_Inr_iff wrapError_def simp del: max_def split: if_splits dest!: length_unmarshalBuffer)
qed


theorem UnmarshalCLRColumnData_bounded_witness:
  "(2 :: int) = int (length [7, 8 :: byte]) \<and> (2 :: int) \<le> max (2 ^ 26) (2 * 0)"
proof -
  have "UnmarshalCLRColumnData (NewNativeMarshalEngine list_buffer BIG_ENDIAN) ([2, 7, 8], []) = (Inr ([7, 8], 2), ([], []))"
    by code_simp
  from UnmarshalCLRColumnData_bounded [OF this] show ?thesis by (simp add: NewNativeMarshalEngine_def)
qed

text \<open>The sequence numbers run through 1 to 127 and start again at 1.\<close>

definition next_seq :: "'s MarshalEngine \<Rightarrow> int" where
  "next_seq m = (if sequenceNumber m \<le> 0 then 1 else sequenceNumber m)"

text \<open>C7: Every sequence number written lies between 1 and 127, and the next one is its successor,
  or 1 after 127: the int8 counter wraps to a negative value, which the next call resets.\<close>

theorem marshalSeqNo_cycle:
  assumes "- 128 \<le> sequenceNumber m" "sequenceNumber m \<le> 127" "marshalSeqNo m s = (r, m')"
  shows "1 \<le> next_seq m \<and> next_seq m \<le> 127 \<and>
    next_seq m' = (if next_seq m = 127 then 1 else next_seq m + 1) \<and>
    - 128 \<le> sequenceNumber m' \<and> sequenceNumber m' \<le> 127 \<and>
    (\<forall>v. fst r = Inr v \<longrightarrow> v = next_seq m)"
proof -
  have n: "1 \<le> next_seq m" "next_seq m \<le> 127" using assms(1,2) by (auto simp: next_seq_def)
  have w: "uwrap 8 (next_seq m) = next_seq m" using n by simp
  have m': "m' = m\<lparr>sequenceNumber := swrap 8 (next_seq m + 1)\<rparr>"
    and r: "r = bindE (MarshalUB1 m (next_seq m)) (\<lambda>_. retE (next_seq m)) s"
    using assms(3) w by (auto simp: marshalSeqNo_def next_seq_def Let_def)
  have sw: "swrap 8 (next_seq m + 1) = (if next_seq m = 127 then - 128 else next_seq m + 1)"
    using n by (auto simp: swrap_id) (simp add: swrap_def)
  have "\<forall>v. fst r = Inr v \<longrightarrow> v = next_seq m"
    by (auto simp: r bindE_def split: prod.splits sum.splits)
  moreover have "next_seq m' = (if next_seq m = 127 then 1 else next_seq m + 1)"
    using n sw by (simp add: m' next_seq_def [of "m\<lparr>sequenceNumber := _\<rparr>"])
  ultimately show ?thesis using n sw by (auto simp: m')
qed


theorem marshalSeqNo_cycle_witness:
  "next_seq (snd (marshalSeqNo ((NewNativeMarshalEngine list_buffer BIG_ENDIAN)\<lparr>sequenceNumber := 127\<rparr>) ([], []))) = 1"
proof -
  let ?m = "(NewNativeMarshalEngine list_buffer BIG_ENDIAN)\<lparr>sequenceNumber := 127\<rparr>"
  obtain r m' where r: "marshalSeqNo ?m ([], []) = (r, m')" by (cases "marshalSeqNo ?m ([], [])")
  have "next_seq ?m = 127" by (simp add: next_seq_def)
  then show ?thesis using marshalSeqNo_cycle [of ?m "([], [])" r m'] r by simp
qed

end
