(* ===== verification/NT_Adapter.thy ===== *)
theory NT_Adapter
  imports Go_Strings
begin

text \<open>
  The transport below the network session: the interface \<open>NTAdapter\<close>
  (\<open>network/transport/ntadapter.go\<close>) as a record of operations, its contract as the locale
  \<open>nt_adapter\<close>, and the TCP adapter (\<open>tcpadapter.go\<close>), which provides it.

  A TCP connection delivers a byte stream in segments of any size; how the stream ends or stalls
  is part of its state, since the goroutine of \<open>Receive\<close> then either reports the error of the
  connection or is cancelled by the context. A write either accepts the whole buffer or fails,
  as \<open>io.Writer\<close> requires.
\<close>

subsection \<open>The interface\<close>

text \<open>\<open>Receive(ctx, buf, n)\<close> returns the count and the buffer with the bytes filled in; the count
  that goes with an error is not used by any caller and is left out.\<close>

record 'nt NTAdapter =
  nt_Send :: "byte list \<Rightarrow> ('nt, unit) op"
  nt_Receive :: "byte list \<Rightarrow> nat \<Rightarrow> 'nt \<Rightarrow> int result \<times> byte list \<times> 'nt"
  nt_Disconnect :: "('nt, unit) op"

text \<open>What the session relies on. The first three laws hold of every adapter state: a receive
  keeps the size of the buffer, a successful one takes exactly the bytes it was asked for off
  the wire, and no other operation touches the incoming bytes. The last two are for a live
  connection.\<close>

locale nt_adapter =
  fixes A :: "'nt NTAdapter"
    and wire_in wire_out :: "'nt \<Rightarrow> byte list"
    and live :: "'nt \<Rightarrow> bool"
  assumes receive_length: "nt_Receive A buf n nt = (r, buf', nt') \<Longrightarrow> length buf' = length buf"
    and receive_takes: "nt_Receive A buf n nt = (Inr k, buf', nt') \<Longrightarrow>
      k = int n \<and> n \<le> length buf \<and> (\<exists>bs. length bs = n \<and> wire_in nt = bs @ wire_in nt' \<and> buf' = put_bytes 0 bs buf)"
    and receive_fuel: "nt_Receive A buf n nt = (Inl e, buf', nt') \<Longrightarrow> e \<noteq> OutOfFuel"
    and send_keeps: "nt_Send A bs nt = (res, nt') \<Longrightarrow> wire_in nt' = wire_in nt \<and> res \<noteq> Inl OutOfFuel"
    and receive_live: "live nt \<Longrightarrow> n \<le> length buf \<Longrightarrow> n \<le> length (wire_in nt) \<Longrightarrow>
      \<exists>buf' nt'. nt_Receive A buf n nt = (Inr (int n), buf', nt') \<and> live nt' \<and> wire_out nt' = wire_out nt"
    and send_live: "live nt \<Longrightarrow>
      \<exists>nt'. nt_Send A bs nt = (Inr (), nt') \<and> live nt' \<and> wire_out nt' = wire_out nt @ bs"

subsection \<open>TCP\<close>

text \<open>How a read or write that does not succeed ends: with the connection's error, or with the
  context of the caller done.\<close>

datatype io_end = ConnFails go_error | CtxDone string

record conn =
  incoming :: "byte list list"
  in_end :: io_end
  outgoing :: "byte list"
  out_end :: "io_end option"

text \<open>The attributes of a transport. Certificates and keys of a wallet are bytes.\<close>

record NTattributes =
  at_TCPNODelay :: bool
  at_SendTimeout :: int
  at_RecvTimeout :: int
  at_SendBufSize :: int
  at_RecvBufSize :: int
  at_ExpireTime :: int
  at_SSLServerDNMatch :: bool
  at_SSLAllowWeakDNMatch :: bool
  at_EnabledDCD :: bool
  at_HttpsProxy :: string
  at_HttpsProxyPort :: int
  at_UseSNI :: bool
  at_Transportconnecttimeout :: int
  at_Connectionidprefix :: string
  at_Connectionid :: string
  at_WalletContent :: "byte list option"
  at_WalletPassword :: string
  at_SSLServerCertDN :: string
  at_Servicename :: string
  at_WalletLocation :: string
  at_UseSystemTrust :: bool

definition zero_NTattributes :: NTattributes where
  "zero_NTattributes =
     \<lparr>at_TCPNODelay = False, at_SendTimeout = 0, at_RecvTimeout = 0, at_SendBufSize = 0, at_RecvBufSize = 0,
      at_ExpireTime = 0, at_SSLServerDNMatch = False, at_SSLAllowWeakDNMatch = False, at_EnabledDCD = False,
      at_HttpsProxy = [], at_HttpsProxyPort = 0, at_UseSNI = False, at_Transportconnecttimeout = 0,
      at_Connectionidprefix = [], at_Connectionid = [], at_WalletContent = None, at_WalletPassword = [],
      at_SSLServerCertDN = [], at_Servicename = [], at_WalletLocation = [], at_UseSystemTrust = False\<rparr>"

record nttcp =
  nt_connected :: bool
  nt_host :: string
  nt_hostname :: string
  nt_originHost :: string
  nt_port :: nat
  nt_stream :: "conn option"
  nt_atts :: NTattributes

definition NewNTTCP :: "NTattributes \<Rightarrow> nat \<Rightarrow> nttcp" where
  "NewNTTCP atts port =
     \<lparr>nt_connected = False, nt_host = [], nt_hostname = [], nt_originHost = [], nt_port = port, nt_stream = None, nt_atts = atts\<rparr>"

text \<open>The loop of the reader goroutine: it asks the stream for what is missing until it has the
  \<open>bytes2Read\<close> bytes; the stream hands out at most one segment per call.\<close>

fun Receive_loop :: "nat \<Rightarrow> byte list list \<Rightarrow> nat \<Rightarrow> byte list \<Rightarrow> bool \<times> byte list list \<times> byte list" where
  "Receive_loop bytes2Read [] bytesRead buf = (bytes2Read \<le> bytesRead, [], buf)"
| "Receive_loop bytes2Read (seg # segs) bytesRead buf =
     (if bytesRead < bytes2Read
      then let remainder = bytes2Read - bytesRead
           in if length seg \<le> remainder
              then Receive_loop bytes2Read segs (bytesRead + length seg) (put_bytes bytesRead seg buf)
              else (True, drop remainder seg # segs, put_bytes bytesRead (take remainder seg) buf)
      else (True, seg # segs, buf))"

abbreviation nil_panic :: go_error where
  "nil_panic \<equiv> RuntimePanic ''invalid memory address or nil pointer dereference''"

definition nttcp_Receive :: "byte list \<Rightarrow> nat \<Rightarrow> nttcp \<Rightarrow> int result \<times> byte list \<times> nttcp" where
  "nttcp_Receive buf bytes2Read nt =
     (if bytes2Read > length buf
      then (Inl (NewOracleError InvalidNetworkExpectedLength None
              [ArgStr ''buffer'', ArgInt (int (length buf)), ArgInt (int bytes2Read)]), buf, nt)
      else case nt_stream nt of
          None \<Rightarrow> (Inl nil_panic, buf, nt)
        | Some c \<Rightarrow>
            let (ok, segs, buf') = Receive_loop bytes2Read (incoming c) 0 buf;
                nt' = nt\<lparr>nt_stream := Some (c\<lparr>incoming := segs\<rparr>)\<rparr>
            in if ok then (Inr (int bytes2Read), buf', nt')
               else case in_end c of
                   ConnFails e \<Rightarrow> (Inl (NewOracleError ChannelReadFailed (Some e) []), buf', nt')
                 | CtxDone cause_text \<Rightarrow> (Inl (GoError cause_text), buf', nt'))"

definition nttcp_Send :: "byte list \<Rightarrow> (nttcp, unit) op" where
  "nttcp_Send buf nt =
     (case nt_stream nt of
        None \<Rightarrow> (if buf = [] then (Inr (), nt) else (Inl nil_panic, nt))
      | Some c \<Rightarrow>
          (if buf = [] then (Inr (), nt)
           else case out_end c of
               None \<Rightarrow> (Inr (), nt\<lparr>nt_stream := Some (c\<lparr>outgoing := outgoing c @ buf\<rparr>)\<rparr>)
             | Some (ConnFails e) \<Rightarrow> (Inl (NewOracleError ChannelWriteFailed (Some e) []), nt)
             | Some (CtxDone cause_text) \<Rightarrow>
                 (Inl (NewOracleError CtxTimeout (Some (GoError cause_text))
                    [ArgStr ''send'', ArgStr (nt_host nt @ '':'' @ FormatUint (nt_port nt)), ArgStr (at_Connectionid (nt_atts nt))]), nt)))"

text \<open>Closing a connection that is open does not fail in the model.\<close>

definition nttcp_Disconnect :: "(nttcp, unit) op" where
  "nttcp_Disconnect nt = (Inr (), nt\<lparr>nt_connected := False, nt_stream := None\<rparr>)"

definition tcp_adapter :: "nttcp NTAdapter" where
  "tcp_adapter = \<lparr>nt_Send = nttcp_Send, nt_Receive = nttcp_Receive, nt_Disconnect = nttcp_Disconnect\<rparr>"

definition tcp_in :: "nttcp \<Rightarrow> byte list" where
  "tcp_in nt = (case nt_stream nt of None \<Rightarrow> [] | Some c \<Rightarrow> concat (incoming c))"

definition tcp_out :: "nttcp \<Rightarrow> byte list" where
  "tcp_out nt = (case nt_stream nt of None \<Rightarrow> [] | Some c \<Rightarrow> outgoing c)"

definition tcp_live :: "nttcp \<Rightarrow> bool" where
  "tcp_live nt = (case nt_stream nt of None \<Rightarrow> False | Some c \<Rightarrow> out_end c = None)"

definition tcp_open :: "nttcp \<Rightarrow> bool" where
  "tcp_open nt = (nt_stream nt \<noteq> None)"

lemma put_bytes_append:
  "off + length as + length bs \<le> length buf \<Longrightarrow>
   put_bytes (off + length as) bs (put_bytes off as buf) = put_bytes off (as @ bs) buf"
  by (simp add: put_bytes_def ac_simps)

text \<open>Whatever the segmentation, the loop takes exactly the missing bytes off the stream.\<close>

lemma Receive_loop_takes:
  assumes "Receive_loop n segs k buf = (True, segs', buf')" "k \<le> n" "n \<le> length buf"
  shows "\<exists>bs. length bs = n - k \<and> concat segs = bs @ concat segs' \<and> buf' = put_bytes k bs buf"
  using assms
proof (induction n segs k buf rule: Receive_loop.induct)
  case (1 n k buf)
  then show ?case by (auto simp: put_bytes_def intro!: exI [of _ "[]"])
next
  case (2 n seg segs k buf)
  show ?case
  proof (cases "k < n \<and> length seg \<le> n - k")
    case True
    then have "Receive_loop n segs (k + length seg) (put_bytes k seg buf) = (True, segs', buf')"
      using 2(2) by (simp add: Let_def)
    then obtain bs where "length bs = n - (k + length seg)" "concat segs = bs @ concat segs'"
      "buf' = put_bytes (k + length seg) bs (put_bytes k seg buf)"
      using 2(1) [OF _ refl] True 2(4) by (auto simp: le_diff_conv2 add.commute)
    moreover from this have "length seg + length bs = n - k" "k + length seg + length bs \<le> length buf"
      using True 2(4) by linarith+
    ultimately show ?thesis
      by (intro exI [of _ "seg @ bs"]) (simp add: put_bytes_append)
  next
    case False
    then show ?thesis
      using 2(2-4)
      by (intro exI [of _ "take (n - k) seg"]) (auto simp: Let_def put_bytes_def split: if_splits)
  qed
qed

lemma Receive_loop_ok:
  "k \<le> n \<Longrightarrow> n - k \<le> length (concat segs) \<Longrightarrow> fst (Receive_loop n segs k buf)"
  by (induction n segs k buf rule: Receive_loop.induct) (simp_all add: Let_def)

lemma length_Receive_loop:
  assumes "k \<le> n" "n \<le> length buf" "Receive_loop n segs k buf = (ok, segs', buf')"
  shows "length buf' = length buf"
  using assms
  by (induction n segs k buf rule: Receive_loop.induct) (auto simp: Let_def split: if_splits)

interpretation tcp: nt_adapter tcp_adapter tcp_in tcp_out tcp_live
proof unfold_locales
  fix buf n nt r buf' nt'
  assume "nt_Receive tcp_adapter buf n nt = (r, buf', nt')"
  then show "length buf' = length buf"
    using length_Receive_loop [of 0 n buf]
    by (auto simp: tcp_adapter_def nttcp_Receive_def Let_def split: if_splits option.splits prod.splits io_end.splits)
next
  fix buf n nt k buf' nt'
  assume "nt_Receive tcp_adapter buf n nt = (Inr k, buf', nt')"
  then show "k = int n \<and> n \<le> length buf \<and>
      (\<exists>bs. length bs = n \<and> tcp_in nt = bs @ tcp_in nt' \<and> buf' = put_bytes 0 bs buf)"
    using Receive_loop_takes [of n _ 0 buf]
    by (fastforce simp: tcp_adapter_def nttcp_Receive_def Let_def tcp_in_def
      split: if_splits option.splits prod.splits io_end.splits)
next
  fix buf n nt e buf' nt'
  assume "nt_Receive tcp_adapter buf n nt = (Inl e, buf', nt')"
  then show "e \<noteq> OutOfFuel"
    by (auto simp: tcp_adapter_def nttcp_Receive_def Let_def split: if_splits option.splits prod.splits io_end.splits)
next
  fix bs nt r nt'
  assume "nt_Send tcp_adapter bs nt = (r, nt')"
  then show "tcp_in nt' = tcp_in nt \<and> r \<noteq> Inl OutOfFuel"
    by (auto simp: tcp_adapter_def nttcp_Send_def tcp_in_def split: if_splits option.splits io_end.splits)
next
  fix nt n and buf :: "byte list"
  assume "tcp_live nt" "n \<le> length buf" "n \<le> length (tcp_in nt)"
  then obtain c where c: "nt_stream nt = Some c" "out_end c = None" "n \<le> length (concat (incoming c))"
    by (auto simp: tcp_live_def tcp_in_def split: option.splits)
  then obtain segs buf' where "Receive_loop n (incoming c) 0 buf = (True, segs, buf')"
    using Receive_loop_ok [of 0 n "incoming c" buf] by (metis diff_zero le0 prod.collapse)
  then show "\<exists>buf' nt'. nt_Receive tcp_adapter buf n nt = (Inr (int n), buf', nt') \<and> tcp_live nt' \<and> tcp_out nt' = tcp_out nt"
    using c \<open>n \<le> length buf\<close> by (simp add: tcp_adapter_def nttcp_Receive_def tcp_live_def tcp_out_def)
next
  fix nt bs
  assume "tcp_live nt"
  then show "\<exists>nt'. nt_Send tcp_adapter bs nt = (Inr (), nt') \<and> tcp_live nt' \<and> tcp_out nt' = tcp_out nt @ bs"
    by (auto simp: tcp_adapter_def nttcp_Send_def tcp_live_def tcp_out_def split: option.splits)
qed

end
