(* ===== verification/NS_Packet.thy ===== *)
theory NS_Packet
  imports NT_Adapter
begin

text \<open>
  The packets of Oracle Net (\<open>network/session/packets.go\<close>, \<open>constants.go\<close>): the eight-byte
  header and the connect, accept, refuse, redirect, resend, marker, control and data packets.
  Every packet type is a record; reading outside a slice is the panic of \<open>rd_u8\<close>, \<open>rd_u16\<close>,
  \<open>rd_u32\<close> and \<open>rd_bytes\<close>, so that the length checks of the code are what keeps a packet from
  the network from crashing the driver.
\<close>

subsection \<open>Constants\<close>

abbreviation "NSPTCN \<equiv> (1 :: int)"
abbreviation "NSPTAC \<equiv> (2 :: int)"
abbreviation "NSPTRF \<equiv> (4 :: int)"
abbreviation "NSPTRD \<equiv> (5 :: int)"
abbreviation "NSPTDA \<equiv> (6 :: int)"
abbreviation "NSPTRS \<equiv> (11 :: int)"
abbreviation "NSPTMK \<equiv> (12 :: int)"
abbreviation "NSPTCNL \<equiv> (14 :: int)"

abbreviation "PACKET_HEADER_SIZE \<equiv> (8 :: nat)"
abbreviation "NSPDAFLG \<equiv> (8 :: nat)"
abbreviation "NSPDADAT \<equiv> (10 :: nat)"
abbreviation "NSPDAFEOF \<equiv> (0x40 :: int)"
abbreviation "NSPDAFCMP \<equiv> (0x400 :: int)"
abbreviation "NSPMKDAT \<equiv> (10 :: nat)"
abbreviation "NSPMKTYP \<equiv> (8 :: nat)"
abbreviation "NSPMKTD0 \<equiv> (0 :: int)"
abbreviation "NSPMKTD1 \<equiv> (1 :: int)"
abbreviation "NIQBMARK \<equiv> (1 :: int)"
abbreviation "NIQRMARK \<equiv> (2 :: int)"
abbreviation "NIQIMARK \<equiv> (3 :: int)"
abbreviation "NSPMNSDULN \<equiv> (512 :: int)"
abbreviation "NSPMXSDULN \<equiv> (65535 :: int)"
abbreviation "NSPABSSDULN \<equiv> (2097152 :: int)"
abbreviation "NSPMNTDULN \<equiv> (255 :: int)"
abbreviation "NSPMXTDULN \<equiv> (2097152 :: int)"
abbreviation "TNS_VERSION_DESIRED \<equiv> (319 :: int)"
abbreviation "TNS_VERSION_MINIMUM \<equiv> (300 :: int)"
abbreviation "TNS_VERSION_MIN_DATA_FLAGS \<equiv> (318 :: int)"
abbreviation "NETWORK_COMPRESSION_ZLIB \<equiv> (2 :: int)"
abbreviation "MAX_CDATA_LEN \<equiv> (230 :: nat)"
abbreviation "NSPCNL \<equiv> (74 :: nat)"
abbreviation "NSPCNDAT \<equiv> (74 :: nat)"

subsection \<open>Session attributes\<close>

record sessionAtts =
  largeSDU :: bool
  sdu :: int
  tdu :: int
  networkCompressionThreshold :: int
  networkCompression :: bool
  networkCompressionLevels :: "string list"
  naFlags :: int
  negotiatedNetworkCompressionScheme :: int
  networkCompressionEnabled :: bool
  firstRecvCompressedPacket :: bool
  firstSendCompressedPacket :: bool
  version :: int
  options :: int
  sa_nt :: NTattributes
  uuid :: string
  connectTimeout :: int
  recvTimeout :: int
  sendTimeout :: int

definition newSessionAtts :: "string \<Rightarrow> sessionAtts" where
  "newSessionAtts u =
     \<lparr>largeSDU = False, sdu = 8192, tdu = 2097152, networkCompressionThreshold = 1024,
      networkCompression = False, networkCompressionLevels = [], naFlags = 8,
      negotiatedNetworkCompressionScheme = 0, networkCompressionEnabled = False,
      firstRecvCompressedPacket = False, firstSendCompressedPacket = False, version = 0, options = 0,
      sa_nt = zero_NTattributes\<lparr>at_TCPNODelay := True, at_SSLServerDNMatch := True\<rparr>, uuid = u, connectTimeout = 0, recvTimeout = 0, sendTimeout = 0\<rparr>"

definition clamp :: "int \<Rightarrow> int \<Rightarrow> int \<Rightarrow> int" where
  "clamp val lo hi = (if val < lo then lo else if val > hi then hi else val)"

definition contains :: "string list \<Rightarrow> string \<Rightarrow> bool" where
  "contains strs item = list_ex (\<lambda>s. s = item) strs"

subsection \<open>Header\<close>

record header =
  packetLength :: int
  packetChecksum :: int
  ptyp :: int
  flags :: int
  headerChecksum :: int

definition empty_header :: header where
  "empty_header = \<lparr>packetLength = 0, packetChecksum = 0, ptyp = 0, flags = 0, headerChecksum = 0\<rparr>"

definition put_u8 :: "nat \<Rightarrow> int \<Rightarrow> byte list \<Rightarrow> byte list" where
  "put_u8 off v buf = put_bytes off (be_bytes 1 v) buf"

definition put_u16 :: "nat \<Rightarrow> int \<Rightarrow> byte list \<Rightarrow> byte list" where
  "put_u16 off v buf = put_bytes off (be_bytes 2 v) buf"

definition put_u32 :: "nat \<Rightarrow> int \<Rightarrow> byte list \<Rightarrow> byte list" where
  "put_u32 off v buf = put_bytes off (be_bytes 4 v) buf"

text \<open>\<open>header.marshal\<close>: it writes the flags it is given, not those of the header.\<close>

definition header_marshal :: "header \<Rightarrow> byte list \<Rightarrow> sessionAtts \<Rightarrow> int \<Rightarrow> byte list result" where
  "header_marshal h buffer sAtts fl =
     (if length buffer < PACKET_HEADER_SIZE then Inl index_panic
      else
        let b1 = (if largeSDU sAtts then put_u32 0 (packetLength h) buffer
                  else put_u16 2 0 (put_u16 0 (uwrap 16 (packetLength h)) buffer));
            b2 = put_u8 4 (uwrap 8 (ptyp h)) b1;
            b3 = put_u8 5 fl b2
        in Inr (put_u16 6 (headerChecksum h) b3))"

definition header_unmarshal :: "byte list \<Rightarrow> sessionAtts \<Rightarrow> header result" where
  "header_unmarshal buffer sAtts =
     (if length buffer < 8
      then Inl (NewOracleError InvalidNetworkExpectedLength None
             [ArgStr ''packet header'', ArgInt (int (length buffer)), ArgInt 8])
      else
        andThen (if largeSDU sAtts then andThen (rd_u32 buffer 0) (\<lambda>l. Inr (l, 0))
                 else andThen (rd_u16 buffer 0) (\<lambda>l. andThen (rd_u16 buffer 2) (\<lambda>c. Inr (l, c)))) (\<lambda>(len, csum).
        andThen (rd_u8 buffer 4) (\<lambda>t.
        andThen (rd_u8 buffer 5) (\<lambda>f.
        andThen (rd_u16 buffer 6) (\<lambda>hc.
          Inr \<lparr>packetLength = len, packetChecksum = csum, ptyp = t, flags = f, headerChecksum = hc\<rparr>)))))"

subsection \<open>Connect packet\<close>

record connectPacket =
  cp_hdr :: header
  connectData :: "byte list"
  connectDataLen :: nat
  cp_overflow :: bool
  cp_buf :: "byte list"

definition connectPacket_marshal :: "byte list \<Rightarrow> sessionAtts \<Rightarrow> int \<Rightarrow> connectPacket result" where
  "connectPacket_marshal cdata sAtts fl =
     (let n = length cdata;
          over = \<not> (n \<le> MAX_CDATA_LEN);
          size = (if n \<le> MAX_CDATA_LEN then NSPCNL + n else NSPCNL);
          h = empty_header\<lparr>packetLength := int size, ptyp := NSPTCN, flags := fl\<rparr>
      in andThen (header_marshal h (replicate size 0) sAtts 0) (\<lambda>b0.
         let capped = (\<lambda>v. if v > NSPMXSDULN then NSPMXSDULN else v);
             compressionField =
               (if networkCompression sAtts
                then 0x8000 + (if contains (networkCompressionLevels sAtts) ''high'' then 0x800 else 0)
                else 0);
             b1 = put_u16 8 TNS_VERSION_DESIRED b0;
             b2 = put_u16 10 TNS_VERSION_MINIMUM b1;
             b3 = put_u16 12 1 b2;
             b4 = put_u16 14 (uwrap 16 (capped (sdu sAtts))) b3;
             b5 = put_u16 16 (uwrap 16 (capped (tdu sAtts))) b4;
             b6 = put_u16 20 0 (put_u16 18 0 b5);
             b7 = put_u16 22 1 b6;
             b8 = put_u16 24 (uwrap 16 (int n)) b7;
             b9 = put_u16 26 (int NSPCNDAT) b8;
             b10 = put_u8 33 (uwrap 8 (naFlags sAtts)) (put_u8 32 (uwrap 8 (naFlags sAtts)) b9);
             b11 = put_u16 56 0 (put_u16 54 0 (put_u16 52 0 (put_u16 50 0 b10)));
             b12 = put_u32 62 (uwrap 32 (tdu sAtts)) (put_u32 58 (uwrap 32 (sdu sAtts)) b11);
             b13 = put_u32 70 0 (put_u16 66 compressionField b12);
             b14 = (if \<not> over \<and> n > 0 then put_bytes NSPCNDAT cdata b13 else b13)
         in Inr \<lparr>cp_hdr = h, connectData = cdata, connectDataLen = n, cp_overflow = over, cp_buf = b14\<rparr>))"

subsection \<open>Data packet\<close>

record dataPacket =
  dp_hdr :: header
  dp_offset :: int
  dp_len :: int
  dp_bufLen :: int
  dp_buf :: "byte list"

definition empty_dataPacket :: dataPacket where
  "empty_dataPacket = \<lparr>dp_hdr = empty_header, dp_offset = 0, dp_len = 0, dp_bufLen = 0, dp_buf = []\<rparr>"

definition Remaining :: "dataPacket \<Rightarrow> int" where
  "Remaining dp = dp_len dp - dp_offset dp"

definition dp_ReadByte :: "(dataPacket, byte) op" where
  "dp_ReadByte dp =
     (if dp_offset dp < dp_len dp
      then if 0 \<le> dp_offset dp \<and> dp_offset dp < int (length (dp_buf dp))
           then (Inr (dp_buf dp ! nat (dp_offset dp)), dp\<lparr>dp_offset := dp_offset dp + 1\<rparr>)
           else (Inl index_panic, dp)
      else (Inl io_EOF, dp))"

text \<open>\<open>dp.buf[off:off+n]\<close> panics when the bounds are out of order or out of the buffer.\<close>

definition dp_Read :: "int \<Rightarrow> (dataPacket, byte list) op" where
  "dp_Read numBytes dp =
     (if dp_offset dp + numBytes \<le> dp_len dp
      then if 0 \<le> numBytes \<and> 0 \<le> dp_offset dp \<and> dp_offset dp + numBytes \<le> int (length (dp_buf dp))
           then (Inr (take (nat numBytes) (drop (nat (dp_offset dp)) (dp_buf dp))),
                 dp\<lparr>dp_offset := dp_offset dp + numBytes\<rparr>)
           else (Inl (RuntimePanic ''slice bounds out of range''), dp)
      else (Inl io_EOF, dp))"

definition dataPacket_marshal :: "byte list \<Rightarrow> dataPacket \<Rightarrow> dataPacket" where
  "dataPacket_marshal buf dp =
     dp\<lparr>dp_buf := buf, dp_bufLen := int (length buf), dp_len := int (length buf),
        dp_hdr := empty_header\<lparr>ptyp := NSPTDA\<rparr>, dp_offset := int NSPDADAT\<rparr>"

text \<open>\<open>FillBuf\<close> copies what fits and returns the number of bytes copied; \<open>off\<close> and \<open>n\<close> lie in
  the caller's slice.\<close>

definition FillBuf :: "byte list \<Rightarrow> nat \<Rightarrow> nat \<Rightarrow> dataPacket \<Rightarrow> int \<times> dataPacket" where
  "FillBuf userBuf off n dp =
     (let bytes2Copy = (if int n > dp_bufLen dp - dp_offset dp then dp_bufLen dp - dp_offset dp else int n);
          dp' = (if bytes2Copy > 0
                 then dp\<lparr>dp_buf := put_bytes (nat (dp_offset dp)) (take (nat bytes2Copy) (drop off userBuf)) (dp_buf dp)\<rparr>
                 else dp)
      in (bytes2Copy, dp'\<lparr>dp_offset := dp_offset dp + bytes2Copy\<rparr>))"

definition Prepare2Send :: "int \<Rightarrow> sessionAtts \<Rightarrow> dataPacket \<Rightarrow> dataPacket result" where
  "Prepare2Send fl sAtts dp =
     (let h = (dp_hdr dp)\<lparr>packetLength := uwrap 32 (dp_offset dp)\<rparr>
      in andThen (header_marshal h (dp_buf dp) sAtts 0) (\<lambda>b.
         if length b < NSPDADAT then Inl index_panic
         else Inr (dp\<lparr>dp_hdr := h, dp_buf := put_u16 NSPDAFLG fl b\<rparr>)))"

definition dp_Reset :: "dataPacket \<Rightarrow> dataPacket" where
  "dp_Reset dp = dp\<lparr>dp_offset := int NSPDADAT\<rparr>"

definition dataPacket_unmarshal :: "byte list \<Rightarrow> header \<Rightarrow> (dataPacket, unit) op" where
  "dataPacket_unmarshal buffer hdr dp =
     (if packetLength hdr < int NSPDADAT
      then (Inl (NewOracleError InvalidNetworkContextExpectedLength None
              [ArgStr ''packet'', ArgStr ''NSPTDA'', ArgInt (packetLength hdr), ArgInt (int NSPDADAT)]), dp)
      else (Inr (), dp\<lparr>dp_hdr := hdr, dp_buf := buffer, dp_offset := int NSPDADAT, dp_len := packetLength hdr\<rparr>))"

subsection \<open>Accept, refuse, redirect and resend packets\<close>

abbreviation packet_len_err :: "string \<Rightarrow> nat \<Rightarrow> nat \<Rightarrow> go_error" where
  "packet_len_err name got want \<equiv> NewOracleError InvalidNetworkContextExpectedLength None
     [ArgStr ''packet'', ArgStr name, ArgInt (int got), ArgInt (int want)]"

record acceptPacket =
  ap_hdr :: header
  ap_buf :: "byte list"
  ap_len :: nat
  ap_cflag :: int
  ap_flag0 :: int
  ap_flag1 :: int

text \<open>The part for version 3.15 and later: large SDU and the compression flag. It returns the
  two sizes and the flag, and sets the compression fields of the session.\<close>

definition accept_largeSDU :: "byte list \<Rightarrow> (sessionAtts, int \<times> int \<times> int) op" where
  "accept_largeSDU buffer =
     (if length buffer < 40 then throwE (packet_len_err ''NSPTAC'' (length buffer) 40)
      else
        bindE (liftE (rd_u32 buffer 32)) (\<lambda>s0.
        bindE (liftE (rd_u32 buffer 36)) (\<lambda>t0.
        bindE (modE (\<lambda>a. a\<lparr>largeSDU := True\<rparr>)) (\<lambda>_.
        if length buffer < 41 then throwE (packet_len_err ''NSPTAC'' (length buffer) 41)
        else
          bindE (liftE (rd_u8 buffer 40)) (\<lambda>cflag.
          let scheme = (cflag AND 0x3C) div 4;
              sizes = (clamp s0 NSPMNSDULN NSPABSSDULN, clamp t0 NSPMNTDULN NSPMXTDULN, cflag)
          in if cflag AND 0x80 \<noteq> 0
             then if scheme \<noteq> NETWORK_COMPRESSION_ZLIB
                  then throwE (NewOracleError InvalidNetworkValue None
                         [ArgStr ''network compression scheme'', ArgInt scheme])
                  else bindE (modE (\<lambda>a. a\<lparr>negotiatedNetworkCompressionScheme := scheme,
                           networkCompressionEnabled := True, firstRecvCompressedPacket := True,
                           firstSendCompressedPacket := True\<rparr>)) (\<lambda>_. retE sizes)
             else bindE (modE (\<lambda>a. a\<lparr>networkCompressionEnabled := False\<rparr>)) (\<lambda>_. retE sizes))))))"

definition acceptPacket_unmarshal :: "byte list \<Rightarrow> header \<Rightarrow> (sessionAtts, acceptPacket) op" where
  "acceptPacket_unmarshal buffer hdr =
     (if length buffer < 24 then throwE (packet_len_err ''NSPTAC'' (length buffer) 24)
      else
        bindE (liftE (rd_u16 buffer 8)) (\<lambda>v.
        bindE (modE (\<lambda>a. a\<lparr>version := v\<rparr>)) (\<lambda>_.
        bindE (liftE (rd_u16 buffer 10)) (\<lambda>opt.
        bindE (modE (\<lambda>a. a\<lparr>options := opt\<rparr>)) (\<lambda>_.
        bindE (liftE (rd_u16 buffer 12)) (\<lambda>s0.
        bindE (liftE (rd_u16 buffer 14)) (\<lambda>t0.
        bindE (if v \<ge> 315 then accept_largeSDU buffer
               else retE (clamp s0 NSPMNSDULN NSPMXSDULN, clamp t0 NSPMNTDULN NSPMXTDULN, 0)) (\<lambda>(s, t, cflag).
        bindE (modE (\<lambda>a. a\<lparr>sdu := s, tdu := t\<rparr>)) (\<lambda>_.
        bindE (liftE (rd_u8 buffer 22)) (\<lambda>f0.
        bindE (liftE (rd_u8 buffer 23)) (\<lambda>f1.
          retE \<lparr>ap_hdr = hdr, ap_buf = buffer, ap_len = length buffer, ap_cflag = cflag,
                ap_flag0 = f0, ap_flag1 = f1\<rparr>)))))))))))"

record refusePacket =
  rf_hdr :: header
  rf_buf :: "byte list"
  userReason :: int
  systemReason :: int
  rf_dataLen :: int
  rf_dataOff :: nat
  rf_dataBuf :: "byte list"
  rf_overflow :: bool

definition refusePacket_unmarshal :: "byte list \<Rightarrow> header \<Rightarrow> refusePacket result" where
  "refusePacket_unmarshal buffer hdr =
     (if length buffer < 12 then Inl (packet_len_err ''NSPTRF'' (length buffer) 12)
      else
        andThen (rd_u8 buffer 8) (\<lambda>u.
        andThen (rd_u8 buffer 9) (\<lambda>s.
        andThen (rd_u16 buffer 10) (\<lambda>l.
        andThen (if packetLength hdr > 12
                 then andThen (rd_bytes buffer 12 (nat (packetLength hdr - 12))) (\<lambda>d. Inr (d, False))
                 else Inr ([], True)) (\<lambda>(d, over).
          Inr \<lparr>rf_hdr = hdr, rf_buf = buffer, userReason = u, systemReason = s, rf_dataLen = l,
               rf_dataOff = 12, rf_dataBuf = d, rf_overflow = over\<rparr>)))))"

record redirectPacket =
  rd_hdr :: header
  rd_buf :: "byte list"
  rd_dataLen :: int
  rd_dataOff :: nat
  rd_dataBuf :: "byte list"
  rd_overflow :: bool

definition redirectPacket_unmarshal :: "byte list \<Rightarrow> header \<Rightarrow> redirectPacket result" where
  "redirectPacket_unmarshal buffer hdr =
     (if length buffer < 10 then Inl (packet_len_err ''NSPTRD'' (length buffer) 10)
      else
        andThen (rd_u16 buffer 8) (\<lambda>l.
        andThen (if packetLength hdr > 10
                 then andThen (rd_bytes buffer 10 (nat (packetLength hdr - 10))) (\<lambda>d. Inr (d, False))
                 else Inr ([], True)) (\<lambda>(d, over).
          Inr \<lparr>rd_hdr = hdr, rd_buf = buffer, rd_dataLen = l, rd_dataOff = 10, rd_dataBuf = d,
               rd_overflow = over\<rparr>)))"

record resendPacket =
  rs_hdr :: header
  rs_buf :: "byte list"

definition resendPacket_unmarshal :: "byte list \<Rightarrow> header \<Rightarrow> resendPacket result" where
  "resendPacket_unmarshal buffer hdr =
     (if length buffer < 8 then Inl (packet_len_err ''NSPTRS'' (length buffer) 8)
      else Inr \<lparr>rs_hdr = hdr, rs_buf = buffer\<rparr>)"

subsection \<open>Marker packet\<close>

record markerPacket =
  mp_hdr :: header
  mp_buf :: "byte list"
  markerType :: int
  mp_data :: int

definition markerPacket_marshal :: "sessionAtts \<Rightarrow> int \<Rightarrow> markerPacket result" where
  "markerPacket_marshal sAtts d =
     (let h = empty_header\<lparr>packetLength := int (NSPMKDAT + 1), ptyp := NSPTMK\<rparr>
      in andThen (header_marshal h (replicate (NSPMKDAT + 1) 0) sAtts 0) (\<lambda>b.
         Inr \<lparr>mp_hdr = h, mp_buf = put_u8 NSPMKDAT d (put_u8 NSPMKTYP NSPMKTD1 b),
              markerType = NSPMKTD1, mp_data = d\<rparr>))"

definition markerPacket_unmarshal :: "byte list \<Rightarrow> header \<Rightarrow> markerPacket result" where
  "markerPacket_unmarshal buffer hdr =
     (if length buffer < NSPMKDAT + 1 then Inl (packet_len_err ''NSPTMK'' (length buffer) (NSPMKDAT + 1))
      else
        andThen (rd_u8 buffer NSPMKTYP) (\<lambda>t.
        andThen (rd_u8 buffer NSPMKDAT) (\<lambda>d.
          Inr \<lparr>mp_hdr = hdr, mp_buf = buffer, markerType = t, mp_data = d\<rparr>)))"

subsection \<open>Control packet\<close>

record controlPacket =
  ct_hdr :: header
  errno :: int
  notif :: "byte list"
  notifLen :: int
  cmd :: int
  isNotification :: bool

definition empty_controlPacket :: controlPacket where
  "empty_controlPacket =
     \<lparr>ct_hdr = empty_header, errno = 0, notif = [], notifLen = 0, cmd = 0, isNotification = False\<rparr>"

definition Clear :: "controlPacket \<Rightarrow> controlPacket" where
  "Clear cp = cp\<lparr>errno := 0, notif := [], notifLen := 0, cmd := 0, isNotification := False\<rparr>"

abbreviation inband_err :: "string \<Rightarrow> int \<Rightarrow> go_error" where
  "inband_err prefix n \<equiv> NewOracleError ErrConnectionInband
     (Some (NewOracleError NetworkServerErrorCode None [ArgStr prefix, ArgStr (FormatInt n)])) []"

definition controlPacket_unmarshal :: "byte list \<Rightarrow> header \<Rightarrow> (controlPacket, unit) op" where
  "controlPacket_unmarshal buffer hdr =
     (if length buffer < 10 then throwE (packet_len_err ''NSPTCNL'' (length buffer) 10)
      else
        bindE (modE (\<lambda>cp. cp\<lparr>ct_hdr := hdr\<rparr>)) (\<lambda>_.
        bindE (liftE (rd_u16 buffer 8)) (\<lambda>c.
        bindE (modE (\<lambda>cp. cp\<lparr>cmd := c\<rparr>)) (\<lambda>_.
        if c \<noteq> 8 then throwE (NewOracleError InvalidNetworkValue None [ArgStr ''control command'', ArgInt c])
        else if length buffer < 22 then throwE (packet_len_err ''NSPTCNL'' (length buffer) 22)
        else
          bindE (liftE (rd_u32 buffer 10)) (\<lambda>emfi.
          bindE (liftE (rd_u32 buffer 14)) (\<lambda>err1.
          bindE (liftE (rd_u32 buffer 18)) (\<lambda>err2.
          if err1 = 12572 then modE (\<lambda>cp. cp\<lparr>errno := err1, isNotification := True\<rparr>)
          else if err1 = 12573
          then bindE (modE (\<lambda>cp. cp\<lparr>isNotification := True, errno := err1, notifLen := err2\<rparr>)) (\<lambda>_.
                 if length buffer < 22 + nat err2
                 then throwE (packet_len_err ''NSPTCNL'' (length buffer) (22 + nat err2))
                 else bindE (liftE (rd_bytes buffer 22 (nat err2))) (\<lambda>d. modE (\<lambda>cp. cp\<lparr>notif := d\<rparr>)))
          else bindE (modE (\<lambda>cp. cp\<lparr>errno := err1, isNotification := False\<rparr>)) (\<lambda>_.
                 throwE (inband_err (if emfi = 22 then ''ORA'' else ''TNS'') err1)))))))))"

subsection \<open>Reading and writing fields\<close>

named_theorems wire_field_simps "reads after writes in a buffer"

lemma take_drop_put_same [wire_field_simps]:
  "n = length bs \<Longrightarrow> off + n \<le> length buf \<Longrightarrow> take n (drop off (put_bytes off bs buf)) = bs"
  by (simp add: put_bytes_def)

lemma take_drop_put_before [wire_field_simps]:
  "off' + n \<le> off \<Longrightarrow> off \<le> length buf \<Longrightarrow> take n (drop off' (put_bytes off bs buf)) = take n (drop off' buf)"
  by (simp add: put_bytes_def take_drop min_def)

lemma take_put_same [wire_field_simps]: "n = length bs \<Longrightarrow> n \<le> length buf \<Longrightarrow> take n (put_bytes 0 bs buf) = bs"
  by (simp add: put_bytes_def)

lemma take_put_before [wire_field_simps]: "n \<le> off \<Longrightarrow> off \<le> length buf \<Longrightarrow> take n (put_bytes off bs buf) = take n buf"
  by (simp add: put_bytes_def)

lemma be_val_single [wire_field_simps]: "be_val [b] = uint b"
  by (simp add: be_val_Cons)

lemma drop_put_after [wire_field_simps]:
  "off + length bs \<le> off' \<Longrightarrow> off + length bs \<le> length buf \<Longrightarrow> drop off' (put_bytes off bs buf) = drop off' buf"
  by (simp add: put_bytes_def)

lemma drop_put_end [wire_field_simps]:
  "off + length bs = length buf \<Longrightarrow> drop off (put_bytes off bs buf) = bs"
  by (simp add: put_bytes_def)

lemma header_roundtrip:
  assumes "PACKET_HEADER_SIZE \<le> length buf" "0 \<le> packetLength h"
    "packetLength h < (if largeSDU a then 2 ^ 32 else 2 ^ 16)"
    "0 \<le> ptyp h" "ptyp h < 256" "0 \<le> fl" "fl < 256" "0 \<le> headerChecksum h" "headerChecksum h < 65536"
  shows "\<exists>b. header_marshal h buf a fl = Inr b \<and> length b = length buf \<and> drop 8 b = drop 8 buf \<and>
    header_unmarshal b a = Inr \<lparr>packetLength = packetLength h, packetChecksum = 0, ptyp = ptyp h, flags = fl,
      headerChecksum = headerChecksum h\<rparr>"
  using assms
  by (cases "largeSDU a")
    (simp_all add: header_marshal_def header_unmarshal_def Let_def put_u8_def put_u16_def put_u32_def wire_field_simps)


text \<open>C8: A marker packet built by the driver is read back as a marker with the same data byte, with
  either header layout.\<close>

theorem marker_roundtrip:
  assumes "0 \<le> d" "d < 256"
  shows "\<exists>p h. markerPacket_marshal a d = Inr p \<and> header_unmarshal (mp_buf p) a = Inr h \<and> ptyp h = NSPTMK \<and>
    packetLength h = int (length (mp_buf p)) \<and>
    (\<exists>p'. markerPacket_unmarshal (mp_buf p) h = Inr p' \<and> markerType p' = NSPMKTD1 \<and> mp_data p' = d)"
  using assms
  by (cases "largeSDU a")
    (simp_all add: markerPacket_marshal_def header_marshal_def header_unmarshal_def markerPacket_unmarshal_def
      empty_header_def Let_def put_u8_def put_u16_def put_u32_def wire_field_simps)

theorem marker_roundtrip_witness:
  "\<exists>p h. markerPacket_marshal (newSessionAtts []) NIQRMARK = Inr p \<and>
    header_unmarshal (mp_buf p) (newSessionAtts []) = Inr h \<and> ptyp h = NSPTMK \<and> packetLength h = int (length (mp_buf p)) \<and>
    (\<exists>p'. markerPacket_unmarshal (mp_buf p) h = Inr p' \<and> markerType p' = NSPMKTD1 \<and> mp_data p' = NIQRMARK)"
  using marker_roundtrip [of NIQRMARK "newSessionAtts []"] by simp

subsection \<open>Packets from the network\<close>

lemma clamp_bounds: "lo \<le> hi \<Longrightarrow> lo \<le> clamp v lo hi" "lo \<le> hi \<Longrightarrow> clamp v lo hi \<le> hi"
  by (auto simp: clamp_def)

lemma accept_largeSDU_ok:
  assumes "accept_largeSDU buf a = (Inr (s, t, c), a')"
  shows "512 \<le> s" "s \<le> 2097152" "255 \<le> t" "t \<le> 2097152" "largeSDU a'"
    "networkCompressionEnabled a' \<Longrightarrow> negotiatedNetworkCompressionScheme a' = NETWORK_COMPRESSION_ZLIB"
  using assms clamp_bounds by (auto simp: accept_largeSDU_def Let_def split: if_splits)

lemma acceptPacket_unmarshal_cases:
  assumes "acceptPacket_unmarshal buf h a = (Inr p, a')"
  obtains s t c b a1 where
    "accept_largeSDU buf b = (Inr (s, t, c), a1)" "a' = a1\<lparr>sdu := s, tdu := t\<rparr>"
  | s t b where "a' = b\<lparr>sdu := clamp s NSPMNSDULN NSPMXSDULN, tdu := clamp t NSPMNTDULN NSPMXTDULN\<rparr>"
    "networkCompressionEnabled b = networkCompressionEnabled a"
proof -
  have "24 \<le> length buf"
    using assms by (simp add: acceptPacket_unmarshal_def split: if_splits)
  then show thesis
    using assms that
    by (cases "315 \<le> be_val (take 2 (drop 8 buf))") (force simp: acceptPacket_unmarshal_def bindE_Inr_iff)+
qed

text \<open>C5: Whatever a listener puts in its accept packet, the SDU and TDU that size the driver's
  buffers stay within the protocol's bounds, and compression is only ever switched on with
  the one scheme that is implemented and together with the large header.\<close>

theorem accept_sdu_bounded:
  assumes "acceptPacket_unmarshal buf h a = (Inr p, a')" "\<not> networkCompressionEnabled a"
  shows "512 \<le> sdu a' \<and> sdu a' \<le> 2097152 \<and> 255 \<le> tdu a' \<and> tdu a' \<le> 2097152 \<and>
    (networkCompressionEnabled a' \<longrightarrow>
      largeSDU a' \<and> negotiatedNetworkCompressionScheme a' = NETWORK_COMPRESSION_ZLIB)"
  using assms(1)
proof (cases rule: acceptPacket_unmarshal_cases)
  case 1
  then show ?thesis using accept_largeSDU_ok [OF 1(1)] by simp
next
  case (2 s t b)
  then show ?thesis
    using assms(2) clamp_bounds [of NSPMNSDULN NSPMXSDULN s] clamp_bounds [of NSPMNTDULN NSPMXTDULN t] by simp
qed


theorem accept_sdu_bounded_witness:
  "\<exists>p a'. acceptPacket_unmarshal (replicate 8 0 @ [1, 59] @ replicate 20 0xFF @ replicate 10 0xFF @ [0]) empty_header (newSessionAtts []) = (Inr p, a') \<and>
     sdu a' \<le> 2097152"
proof -
  let ?b = "replicate 8 0 @ [1, 59] @ replicate 20 0xFF @ replicate 10 0xFF @ [0] :: byte list"
  have "is_ok (fst (acceptPacket_unmarshal ?b empty_header (newSessionAtts [])))"
    by code_simp
  then obtain p a' where "acceptPacket_unmarshal ?b empty_header (newSessionAtts []) = (Inr p, a')"
    by (cases "acceptPacket_unmarshal ?b empty_header (newSessionAtts [])"; cases "fst (acceptPacket_unmarshal ?b empty_header (newSessionAtts []))") auto
  moreover have "\<not> networkCompressionEnabled (newSessionAtts [])"
    by (simp add: newSessionAtts_def)
  ultimately show ?thesis using accept_sdu_bounded by blast
qed

text \<open>A packet whose length field is the length of its buffer is read without an index panic,
  whatever its other bytes are.\<close>

lemma no_panic_bindE: "no_panic (fst (m s)) \<Longrightarrow> (\<And>v t. no_panic (fst (k v t))) \<Longrightarrow> no_panic (fst (bindE m k s))"
  by (cases "m s") (auto simp: bindE_def split: sum.splits)

lemma acceptPacket_no_panic: "no_panic (fst (acceptPacket_unmarshal buf h a))"
proof (cases "24 \<le> length buf")
  case True
  moreover have "no_panic (fst (accept_largeSDU buf b))" for b
    by (simp add: accept_largeSDU_def Let_def)
  ultimately show ?thesis
    by (simp add: acceptPacket_unmarshal_def no_panic_bindE split: prod.splits)
next
  case False
  then show ?thesis by (simp add: acceptPacket_unmarshal_def)
qed

lemma header_no_panic: "no_panic (header_unmarshal buf a)"
  by (simp add: header_unmarshal_def)

lemma refusePacket_no_panic:
  "packetLength h = int (length buf) \<Longrightarrow> no_panic (refusePacket_unmarshal buf h)"
  by (simp add: refusePacket_unmarshal_def)

lemma redirectPacket_no_panic:
  "packetLength h = int (length buf) \<Longrightarrow> no_panic (redirectPacket_unmarshal buf h)"
  by (simp add: redirectPacket_unmarshal_def)

lemma resendPacket_no_panic: "no_panic (resendPacket_unmarshal buf h)"
  by (simp add: resendPacket_unmarshal_def)

lemma markerPacket_no_panic: "no_panic (markerPacket_unmarshal buf h)"
  by (simp add: markerPacket_unmarshal_def)

lemma controlPacket_no_panic: "no_panic (fst (controlPacket_unmarshal buf h cp))"
  by (simp add: controlPacket_unmarshal_def)

lemma dataPacket_no_panic: "no_panic (fst (dataPacket_unmarshal buf h dp))"
  by (simp add: dataPacket_unmarshal_def)

lemmas unmarshal_no_panic = header_no_panic acceptPacket_no_panic refusePacket_no_panic
  redirectPacket_no_panic resendPacket_no_panic markerPacket_no_panic controlPacket_no_panic dataPacket_no_panic


end
