(* ===== verification/NS_Session.thy ===== *)
theory NS_Session
  imports NS_Packet NT_Adapter "HOL-Library.Sublist"
begin

text \<open>
  The network session (\<open>network/session/nsprotocol.go\<close> and \<open>nschannel.go\<close>): receiving and
  dispatching packets, the break/reset protocol, buffered reads and writes over data packets,
  disconnecting and the check for in-band notifications.

  The state is the record \<open>networkSession\<close>; the transport adapter's state is one of its
  fields and the adapter's methods are the argument \<open>A\<close>. \<open>compress/zlib\<close> and
  \<open>compress/flate\<close> are the argument \<open>Z\<close>. Buffers are values: the slices into \<open>rcvBuf\<close>
  that the source hands out are copies here. \<open>recvPacket\<close> and \<open>Reset\<close> call each other and
  loop until the peer sends the right packets, so they and every loop over them take fuel;
  \<open>OutOfFuel\<close> is a run that has not ended. \<open>marked_hosts\<close> is not a field of the source: it lists the
  keys that the session has passed to \<open>naming.MarkDownHost\<close>.
\<close>

subsection \<open>State\<close>

record codec =
  zlib_Write :: "byte list \<Rightarrow> byte list result"
  flate_Write :: "byte list \<Rightarrow> byte list result"
  zlib_NewReader :: "byte list \<Rightarrow> go_error option"
  zlib_ReadAll :: "byte list \<Rightarrow> byte list \<times> go_error option"
  flate_ReadAll :: "byte list \<Rightarrow> byte list \<times> go_error option"
  zlib_Close :: "byte list \<Rightarrow> go_error option"
  flate_Close :: "byte list \<Rightarrow> go_error option"

record 'nt networkSession =
  connected :: bool
  isBreak :: bool
  isReset :: bool
  breakPosted :: bool
  endOfRequestSupport :: bool
  supportsFastAuth :: bool
  redirectCount :: int
  resendCount :: int
  sAtts :: sessionAtts
  ntAdapter :: "'nt option"
  cData :: "byte list"
  sndDatapkt :: dataPacket
  rcvDatapkt :: dataPacket
  controlPkt :: controlPacket
  rcvBuf :: "byte list"
  sndBuf :: "byte list"
  pendingPacket :: "byte list option"
  resetInProgress :: bool
  marked_hosts :: "string list"

definition newNetworkSession :: "'nt networkSession" where
  "newNetworkSession =
     \<lparr>connected = False, isBreak = False, isReset = False, breakPosted = False,
      endOfRequestSupport = False, supportsFastAuth = False, redirectCount = 0, resendCount = 0,
      sAtts = newSessionAtts [], ntAdapter = None, cData = [], sndDatapkt = empty_dataPacket,
      rcvDatapkt = empty_dataPacket, controlPkt = empty_controlPacket, rcvBuf = [], sndBuf = [],
      pendingPacket = None, resetInProgress = False, marked_hosts = []\<rparr>"

datatype packet =
    AcceptPkt acceptPacket
  | RefusePkt refusePacket
  | RedirectPkt redirectPacket
  | ResendPkt resendPacket
  | MarkerPkt markerPacket
  | ControlPkt
  | DataPkt

text \<open>Calling the adapter, a nil interface before the connection and after \<open>Disconnect\<close>.
  \<open>ns_receive from to n\<close> is \<open>ntAdapter.Receive(ctx, ns.rcvBuf[from:to], n)\<close>.\<close>

definition ns_send :: "'nt NTAdapter \<Rightarrow> byte list \<Rightarrow> ('nt networkSession, unit) op" where
  "ns_send A bs s =
     (case ntAdapter s of
        None \<Rightarrow> (Inl nil_panic, s)
      | Some nt \<Rightarrow> (case nt_Send A bs nt of (r, nt') \<Rightarrow> (r, s\<lparr>ntAdapter := Some nt'\<rparr>)))"

definition ns_receive :: "'nt NTAdapter \<Rightarrow> nat \<Rightarrow> nat \<Rightarrow> nat \<Rightarrow> ('nt networkSession, int) op" where
  "ns_receive A from to n s =
     (case ntAdapter s of
        None \<Rightarrow> (Inl nil_panic, s)
      | Some nt \<Rightarrow>
          if from \<le> to \<and> to \<le> length (rcvBuf s)
          then case nt_Receive A (drop from (take to (rcvBuf s))) n nt of (r, part, nt') \<Rightarrow>
                 (r, s\<lparr>rcvBuf := put_bytes from part (rcvBuf s), ntAdapter := Some nt'\<rparr>)
          else (Inl (RuntimePanic ''slice bounds out of range''), s))"

text \<open>A method of the receive or send packet, run on the session.\<close>

definition on_rcv :: "(dataPacket, 'a) op \<Rightarrow> ('nt networkSession, 'a) op" where
  "on_rcv f s = (case f (rcvDatapkt s) of (r, dp) \<Rightarrow> (r, s\<lparr>rcvDatapkt := dp\<rparr>))"

text \<open>\<open>defer\<close>\<close>

definition finallyE :: "('s, 'a) op \<Rightarrow> ('s \<Rightarrow> 's) \<Rightarrow> ('s, 'a) op" where
  "finallyE m f s = (case m s of (r, s') \<Rightarrow> (r, f s'))"

subsection \<open>Sending packets\<close>

abbreviation atts_upd :: "(sessionAtts \<Rightarrow> sessionAtts) \<Rightarrow> ('nt networkSession, unit) op" where
  "atts_upd f \<equiv> modE (\<lambda>s. s\<lparr>sAtts := f (sAtts s)\<rparr>)"

text \<open>The packet that replaces \<open>buf\<close> when its payload compresses to \<open>compressedBytes\<close>: the
  compressed flag set and the new length published.\<close>

definition compressed_packet :: "sessionAtts \<Rightarrow> byte list \<Rightarrow> byte list \<Rightarrow> byte list" where
  "compressed_packet a buf compressedBytes =
     (let b1 = take NSPDADAT buf @ compressedBytes;
          fl = be_val (take 2 (drop NSPDAFLG b1));
          b2 = put_u16 NSPDAFLG (fl OR NSPDAFCMP) b1
      in if largeSDU a then put_u32 0 (uwrap 32 (int (length b2))) b2
         else put_u16 0 (uwrap 16 (int (length b2))) b2)"

definition SendPacket :: "'nt NTAdapter \<Rightarrow> codec \<Rightarrow> byte list \<Rightarrow> ('nt networkSession, unit) op" where
  "SendPacket A Z buf =
     (if length buf < PACKET_HEADER_SIZE
      then throwE (NewOracleError InvalidNetworkExpectedLength None
             [ArgStr ''packet buffer'', ArgInt (int (length buf)), ArgInt (int PACKET_HEADER_SIZE)])
      else bindE (getE sAtts) (\<lambda>a.
        if networkCompressionEnabled a \<and> int (length buf) > networkCompressionThreshold a \<and> uint (buf ! 4) = NSPTDA
        then
          if length buf < NSPDADAT then throwE (packet_len_err ''NSPTDA'' (length buf) NSPDADAT)
          else
            let payload = drop NSPDADAT buf
            in case (if firstSendCompressedPacket a then zlib_Write Z payload else flate_Write Z payload) of
                 Inl e \<Rightarrow> throwE (NewOracleError NetworkCompressionFailed (Some e) [ArgStr ''zlib''])
               | Inr compressedBytes \<Rightarrow>
                   if length compressedBytes < length payload
                   then bindE (atts_upd (\<lambda>a. a\<lparr>firstSendCompressedPacket := False\<rparr>)) (\<lambda>_.
                          ns_send A (compressed_packet a buf compressedBytes))
                   else ns_send A buf
        else ns_send A buf))"

text \<open>\<open>sndDatapkt.Prepare2Send\<close> on the session.\<close>

definition prepare_send :: "int \<Rightarrow> ('nt networkSession, unit) op" where
  "prepare_send fl s =
     (case Prepare2Send fl (sAtts s) (sndDatapkt s) of
        Inl e \<Rightarrow> (Inl e, s)
      | Inr dp \<Rightarrow> (Inr (), s\<lparr>sndDatapkt := dp\<rparr>))"

text \<open>\<open>SendPacket(ctx, ns.sndDatapkt.buf[:ns.sndDatapkt.offset])\<close>\<close>

definition send_filled :: "'nt NTAdapter \<Rightarrow> codec \<Rightarrow> ('nt networkSession, unit) op" where
  "send_filled A Z s =
     (let dp = sndDatapkt s
      in if 0 \<le> dp_offset dp \<and> dp_offset dp \<le> int (length (dp_buf dp))
         then SendPacket A Z (take (nat (dp_offset dp)) (dp_buf dp)) s
         else (Inl (RuntimePanic ''slice bounds out of range''), s))"

abbreviation snd_reset :: "('nt networkSession, unit) op" where
  "snd_reset \<equiv> modE (\<lambda>s. s\<lparr>sndDatapkt := dp_Reset (sndDatapkt s)\<rparr>)"

text \<open>The loop of \<open>Send\<close>. A round copies at least one byte unless the packet has no room for
  any, so it takes fuel; \<open>userBuf\<close> and \<open>offset\<close> are the bytes still to send.\<close>

primrec Send_loop ::
  "'nt NTAdapter \<Rightarrow> codec \<Rightarrow> nat \<Rightarrow> byte list \<Rightarrow> ('nt networkSession, unit) op" where
  "Send_loop A Z 0 rest = (if rest = [] then retE () else throwE OutOfFuel)"
| "Send_loop A Z (Suc fuel) rest =
     (if rest = [] then retE ()
      else bindE (prepare_send 0) (\<lambda>_.
           bindE (getE (\<lambda>s. dp_buf (sndDatapkt s))) (\<lambda>b.
           bindE (finallyE (SendPacket A Z b) (\<lambda>s. s\<lparr>sndDatapkt := dp_Reset (sndDatapkt s)\<rparr>)) (\<lambda>_.
           bindE (getE isBreak) (\<lambda>brk.
             if brk then retE ()
             else bindE (getE (\<lambda>s. FillBuf rest 0 (length rest) (sndDatapkt s))) (\<lambda>(n, dp).
                  bindE (modE (\<lambda>s. s\<lparr>sndDatapkt := dp\<rparr>)) (\<lambda>_.
                    Send_loop A Z fuel (drop (nat n) rest))))))))"

definition Send :: "'nt NTAdapter \<Rightarrow> codec \<Rightarrow> nat \<Rightarrow> byte list \<Rightarrow> nat \<Rightarrow> nat \<Rightarrow> ('nt networkSession, unit) op" where
  "Send A Z fuel userBuf offset len =
     bindE (getE isBreak) (\<lambda>brk.
       if brk then retE ()
       else if len \<le> 0 then retE ()
       else if \<not> offset + len \<le> length userBuf then throwE (RuntimePanic ''slice bounds out of range'')
       else bindE (getE sndDatapkt) (\<lambda>sp.
         if dp_offset sp < dp_bufLen sp
         then (case FillBuf userBuf offset len sp of (n, dp) \<Rightarrow>
                bindE (modE (\<lambda>s. s\<lparr>sndDatapkt := dp\<rparr>)) (\<lambda>_.
                  Send_loop A Z fuel (take (len - nat n) (drop (offset + nat n) userBuf))))
         else Send_loop A Z fuel (take len (drop offset userBuf))))"

definition sendConnect :: "'nt NTAdapter \<Rightarrow> codec \<Rightarrow> nat \<Rightarrow> connectPacket \<Rightarrow> ('nt networkSession, unit) op" where
  "sendConnect A Z fuel connectPkt =
     bindE (SendPacket A Z (cp_buf connectPkt)) (\<lambda>_.
       if cp_overflow connectPkt
       then Send A Z fuel (connectData connectPkt) 0 (connectDataLen connectPkt)
       else retE ())"

definition ns_Flush :: "'nt NTAdapter \<Rightarrow> codec \<Rightarrow> ('nt networkSession, unit) op" where
  "ns_Flush A Z =
     bindE (getE isBreak) (\<lambda>brk.
     bindE (getE (\<lambda>s. dp_offset (sndDatapkt s))) (\<lambda>off.
       if brk then retE ()
       else if off \<le> int NSPDADAT then retE ()
       else bindE (prepare_send 0) (\<lambda>_.
            bindE (mapErr (\<lambda>e. if e = io_EOF then NewOracleError ConnectionClosed (Some e) [] else e) (send_filled A Z)) (\<lambda>_.
              snd_reset))))"

subsection \<open>Dispatching a packet\<close>

abbreviation io_ErrUnexpectedEOF :: go_error where
  "io_ErrUnexpectedEOF \<equiv> GoError ''unexpected EOF''"

definition decompress :: "codec \<Rightarrow> bool \<Rightarrow> byte list \<Rightarrow> byte list result" where
  "decompress Z first payload =
     (let failed = (\<lambda>e. Inl (NewOracleError NetworkDecompressionFailed (Some e) [ArgStr ''zlib'']));
          syncFlush = suffix [0, 0, 0xFF, 0xFF] payload;
          fatal = (\<lambda>e. e \<noteq> io_ErrUnexpectedEOF \<or> \<not> syncFlush)
      in case (if first then zlib_NewReader Z payload else None) of
           Some e \<Rightarrow> failed e
         | None \<Rightarrow>
             (case (if first then zlib_ReadAll Z payload else flate_ReadAll Z payload) of (decompressed, err) \<Rightarrow>
               case err of
                 Some e \<Rightarrow> if fatal e then failed e
                   else (case (if first then zlib_Close Z payload else flate_Close Z payload) of
                      Some e' \<Rightarrow> if fatal e' then failed e' else Inr decompressed
                    | None \<Rightarrow> Inr decompressed)
               | None \<Rightarrow>
                   (case (if first then zlib_Close Z payload else flate_Close Z payload) of
                      Some e' \<Rightarrow> if fatal e' then failed e' else Inr decompressed
                    | None \<Rightarrow> Inr decompressed)))"

definition decompressed_packet :: "sessionAtts \<Rightarrow> byte list \<Rightarrow> int \<Rightarrow> byte list \<Rightarrow> byte list" where
  "decompressed_packet a buf fl decompressed =
     (let b1 = take NSPDADAT buf @ decompressed;
          b2 = (if largeSDU a then put_u32 0 (uwrap 32 (int (length b1))) b1
                else put_u16 0 (uwrap 16 (int (length b1))) b1)
      in put_u16 NSPDAFLG (fl AND NOT NSPDAFCMP) b2)"

text \<open>The data packet: decompressed first when compression was negotiated and the packet is
  flagged. The result is the packet's buffer and header after that.\<close>

definition inflate_data :: "codec \<Rightarrow> byte list \<Rightarrow> header \<Rightarrow> ('nt networkSession, byte list \<times> header) op" where
  "inflate_data Z buf hdr =
     (if packetLength hdr < int NSPDADAT
      then throwE (NewOracleError InvalidNetworkContextExpectedLength None
             [ArgStr ''packet'', ArgStr ''NSPTDA'', ArgInt (packetLength hdr), ArgInt (int NSPDADAT)])
      else bindE (liftE (rd_u16 buf NSPDAFLG)) (\<lambda>fl.
           bindE (getE sAtts) (\<lambda>a.
             if networkCompressionEnabled a \<and> fl AND NSPDAFCMP \<noteq> 0
             then bindE (atts_upd (\<lambda>a. a\<lparr>firstRecvCompressedPacket := False\<rparr>)) (\<lambda>_.
                  bindE (liftE (decompress Z (firstRecvCompressedPacket a) (drop NSPDADAT buf))) (\<lambda>d.
                    let buf' = decompressed_packet a buf fl d
                    in case header_unmarshal buf' a of
                         Inl _ \<Rightarrow> retE (buf', hdr)
                       | Inr hdr' \<Rightarrow> retE (buf', hdr')))
             else retE (buf, hdr))))"

definition atts_op :: "(sessionAtts, 'a) op \<Rightarrow> ('nt networkSession, 'a) op" where
  "atts_op f s = (case f (sAtts s) of (r, a) \<Rightarrow> (r, s\<lparr>sAtts := a\<rparr>))"

definition control_op :: "(controlPacket, 'a) op \<Rightarrow> ('nt networkSession, 'a) op" where
  "control_op f s = (case f (controlPkt s) of (r, c) \<Rightarrow> (r, s\<lparr>controlPkt := c\<rparr>))"

definition note_marker :: "markerPacket \<Rightarrow> 'nt networkSession \<Rightarrow> 'nt networkSession" where
  "note_marker p s =
     (if markerType p = NSPMKTD0 then s\<lparr>isBreak := True\<rparr>
      else if markerType p = NSPMKTD1
      then (if mp_data p = NIQRMARK then s\<lparr>isBreak := True, isReset := True\<rparr> else s\<lparr>isBreak := True\<rparr>)
      else s)"

definition processPacket :: "codec \<Rightarrow> byte list \<Rightarrow> header \<Rightarrow> ('nt networkSession, packet) op" where
  "processPacket Z buf hdr =
     (if ptyp hdr = NSPTAC then bindE (atts_op (acceptPacket_unmarshal buf hdr)) (\<lambda>p. retE (AcceptPkt p))
      else if ptyp hdr = NSPTRF then bindE (liftE (refusePacket_unmarshal buf hdr)) (\<lambda>p. retE (RefusePkt p))
      else if ptyp hdr = NSPTRD then bindE (liftE (redirectPacket_unmarshal buf hdr)) (\<lambda>p. retE (RedirectPkt p))
      else if ptyp hdr = NSPTRS then bindE (liftE (resendPacket_unmarshal buf hdr)) (\<lambda>p. retE (ResendPkt p))
      else if ptyp hdr = NSPTMK
      then bindE (liftE (markerPacket_unmarshal buf hdr)) (\<lambda>p.
           bindE (modE (note_marker p)) (\<lambda>_. retE (MarkerPkt p)))
      else if ptyp hdr = NSPTCNL then bindE (control_op (controlPacket_unmarshal buf hdr)) (\<lambda>_. retE ControlPkt)
      else if ptyp hdr = NSPTDA
      then bindE (inflate_data Z buf hdr) (\<lambda>(buf', hdr').
           bindE (on_rcv (dataPacket_unmarshal buf' hdr')) (\<lambda>_. retE DataPkt))
      else throwE (NewOracleError InvalidNetworkValue None [ArgStr ''packet type'', ArgInt (ptyp hdr)]))"

subsection \<open>Receiving packets and the break/reset protocol\<close>

definition packet_length :: "sessionAtts \<Rightarrow> byte list \<Rightarrow> nat" where
  "packet_length a buf = nat (be_val (take (if largeSDU a then 4 else 2) buf))"

text \<open>Reading one packet off the wire into \<open>rcvBuf\<close>: the header, the length check, the body.\<close>

definition read_packet :: "'nt NTAdapter \<Rightarrow> ('nt networkSession, byte list) op" where
  "read_packet A =
     bindE (getE (\<lambda>s. length (rcvBuf s))) (\<lambda>size.
     bindE (ns_receive A 0 size PACKET_HEADER_SIZE) (\<lambda>_.
     bindE (getE (\<lambda>s. packet_length (sAtts s) (rcvBuf s))) (\<lambda>packetLen.
       if packetLen < PACKET_HEADER_SIZE \<or> packetLen > size
       then throwE (NewOracleError InvalidNetworkLength None [ArgStr ''packet'', ArgInt (int packetLen)])
       else let bodyLen = packetLen - PACKET_HEADER_SIZE
            in bindE (if bodyLen > 0
                      then bindE (ns_receive A PACKET_HEADER_SIZE packetLen bodyLen) (\<lambda>n.
                             if n \<noteq> int bodyLen
                             then throwE (NewOracleError InvalidNetworkExpectedLength None
                                    [ArgStr ''packet body'', ArgInt n, ArgInt (int bodyLen)])
                             else retE ())
                      else retE ()) (\<lambda>_.
               getE (\<lambda>s. take packetLen (rcvBuf s))))))"

definition send_marker :: "'nt NTAdapter \<Rightarrow> codec \<Rightarrow> int \<Rightarrow> ('nt networkSession, unit) op" where
  "send_marker A Z d =
     bindE (getE sAtts) (\<lambda>a.
     bindE (liftE (markerPacket_marshal a d)) (\<lambda>p. SendPacket A Z (mp_buf p)))"

text \<open>\<open>Reset\<close>, with \<open>recv\<close> for its calls of \<open>recvPacket\<close>.\<close>

primrec reset_loop :: "('nt networkSession, packet) op \<Rightarrow> nat \<Rightarrow> ('nt networkSession, unit) op" where
  "reset_loop recv 0 = throwE OutOfFuel"
| "reset_loop recv (Suc fuel) =
     bindE (getE isReset) (\<lambda>done.
       if done then retE () else bindE recv (\<lambda>_. reset_loop recv fuel))"

definition end_reset :: "'nt networkSession \<Rightarrow> 'nt networkSession" where
  "end_reset s =
     s\<lparr>sndDatapkt := dp_Reset (sndDatapkt s),
       rcvDatapkt := (rcvDatapkt s)\<lparr>dp_offset := int NSPDADAT, dp_len := int NSPDADAT\<rparr>,
       isBreak := False, isReset := False\<rparr>"

definition Reset_with ::
  "'nt NTAdapter \<Rightarrow> codec \<Rightarrow> ('nt networkSession, packet) op \<Rightarrow> nat \<Rightarrow> ('nt networkSession, unit) op" where
  "Reset_with A Z recv fuel =
     bindE (getE resetInProgress) (\<lambda>busy.
       if busy then retE ()
       else bindE (modE (\<lambda>s. s\<lparr>resetInProgress := True\<rparr>)) (\<lambda>_.
         finallyE
           (bindE (getE breakPosted) (\<lambda>posted.
            bindE (if posted
                   then bindE (send_marker A Z NIQBMARK) (\<lambda>_. modE (\<lambda>s. s\<lparr>breakPosted := False\<rparr>))
                   else retE ()) (\<lambda>_.
            bindE (send_marker A Z NIQRMARK) (\<lambda>_.
            bindE (reset_loop recv fuel) (\<lambda>_.
              modE end_reset)))))
           (\<lambda>s. s\<lparr>resetInProgress := False\<rparr>)))"

text \<open>The part of \<open>recvPacket\<close> after a packet was read: it is dispatched, and a break marker is
  answered by a reset unless one is under way; \<open>recv\<close> stands for the recursive calls.\<close>

definition after_read ::
  "'nt NTAdapter \<Rightarrow> codec \<Rightarrow> ('nt networkSession, packet) op \<Rightarrow> nat \<Rightarrow> byte list \<Rightarrow> ('nt networkSession, packet) op" where
  "after_read A Z recv fuel buf =
     bindE (getE sAtts) (\<lambda>a.
     bindE (liftE (header_unmarshal buf a)) (\<lambda>hdr.
     bindE (processPacket Z buf hdr) (\<lambda>packet.
     bindE (getE (\<lambda>s. (ptyp hdr = NSPTMK \<and> isBreak s \<and> \<not> isReset s, resetInProgress s))) (\<lambda>(brk, busy).
       if brk
       then if busy then retE packet else bindE (Reset_with A Z recv fuel) (\<lambda>_. recv)
       else retE packet))))"

primrec recvPacket :: "'nt NTAdapter \<Rightarrow> codec \<Rightarrow> nat \<Rightarrow> ('nt networkSession, packet) op" where
  "recvPacket A Z 0 = throwE OutOfFuel"
| "recvPacket A Z (Suc fuel) =
     bindE (getE pendingPacket) (\<lambda>pending.
       case pending of
         Some buf \<Rightarrow>
           bindE (modE (\<lambda>s. s\<lparr>pendingPacket := None\<rparr>)) (\<lambda>_.
           bindE (getE sAtts) (\<lambda>a.
           bindE (liftE (header_unmarshal buf a)) (\<lambda>hdr. processPacket Z buf hdr)))
       | None \<Rightarrow>
           bindE (getE (\<lambda>s. dp_offset (sndDatapkt s))) (\<lambda>off.
           bindE (if off > int NSPDADAT
                  then bindE (prepare_send 0) (\<lambda>_. bindE (send_filled A Z) (\<lambda>_. snd_reset))
                  else retE ()) (\<lambda>_.
           bindE (read_packet A) (after_read A Z (recvPacket A Z fuel) fuel))))"

definition Reset :: "'nt NTAdapter \<Rightarrow> codec \<Rightarrow> nat \<Rightarrow> ('nt networkSession, unit) op" where
  "Reset A Z fuel = Reset_with A Z (recvPacket A Z fuel) fuel"

subsection \<open>Disconnecting and notifications\<close>

definition nt_close :: "'nt NTAdapter \<Rightarrow> ('nt networkSession, unit) op" where
  "nt_close A s =
     (case ntAdapter s of
        None \<Rightarrow> (Inl nil_panic, s)
      | Some nt \<Rightarrow> (case nt_Disconnect A nt of (r, _) \<Rightarrow> (r, s\<lparr>ntAdapter := None\<rparr>)))"

abbreviation "NSFIMM \<equiv> (0x40 :: int)"

text \<open>An error of the final data packet is returned after the adapter is closed.\<close>

definition Disconnect :: "'nt NTAdapter \<Rightarrow> codec \<Rightarrow> int \<Rightarrow> ('nt networkSession, unit) op" where
  "Disconnect A Z fl =
     bindE (getE connected) (\<lambda>conn.
       if \<not> conn
       then bindE (getE ntAdapter) (\<lambda>nt. if nt \<noteq> None then nt_close A else retE ())
       else bindE (modE (\<lambda>s. s\<lparr>connected := False\<rparr>)) (\<lambda>_ s.
         let (err, s1) = (if fl AND NSFIMM = 0
                then bindE (prepare_send NSPDAFEOF) (\<lambda>_ t. SendPacket A Z (dp_buf (sndDatapkt t)) t) s
                else (Inr (), s))
         in case err of
              Inl e \<Rightarrow> if is_panic e then (Inl e, s1)
                        else (case nt_close A s1 of
                                (Inl e', s2) \<Rightarrow> (Inl (if is_panic e' then e' else e), s2)
                              | (Inr _, s2) \<Rightarrow> (Inl e, s2))
            | Inr _ \<Rightarrow> nt_close A s1))"

abbreviation ct_clear :: "('nt networkSession, unit) op" where
  "ct_clear \<equiv> modE (\<lambda>s. s\<lparr>controlPkt := Clear (controlPkt s)\<rparr>)"

text \<open>\<open>r\<close> or, when the call returns an error, \<open>false\<close>; a panic stays one.\<close>

definition orFalse :: "('s, bool) op \<Rightarrow> ('s, bool) op" where
  "orFalse m s = (case m s of (Inl e, s') \<Rightarrow> (if is_panic e then Inl e else Inr False, s') | (Inr b, s') \<Rightarrow> (Inr b, s'))"

definition CheckInbandNotification :: "'nt NTAdapter \<Rightarrow> ('nt networkSession, bool) op" where
  "CheckInbandNotification A =
     bindE (getE controlPkt) (\<lambda>cp.
       if errno cp \<noteq> 0 then bindE ct_clear (\<lambda>_. retE (isNotification cp))
       else orFalse (
         bindE (getE (\<lambda>s. length (rcvBuf s))) (\<lambda>size.
         bindE (ns_receive A 0 size PACKET_HEADER_SIZE) (\<lambda>n.
         if n \<noteq> int PACKET_HEADER_SIZE then retE False
         else
         bindE (getE (\<lambda>s. packet_length (sAtts s) (rcvBuf s))) (\<lambda>packetLen.
         let bodyLen = packetLen - PACKET_HEADER_SIZE in
         bindE (if packetLen > PACKET_HEADER_SIZE then ns_receive A PACKET_HEADER_SIZE size bodyLen
                else retE (int bodyLen)) (\<lambda>n.
         if n < int bodyLen then retE False
         else
         bindE (getE (\<lambda>s. (take packetLen (rcvBuf s), sAtts s))) (\<lambda>(buf, a).
         bindE (liftE (header_unmarshal buf a)) (\<lambda>hdr.
           if ptyp hdr = NSPTCNL
           then bindE (\<lambda>s. (Inr (), snd (control_op (controlPacket_unmarshal buf hdr) s))) (\<lambda>_.
                bindE (getE (\<lambda>s. isNotification (controlPkt s))) (\<lambda>b. bindE ct_clear (\<lambda>_. retE b)))
           else bindE (modE (\<lambda>s. s\<lparr>pendingPacket := Some buf\<rparr>)) (\<lambda>_. retE False)))))))))"

end
