(* ===== verification/NS_Channel.thy ===== *)
theory NS_Channel
  imports NS_Session Data_Buffer
begin

text \<open>
  The buffered reads and writes of the session (\<open>network/session/nschannel.go\<close>), which the TTC
  layer uses through the \<open>DataBuffer\<close> interface: \<open>ns_buffer\<close> is that view of a session.
\<close>

subsection \<open>Reading\<close>

text \<open>\<open>_, err := ns.recvPacket(ctx); if ns.isBreak \<dots>; if err != nil \<dots>\<close>\<close>

definition fillReadBuffer :: "'nt NTAdapter \<Rightarrow> codec \<Rightarrow> nat \<Rightarrow> ('nt networkSession, unit) op" where
  "fillReadBuffer A Z fuel s =
     (case recvPacket A Z fuel s of
        (Inl e, s') \<Rightarrow>
          (if is_panic e then Inl e
           else if isBreak s' then Inl (NewOracleError BreakPacketReceived None []) else Inl e, s')
      | (Inr _, s') \<Rightarrow>
          (if isBreak s' then Inl (NewOracleError BreakPacketReceived None []) else Inr (), s'))"

definition PrepareReadBuffer :: "'nt NTAdapter \<Rightarrow> codec \<Rightarrow> nat \<Rightarrow> ('nt networkSession, unit) op" where
  "PrepareReadBuffer A Z fuel =
     bindE (getE rcvDatapkt) (\<lambda>dp.
       if dp_len dp - dp_offset dp = 0
       then bindE (modE (\<lambda>s. s\<lparr>rcvDatapkt := (rcvDatapkt s)\<lparr>dp_offset := int NSPDADAT, dp_len := dp_bufLen dp\<rparr>\<rparr>)) (\<lambda>_.
              fillReadBuffer A Z fuel)
       else retE ())"

text \<open>Reading over packet boundaries. \<open>buf\<close> is the destination; a round either receives a packet
  or copies what the current one holds.\<close>

primrec readMultiPacket_loop ::
  "'nt NTAdapter \<Rightarrow> codec \<Rightarrow> nat \<Rightarrow> nat \<Rightarrow> nat \<Rightarrow> nat \<Rightarrow> byte list \<Rightarrow> ('nt networkSession, byte list) op" where
  "readMultiPacket_loop A Z fuel 0 numBytes bytesRead buf = throwE OutOfFuel"
| "readMultiPacket_loop A Z fuel (Suc rounds) numBytes bytesRead buf =
     (if bytesRead < numBytes
      then bindE (getE (\<lambda>s. Remaining (rcvDatapkt s))) (\<lambda>remaining.
        if remaining = 0
        then bindE (fillReadBuffer A Z fuel) (\<lambda>_. readMultiPacket_loop A Z fuel rounds numBytes bytesRead buf)
        else
          let bytesToRead = (if int (numBytes - bytesRead) > remaining then remaining else int (numBytes - bytesRead))
          in bindE (mapErr (\<lambda>e. NewOracleError NetworkDataReadFailed (Some e) []) (on_rcv (dp_Read bytesToRead))) (\<lambda>data.
               readMultiPacket_loop A Z fuel rounds numBytes (bytesRead + length data) (put_bytes bytesRead data buf)))
      else retE buf)"

definition readMultiPacket ::
  "'nt NTAdapter \<Rightarrow> codec \<Rightarrow> nat \<Rightarrow> byte list \<Rightarrow> nat \<Rightarrow> ('nt networkSession, byte list) op" where
  "readMultiPacket A Z fuel buf numBytes = readMultiPacket_loop A Z fuel fuel numBytes 0 buf"

definition readNBytes :: "'nt NTAdapter \<Rightarrow> codec \<Rightarrow> nat \<Rightarrow> nat \<Rightarrow> ('nt networkSession, byte list) op" where
  "readNBytes A Z fuel n =
     bindE (PrepareReadBuffer A Z fuel) (\<lambda>_.
     bindE (getE (\<lambda>s. Remaining (rcvDatapkt s))) (\<lambda>remaining.
       if remaining \<ge> int n then on_rcv (dp_Read (int n))
       else readMultiPacket A Z fuel (replicate n 0) n))"

definition ns_ReadBytesWithContext :: "'nt NTAdapter \<Rightarrow> codec \<Rightarrow> nat \<Rightarrow> int \<Rightarrow> ('nt networkSession, byte list) op" where
  "ns_ReadBytesWithContext A Z fuel len =
     (if len < 0 then throwE (NewOracleError InvalidNetworkLength None [ArgStr ''buffer'', ArgInt len])
      else readNBytes A Z fuel (nat len))"

definition ReadNBytes :: "'nt NTAdapter \<Rightarrow> codec \<Rightarrow> nat \<Rightarrow> nat \<Rightarrow> ('nt networkSession, byte list) op" where
  "ReadNBytes A Z fuel n = readNBytes A Z fuel n"

definition ReadUI8 :: "'nt NTAdapter \<Rightarrow> codec \<Rightarrow> nat \<Rightarrow> ('nt networkSession, byte) op" where
  "ReadUI8 A Z fuel = bindE (PrepareReadBuffer A Z fuel) (\<lambda>_. on_rcv dp_ReadByte)"

definition ns_ReadByteWithContext :: "'nt NTAdapter \<Rightarrow> codec \<Rightarrow> nat \<Rightarrow> ('nt networkSession, byte) op" where
  "ns_ReadByteWithContext A Z fuel = ReadUI8 A Z fuel"

text \<open>The fixed-width reads repeat the body of \<open>readNBytes\<close> with their width.\<close>

definition ReadNativeUI16 :: "'nt NTAdapter \<Rightarrow> codec \<Rightarrow> nat \<Rightarrow> bool \<Rightarrow> ('nt networkSession, int) op" where
  "ReadNativeUI16 A Z fuel isLSB =
     bindE (readNBytes A Z fuel 2) (\<lambda>b. retE (if isLSB then le_val b else be_val b))"

definition ReadUI16 :: "'nt NTAdapter \<Rightarrow> codec \<Rightarrow> nat \<Rightarrow> ('nt networkSession, int) op" where
  "ReadUI16 A Z fuel = bindE (readNBytes A Z fuel 2) (\<lambda>b. retE (be_val b))"

definition ReadUI32 :: "'nt NTAdapter \<Rightarrow> codec \<Rightarrow> nat \<Rightarrow> ('nt networkSession, int) op" where
  "ReadUI32 A Z fuel = bindE (readNBytes A Z fuel 4) (\<lambda>b. retE (be_val b))"

definition ReadBA :: "'nt NTAdapter \<Rightarrow> codec \<Rightarrow> nat \<Rightarrow> nat \<Rightarrow> ('nt networkSession, byte list) op" where
  "ReadBA A Z fuel n = bindE (PrepareReadBuffer A Z fuel) (\<lambda>_. ReadNBytes A Z fuel n)"

text \<open>\<open>ReadText\<close> stops after a zero byte and returns the bytes before the last one it read.\<close>

definition readText_byte :: "'nt NTAdapter \<Rightarrow> codec \<Rightarrow> nat \<Rightarrow> ('nt networkSession, byte) op" where
  "readText_byte A Z fuel s =
     (case on_rcv dp_ReadByte s of
        (Inl io_EOF, s') \<Rightarrow> bindE (PrepareReadBuffer A Z fuel) (\<lambda>_. on_rcv dp_ReadByte) s'
      | (r, s') \<Rightarrow> (r, s'))"

primrec ReadText_loop :: "'nt NTAdapter \<Rightarrow> codec \<Rightarrow> nat \<Rightarrow> nat \<Rightarrow> byte list \<Rightarrow> ('nt networkSession, byte list) op" where
  "ReadText_loop A Z fuel 0 tmpBuffer = retE tmpBuffer"
| "ReadText_loop A Z fuel (Suc left) tmpBuffer =
     bindE (readText_byte A Z fuel) (\<lambda>b.
       if b = 0 then retE (tmpBuffer @ [b]) else ReadText_loop A Z fuel left (tmpBuffer @ [b]))"

definition ReadText :: "'nt NTAdapter \<Rightarrow> codec \<Rightarrow> nat \<Rightarrow> int \<Rightarrow> ('nt networkSession, byte list) op" where
  "ReadText A Z fuel len =
     (if len < 0 then throwE (RuntimePanic ''makeslice: len out of range'')
      else bindE (ReadText_loop A Z fuel (nat len) []) (\<lambda>tmpBuffer.
        if tmpBuffer = [] then throwE (RuntimePanic ''slice bounds out of range'')
        else retE (butlast tmpBuffer)))"

primrec SkipNBytes_loop :: "'nt NTAdapter \<Rightarrow> codec \<Rightarrow> nat \<Rightarrow> nat \<Rightarrow> int \<Rightarrow> int \<Rightarrow> ('nt networkSession, unit) op" where
  "SkipNBytes_loop A Z fuel 0 n bytesSkipped = throwE OutOfFuel"
| "SkipNBytes_loop A Z fuel (Suc rounds) n bytesSkipped =
     (if bytesSkipped < n
      then bindE (PrepareReadBuffer A Z fuel) (\<lambda>_.
           bindE (getE (\<lambda>s. Remaining (rcvDatapkt s))) (\<lambda>remaining.
             let needToSkip = n - bytesSkipped
             in if remaining \<ge> needToSkip
                then bindE (on_rcv (dp_Read needToSkip)) (\<lambda>_. SkipNBytes_loop A Z fuel rounds n n)
                else if remaining > 0
                then bindE (on_rcv (dp_Read remaining)) (\<lambda>_. SkipNBytes_loop A Z fuel rounds n (bytesSkipped + remaining))
                else SkipNBytes_loop A Z fuel rounds n bytesSkipped))
      else retE ())"

definition SkipNBytes :: "'nt NTAdapter \<Rightarrow> codec \<Rightarrow> nat \<Rightarrow> int \<Rightarrow> ('nt networkSession, unit) op" where
  "SkipNBytes A Z fuel n = SkipNBytes_loop A Z fuel fuel n 0"

subsection \<open>Writing\<close>

text \<open>\<open>buf := ns.sndDatapkt.buf[ns.sndDatapkt.offset:]\<close>, the bytes put at its start, and the offset
  advanced; a packet with no room left panics.\<close>

definition append_send :: "byte list \<Rightarrow> ('nt networkSession, unit) op" where
  "append_send bs s =
     (let dp = sndDatapkt s
      in if 0 \<le> dp_offset dp \<and> dp_offset dp + int (length bs) \<le> int (length (dp_buf dp))
         then (Inr (), s\<lparr>sndDatapkt := dp\<lparr>dp_buf := put_bytes (nat (dp_offset dp)) bs (dp_buf dp),
                                           dp_offset := dp_offset dp + int (length bs)\<rparr>\<rparr>)
         else (Inl index_panic, s))"

definition with_room :: "'nt NTAdapter \<Rightarrow> codec \<Rightarrow> nat \<Rightarrow> ('nt networkSession, unit) op" where
  "with_room A Z n =
     bindE (getE sndDatapkt) (\<lambda>dp.
       if dp_len dp - dp_offset dp < int n then ns_Flush A Z else retE ())"

definition ns_WriteByteWithContext :: "'nt NTAdapter \<Rightarrow> codec \<Rightarrow> byte \<Rightarrow> ('nt networkSession, unit) op" where
  "ns_WriteByteWithContext A Z b = bindE (with_room A Z 1) (\<lambda>_. append_send [b])"

definition WriteUI8 :: "'nt NTAdapter \<Rightarrow> codec \<Rightarrow> byte \<Rightarrow> ('nt networkSession, unit) op" where
  "WriteUI8 A Z b = ns_WriteByteWithContext A Z b"

definition WriteUI16 :: "'nt NTAdapter \<Rightarrow> codec \<Rightarrow> int \<Rightarrow> bool \<Rightarrow> ('nt networkSession, unit) op" where
  "WriteUI16 A Z v isLSB =
     bindE (with_room A Z 2) (\<lambda>_.
       append_send (if isLSB then le_bytes 2 (uwrap 16 v) else be_bytes 2 (uwrap 16 v)))"

definition WriteI32 :: "'nt NTAdapter \<Rightarrow> codec \<Rightarrow> int \<Rightarrow> bool \<Rightarrow> ('nt networkSession, unit) op" where
  "WriteI32 A Z v isLSB =
     bindE (with_room A Z 4) (\<lambda>_.
       append_send (if isLSB then le_bytes 4 (uwrap 32 v) else be_bytes 4 (uwrap 32 v)))"

text \<open>A round of \<open>Send\<close> fills at least one byte of an SDU, so the length of the data is fuel
  enough.\<close>

definition Write :: "'nt NTAdapter \<Rightarrow> codec \<Rightarrow> byte list \<Rightarrow> ('nt networkSession, unit) op" where
  "Write A Z bs = (if length bs \<le> 0 then retE () else Send A Z (length bs) bs 0 (length bs))"

definition ns_WriteBytesWithContext :: "'nt NTAdapter \<Rightarrow> codec \<Rightarrow> byte list \<Rightarrow> ('nt networkSession, unit) op" where
  "ns_WriteBytesWithContext A Z bs = Write A Z bs"

definition WriteBA :: "'nt NTAdapter \<Rightarrow> codec \<Rightarrow> byte list \<Rightarrow> ('nt networkSession, unit) op" where
  "WriteBA A Z ba = Send A Z (length ba) ba 0 (length ba)"

subsection \<open>Break and reset\<close>

definition CancelOperation :: "'nt NTAdapter \<Rightarrow> codec \<Rightarrow> nat \<Rightarrow> ('nt networkSession, unit) op" where
  "CancelOperation A Z fuel =
     bindE (getE (\<lambda>s. (isBreak s, connected s))) (\<lambda>(brk, conn).
       if brk then retE ()
       else if \<not> conn then modE (\<lambda>s. s\<lparr>isBreak := True, breakPosted := True\<rparr>)
       else bindE (modE (\<lambda>s. s\<lparr>isBreak := True\<rparr>)) (\<lambda>_.
            bindE (send_marker A Z NIQIMARK) (\<lambda>_. Reset A Z fuel)))"

definition SendReset :: "'nt NTAdapter \<Rightarrow> codec \<Rightarrow> nat \<Rightarrow> ('nt networkSession, unit) op" where
  "SendReset A Z fuel = Reset A Z fuel"

definition IsInBreakReset :: "'nt networkSession \<Rightarrow> bool" where
  "IsInBreakReset s = (isBreak s \<or> isReset s)"

subsection \<open>The session as a data buffer\<close>

definition ns_buffer :: "'nt NTAdapter \<Rightarrow> codec \<Rightarrow> nat \<Rightarrow> 'nt networkSession DataBuffer" where
  "ns_buffer A Z fuel =
     \<lparr>WriteByteWithContext = ns_WriteByteWithContext A Z,
      WriteBytesWithContext = ns_WriteBytesWithContext A Z,
      ReadByteWithContext = ns_ReadByteWithContext A Z fuel,
      ReadBytesWithContext = ns_ReadBytesWithContext A Z fuel,
      FlushBuffer = ns_Flush A Z\<rparr>"

end
