(* ===== verification/NS_Framing.thy ===== *)
theory NS_Framing
  imports NS_Channel
begin

text \<open>
  The session as a byte stream. TTC bytes travel in data packets; \<open>data_stream\<close> is the
  specification of that framing (the payloads of the packets on the wire, one after the other)
  and \<open>session_inq\<close>/\<open>session_outq\<close> are the bytes a session has still to deliver and has
  accepted. The locale \<open>session\<close> proves over any \<open>nt_adapter\<close> that a session in its data
  phase is a \<open>data_buffer\<close>: writes append to the outgoing stream, however they are cut into
  packets, and reads take the next bytes of the incoming one, however the packets were cut.
\<close>

subsection \<open>Data packets as frames of a byte stream\<close>

definition frame_len :: "bool \<Rightarrow> byte list \<Rightarrow> nat" where
  "frame_len large w = nat (be_val (take (if large then 4 else 2) w))"

function data_stream :: "bool \<Rightarrow> byte list \<Rightarrow> byte list" where
  "data_stream large w =
     (let n = frame_len large w
      in if NSPDADAT \<le> n \<and> n \<le> length w then drop NSPDADAT (take n w) @ data_stream large (drop n w) else [])"
  by pat_completeness auto
termination by (relation "measure (\<lambda>(large, w). length w)") auto

function frames_ok :: "bool \<Rightarrow> nat \<Rightarrow> byte list \<Rightarrow> bool" where
  "frames_ok large sz w =
     (if w = [] then True
      else let n = frame_len large w
           in if NSPDADAT < n \<and> n \<le> length w \<and> n \<le> sz \<and> uint (w ! 4) = NSPTDA
              then frames_ok large sz (drop n w) else False)"
  by pat_completeness auto
termination by (relation "measure (\<lambda>(large, sz, w). length w)") auto

declare data_stream.simps [simp del] frames_ok.simps [simp del]

lemma data_stream_Nil [simp]: "data_stream large [] = []"
  by (subst data_stream.simps) (simp add: Let_def frame_len_def)

lemma frames_ok_Nil [simp]: "frames_ok large sz []"
  by (subst frames_ok.simps) simp

lemma frame_len_append: "4 \<le> length w \<Longrightarrow> frame_len large (w @ v) = frame_len large w"
  by (simp add: frame_len_def)

lemma frame_len_take: "4 \<le> n \<Longrightarrow> frame_len large (take n w) = frame_len large w"
  by (simp add: frame_len_def min_def)

lemma frames_okD:
  assumes "frames_ok large sz w" "w \<noteq> []"
  shows "NSPDADAT < frame_len large w" "frame_len large w \<le> length w" "frame_len large w \<le> sz"
    "uint (w ! 4) = NSPTDA" "frames_ok large sz (drop (frame_len large w) w)"
    "data_stream large w = drop NSPDADAT (take (frame_len large w) w) @ data_stream large (drop (frame_len large w) w)"
  using assms frames_ok.simps [of large sz w] data_stream.simps [of large w]
  by (auto simp: Let_def split: if_splits)

lemma frames_append:
  assumes "frames_ok large sz w"
  shows "data_stream large (w @ v) = data_stream large w @ data_stream large v"
    "frames_ok large sz v \<Longrightarrow> frames_ok large sz (w @ v)"
  using assms
proof (induction large sz w rule: frames_ok.induct)
  case (1 large sz w)
  { case 1
    show ?case
    proof (cases "w = []")
      case False
      let ?n = "frame_len large w"
      note d = frames_okD [OF 1 False]
      have n: "frame_len large (w @ v) = ?n" using d(1,2) by (simp add: frame_len_append)
      have "data_stream large (drop ?n w @ v) = data_stream large (drop ?n w) @ data_stream large v"
        using "1.IH"(1) False d by simp
      then show ?thesis
        using d data_stream.simps [of large "w @ v"] by (simp add: n Let_def)
    qed simp }
  { case 2
    show ?case
    proof (cases "w = []")
      case False
      let ?n = "frame_len large w"
      note d = frames_okD [OF 2(2) False]
      have n: "frame_len large (w @ v) = ?n" using d(1,2) by (simp add: frame_len_append)
      have "frames_ok large sz (drop ?n w @ v)"
        using "1.IH"(2) False d 2(1) by simp
      then show ?thesis
        using d frames_ok.simps [of large sz "w @ v"] by (simp add: n Let_def nth_append)
    qed (use 2 in simp) }
qed

lemma frames_single:
  assumes "frame_len large p = length p" "NSPDADAT < length p" "length p \<le> sz" "uint (p ! 4) = NSPTDA"
  shows "frames_ok large sz p" "data_stream large p = drop NSPDADAT p"
  using assms by (subst frames_ok.simps data_stream.simps, simp add: Let_def)+

subsection \<open>The packet that is being filled\<close>

definition snd_ok :: "sessionAtts \<Rightarrow> dataPacket \<Rightarrow> bool" where
  "snd_ok a dp =
     (int NSPDADAT \<le> dp_offset dp \<and> dp_offset dp \<le> int (length (dp_buf dp)) \<and>
      dp_len dp = int (length (dp_buf dp)) \<and> dp_bufLen dp = int (length (dp_buf dp)) \<and>
      NSPDADAT < length (dp_buf dp) \<and> int (length (dp_buf dp)) < (if largeSDU a then 2 ^ 32 else 2 ^ 16) \<and>
      ptyp (dp_hdr dp) = NSPTDA)"

definition filled :: "dataPacket \<Rightarrow> byte list" where
  "filled dp = drop NSPDADAT (take (nat (dp_offset dp)) (dp_buf dp))"

lemma nth_put_before: "i < off \<Longrightarrow> off \<le> length buf \<Longrightarrow> put_bytes off bs buf ! i = buf ! i"
  by (simp add: put_bytes_def nth_append)

lemma nth_put_same: "off \<le> length buf \<Longrightarrow> put_bytes off (b # bs) buf ! off = b"
  by (simp add: put_bytes_def nth_append)

lemma Prepare2Send_ok:
  assumes "snd_ok a dp" "int NSPDADAT < dp_offset dp"
  shows "\<exists>dp'. Prepare2Send fl a dp = Inr dp' \<and> snd_ok a dp' \<and> dp_offset dp' = dp_offset dp \<and>
    length (dp_buf dp') = length (dp_buf dp) \<and> 
    frame_len (largeSDU a) (take (nat (dp_offset dp)) (dp_buf dp')) = nat (dp_offset dp) \<and>
    uint (dp_buf dp' ! 4) = NSPTDA \<and> filled dp' = filled dp"
proof -
  let ?b = "dp_buf dp"
  have o: "10 < nat (dp_offset dp)" "nat (dp_offset dp) \<le> length ?b" "10 < length ?b"
    using assms by (auto simp: snd_ok_def)
  have w: "uwrap 32 (dp_offset dp) = dp_offset dp"
    using assms by (intro uwrap_id) (auto simp: snd_ok_def split: if_splits)
  show ?thesis
    using assms o w
    by (cases "largeSDU a")
      (simp_all add: Prepare2Send_def header_marshal_def Let_def put_u8_def put_u16_def put_u32_def snd_ok_def
        frame_len_def filled_def drop_take nth_put_before nth_put_same wire_field_simps)
qed


lemma FillBuf_ok:
  assumes "snd_ok a dp" "off + n \<le> length u"
  shows "\<exists>k dp'. FillBuf u off n dp = (int k, dp') \<and> int k = min (int n) (int (length (dp_buf dp)) - dp_offset dp) \<and>
    snd_ok a dp' \<and> filled dp' = filled dp @ take k (drop off u) \<and> length (dp_buf dp') = length (dp_buf dp) \<and>
    dp_offset dp' = dp_offset dp + int k"
proof -
  obtain j where j: "dp_offset dp = int j" "10 \<le> j" "j \<le> length (dp_buf dp)"
    using assms(1) by (intro that [of "nat (dp_offset dp)"]) (auto simp: snd_ok_def)
  define k where "k = min n (length (dp_buf dp) - j)"
  have k: "int k = min (int n) (int (length (dp_buf dp)) - int j)" "k \<le> n" "j + k \<le> length (dp_buf dp)"
    using j by (auto simp: k_def min_def)
  let ?b = "put_bytes j (take k (drop off u)) (dp_buf dp)"
  have l: "length (take k (drop off u)) = k" using assms(2) k by simp
  have "take (j + k) ?b = take j (dp_buf dp) @ take k (drop off u)"
    using j(3) k l by (simp add: put_bytes_def)
  then have f: "drop 10 (take (j + k) ?b) = drop 10 (take j (dp_buf dp)) @ take k (drop off u)"
    using j by simp
  have "put_bytes j [] b = b" for b :: "byte list" by (simp add: put_bytes_def)
  moreover have "(if int n > dp_bufLen dp - dp_offset dp then dp_bufLen dp - dp_offset dp else int n) = int k"
    using assms(1) j(1) k(1) by (simp add: snd_ok_def)
  ultimately have "FillBuf u off n dp = (int k, dp\<lparr>dp_buf := ?b, dp_offset := int j + int k\<rparr>)"
    using j(1) by (cases "k = 0") (simp_all add: FillBuf_def Let_def)
  moreover have "snd_ok a (dp\<lparr>dp_buf := ?b, dp_offset := int j + int k\<rparr>)"
    using assms(1) j k(3) l by (simp add: snd_ok_def)
  moreover have "filled (dp\<lparr>dp_buf := ?b, dp_offset := int j + int k\<rparr>) = filled dp @ take k (drop off u)"
    using j(1) f by (simp add: filled_def nat_int_add)
  ultimately show ?thesis
    using j(1) k l by (intro exI [of _ k] exI [of _ "dp\<lparr>dp_buf := ?b, dp_offset := int j + int k\<rparr>"]) simp
qed

subsection \<open>What a session has still to read and has written\<close>

definition rcv_ok :: "dataPacket \<Rightarrow> bool" where
  "rcv_ok dp = (0 \<le> dp_offset dp \<and> dp_offset dp \<le> dp_len dp \<and> dp_len dp \<le> int (length (dp_buf dp)))"

definition unread :: "dataPacket \<Rightarrow> byte list" where
  "unread dp = drop (nat (dp_offset dp)) (take (nat (dp_len dp)) (dp_buf dp))"

definition session_inq :: "('nt \<Rightarrow> byte list) \<Rightarrow> 'nt networkSession \<Rightarrow> byte list" where
  "session_inq wi s =
     unread (rcvDatapkt s) @
     (case ntAdapter s of None \<Rightarrow> [] | Some nt \<Rightarrow> data_stream (largeSDU (sAtts s)) (wi nt))"

definition session_outq :: "('nt \<Rightarrow> byte list) \<Rightarrow> nat \<Rightarrow> 'nt networkSession \<Rightarrow> byte list" where
  "session_outq wo base s =
     (case ntAdapter s of None \<Rightarrow> [] | Some nt \<Rightarrow> data_stream (largeSDU (sAtts s)) (drop base (wo nt))) @
     filled (sndDatapkt s)"

text \<open>A session in its data phase: connected over a live adapter, no break or reset under way, no
  compression, whole data packets on the wire in both directions (those written start at
  \<open>base\<close>), no incoming packet larger than the receive buffer, and enough fuel for the bytes
  on the wire.\<close>

definition session_conn ::
  "('nt \<Rightarrow> byte list) \<Rightarrow> ('nt \<Rightarrow> byte list) \<Rightarrow> ('nt \<Rightarrow> bool) \<Rightarrow> nat \<Rightarrow> nat \<Rightarrow> 'nt networkSession \<Rightarrow> bool" where
  "session_conn wi wo lv fuel base s =
     ((case ntAdapter s of
         None \<Rightarrow> False
       | Some nt \<Rightarrow>
           lv nt \<and> frames_ok (largeSDU (sAtts s)) (length (rcvBuf s)) (wi nt) \<and>
           length (wi nt) + 3 < fuel \<and> base \<le> length (wo nt) \<and>
           frames_ok (largeSDU (sAtts s)) (length (dp_buf (sndDatapkt s))) (drop base (wo nt))) \<and>
      snd_ok (sAtts s) (sndDatapkt s) \<and> \<not> isBreak s \<and> \<not> isReset s \<and>
      pendingPacket s = None \<and> \<not> networkCompressionEnabled (sAtts s))"

definition session_good ::
  "('nt \<Rightarrow> byte list) \<Rightarrow> ('nt \<Rightarrow> byte list) \<Rightarrow> ('nt \<Rightarrow> bool) \<Rightarrow> nat \<Rightarrow> nat \<Rightarrow> 'nt networkSession \<Rightarrow> bool" where
  "session_good wi wo lv fuel base s = (session_conn wi wo lv fuel base s \<and> rcv_ok (rcvDatapkt s))"

text \<open>A session over TCP at the start of its data phase, with an SDU of \<open>size\<close> bytes and the
  incoming segments \<open>segs\<close>, and a codec that never shortens; concrete inputs for evaluation.\<close>

definition data_session :: "nat \<Rightarrow> byte list list \<Rightarrow> nttcp networkSession" where
  "data_session sz segs =
     newNetworkSession\<lparr>connected := True, rcvBuf := replicate sz 0, sndBuf := replicate sz 0,
       sndDatapkt := dataPacket_marshal (replicate sz 0) empty_dataPacket,
       ntAdapter := Some \<lparr>nt_connected = True, nt_host = ''db'', nt_hostname = ''db'', nt_originHost = [], nt_port = 1521,
         nt_stream = Some \<lparr>incoming = segs, in_end = ConnFails io_EOF, outgoing = [], out_end = None\<rparr>,
         nt_atts = zero_NTattributes\<rparr>\<rparr>"

definition plain_codec :: codec where
  "plain_codec =
     \<lparr>zlib_Write = Inr, flate_Write = Inr, zlib_NewReader = (\<lambda>_. None), zlib_ReadAll = (\<lambda>b. (b, None)),
      flate_ReadAll = (\<lambda>b. (b, None)), zlib_Close = (\<lambda>_. None), flate_Close = (\<lambda>_. None)\<rparr>"

locale session = nt_adapter A wire_in wire_out live
  for A :: "'nt NTAdapter" and wire_in wire_out :: "'nt \<Rightarrow> byte list" and live :: "'nt \<Rightarrow> bool" +
  fixes Z :: codec and fuel base :: nat
begin

abbreviation "conn \<equiv> session_conn wire_in wire_out live fuel base"
abbreviation "good \<equiv> session_good wire_in wire_out live fuel base"
abbreviation "inq \<equiv> session_inq wire_in"
abbreviation "outq \<equiv> session_outq wire_out base"

lemma SendPacket_plain:
  assumes "8 \<le> length bs" "\<not> networkCompressionEnabled (sAtts s)" "ntAdapter s = Some nt" "live nt"
  shows "\<exists>nt'. SendPacket A Z bs s = (Inr (), s\<lparr>ntAdapter := Some nt'\<rparr>) \<and> live nt' \<and>
    wire_in nt' = wire_in nt \<and> wire_out nt' = wire_out nt @ bs"
proof -
  obtain nt' where "nt_Send A bs nt = (Inr (), nt')" "live nt'" "wire_out nt' = wire_out nt @ bs"
    using send_live [OF assms(4)] by blast
  then show ?thesis
    using assms send_keeps by (fastforce simp: SendPacket_def ns_send_def)
qed

text \<open>Sending the packet being filled puts its bytes on the wire as one frame.\<close>

lemma send_packet_frame:
  assumes "conn s" "int NSPDADAT < dp_offset (sndDatapkt s)"
  shows "\<exists>dp nt'. prepare_send 0 s = (Inr (), s\<lparr>sndDatapkt := dp\<rparr>) \<and> dp_offset dp = dp_offset (sndDatapkt s) \<and>
    length (dp_buf dp) = length (dp_buf (sndDatapkt s)) \<and>
    SendPacket A Z (take (nat (dp_offset dp)) (dp_buf dp)) (s\<lparr>sndDatapkt := dp\<rparr>)
      = (Inr (), s\<lparr>sndDatapkt := dp, ntAdapter := Some nt'\<rparr>) \<and>
    conn (s\<lparr>sndDatapkt := dp_Reset dp, ntAdapter := Some nt'\<rparr>) \<and>
    outq (s\<lparr>sndDatapkt := dp_Reset dp, ntAdapter := Some nt'\<rparr>) = outq s \<and>
    inq (s\<lparr>sndDatapkt := dp_Reset dp, ntAdapter := Some nt'\<rparr>) = inq s \<and> wire_in nt' = wire_in (the (ntAdapter s))"
proof -
  obtain nt where nt: "ntAdapter s = Some nt" "live nt" using assms(1) by (auto simp: session_conn_def split: option.splits)
  have ok: "snd_ok (sAtts s) (sndDatapkt s)" and nc: "\<not> networkCompressionEnabled (sAtts s)"
    using assms(1) by (auto simp: session_conn_def)
  obtain dp where dp: "Prepare2Send 0 (sAtts s) (sndDatapkt s) = Inr dp" "snd_ok (sAtts s) dp"
    "dp_offset dp = dp_offset (sndDatapkt s)" "length (dp_buf dp) = length (dp_buf (sndDatapkt s))"
    "frame_len (largeSDU (sAtts s)) (take (nat (dp_offset dp)) (dp_buf dp)) = nat (dp_offset dp)"
    "uint (dp_buf dp ! 4) = NSPTDA" "filled dp = filled (sndDatapkt s)"
    using Prepare2Send_ok [OF ok assms(2), of 0] by auto
  let ?p = "take (nat (dp_offset dp)) (dp_buf dp)"
  have len: "length ?p = nat (dp_offset dp)" "NSPDADAT < nat (dp_offset dp)" "nat (dp_offset dp) \<le> length (dp_buf dp)"
    using dp(2,3) assms(2) by (auto simp: snd_ok_def)
  obtain nt' where nt': "SendPacket A Z ?p (s\<lparr>sndDatapkt := dp\<rparr>) = (Inr (), s\<lparr>sndDatapkt := dp, ntAdapter := Some nt'\<rparr>)"
    "live nt'" "wire_in nt' = wire_in nt" "wire_out nt' = wire_out nt @ ?p"
    using SendPacket_plain [of ?p "s\<lparr>sndDatapkt := dp\<rparr>" nt] nt nc len by auto
  have fr: "frames_ok (largeSDU (sAtts s)) (length (dp_buf dp)) ?p" "data_stream (largeSDU (sAtts s)) ?p = filled dp"
    using frames_single [of "largeSDU (sAtts s)" ?p "length (dp_buf dp)"] dp(5,6) len by (simp_all add: filled_def)
  have "conn (s\<lparr>sndDatapkt := dp_Reset dp, ntAdapter := Some nt'\<rparr>)"
    using assms(1) nt nt' dp fr frames_append by (simp add: session_conn_def dp_Reset_def snd_ok_def)
  moreover have "data_stream (largeSDU (sAtts s)) (drop base (wire_out nt) @ ?p) =
      data_stream (largeSDU (sAtts s)) (drop base (wire_out nt)) @ filled dp"
    using frames_append(1) [of "largeSDU (sAtts s)" "length (dp_buf (sndDatapkt s))" "drop base (wire_out nt)" ?p]
      assms(1) nt fr by (simp add: session_conn_def)
  then have "outq (s\<lparr>sndDatapkt := dp_Reset dp, ntAdapter := Some nt'\<rparr>) = outq s"
    using assms(1) nt nt' dp(3,7) by (simp add: session_conn_def session_outq_def dp_Reset_def) (simp add: filled_def)
  ultimately show ?thesis
    using dp(1,3,4) nt nt' by (intro exI [of _ dp] exI [of _ nt']) (simp add: prepare_send_def session_inq_def)
qed


text \<open>Flushing, as \<open>recvPacket\<close> and \<open>Flush\<close> do it.\<close>

lemma flush_steps:
  assumes "conn s" "int NSPDADAT < dp_offset (sndDatapkt s)"
  shows "\<exists>s'. bindE (prepare_send 0) (\<lambda>_. bindE (send_filled A Z) (\<lambda>_. snd_reset)) s = (Inr (), s') \<and>
    conn s' \<and> outq s' = outq s \<and> inq s' = inq s \<and> dp_offset (sndDatapkt s') = int NSPDADAT \<and>
    rcvDatapkt s' = rcvDatapkt s \<and> length (dp_buf (sndDatapkt s')) = length (dp_buf (sndDatapkt s)) \<and>
    wire_in (the (ntAdapter s')) = wire_in (the (ntAdapter s))"
proof -
  obtain dp nt' where d: "prepare_send 0 s = (Inr (), s\<lparr>sndDatapkt := dp\<rparr>)" "dp_offset dp = dp_offset (sndDatapkt s)"
    "length (dp_buf dp) = length (dp_buf (sndDatapkt s))"
    "SendPacket A Z (take (nat (dp_offset dp)) (dp_buf dp)) (s\<lparr>sndDatapkt := dp\<rparr>)
      = (Inr (), s\<lparr>sndDatapkt := dp, ntAdapter := Some nt'\<rparr>)"
    "conn (s\<lparr>sndDatapkt := dp_Reset dp, ntAdapter := Some nt'\<rparr>)"
    "outq (s\<lparr>sndDatapkt := dp_Reset dp, ntAdapter := Some nt'\<rparr>) = outq s"
    "inq (s\<lparr>sndDatapkt := dp_Reset dp, ntAdapter := Some nt'\<rparr>) = inq s"
    "wire_in nt' = wire_in (the (ntAdapter s))"
    using send_packet_frame [OF assms] by auto
  have "0 \<le> dp_offset dp" "dp_offset dp \<le> int (length (dp_buf dp))"
    using assms d(2,3) by (auto simp: session_conn_def snd_ok_def)
  then have "send_filled A Z (s\<lparr>sndDatapkt := dp\<rparr>) = (Inr (), s\<lparr>sndDatapkt := dp, ntAdapter := Some nt'\<rparr>)"
    using d(4) by (simp add: send_filled_def Let_def)
  then show ?thesis
    using d(1,3,5-8) by (intro exI [of _ "s\<lparr>sndDatapkt := dp_Reset dp, ntAdapter := Some nt'\<rparr>"]) (simp add: dp_Reset_def)
qed

lemma Flush_ok:
  assumes "good s"
  shows "\<exists>s'. ns_Flush A Z s = (Inr (), s') \<and> good s' \<and> outq s' = outq s \<and> inq s' = inq s \<and>
    dp_offset (sndDatapkt s') = int NSPDADAT \<and> length (dp_buf (sndDatapkt s')) = length (dp_buf (sndDatapkt s))"
proof (cases "int NSPDADAT < dp_offset (sndDatapkt s)")
  case True
  obtain s' where s': "bindE (prepare_send 0) (\<lambda>_. bindE (send_filled A Z) (\<lambda>_. snd_reset)) s = (Inr (), s')"
    "good s'" "outq s' = outq s" "inq s' = inq s" "dp_offset (sndDatapkt s') = int NSPDADAT"
    "length (dp_buf (sndDatapkt s')) = length (dp_buf (sndDatapkt s))"
    using flush_steps [of s] assms True by (auto simp: session_good_def)
  have "bindE (prepare_send 0) (\<lambda>_. bindE (mapErr h (send_filled A Z)) (\<lambda>_. snd_reset)) s = (Inr (), s')" for h
    using s'(1) by (simp add: bindE_Inr_iff)
  then show ?thesis
    using True s' assms by (simp add: ns_Flush_def session_good_def session_conn_def)
next
  case False
  moreover have "int NSPDADAT \<le> dp_offset (sndDatapkt s)" "\<not> isBreak s"
    using assms by (auto simp: session_good_def session_conn_def snd_ok_def)
  ultimately show ?thesis using assms by (simp add: ns_Flush_def)
qed

lemma with_room_ok:
  assumes "good s" "NSPDADAT + n \<le> length (dp_buf (sndDatapkt s))"
  shows "\<exists>s'. with_room A Z n s = (Inr (), s') \<and> good s' \<and> outq s' = outq s \<and> inq s' = inq s \<and>
    dp_offset (sndDatapkt s') + int n \<le> int (length (dp_buf (sndDatapkt s')))"
proof (cases "dp_len (sndDatapkt s) - dp_offset (sndDatapkt s) < int n")
  case True
  then show ?thesis using Flush_ok [OF assms(1)] assms(2) by (auto simp: with_room_def)
next
  case False
  then show ?thesis using assms by (simp add: with_room_def session_good_def session_conn_def snd_ok_def)
qed

lemma append_send_ok:
  assumes "good s" "dp_offset (sndDatapkt s) + int (length bs) \<le> int (length (dp_buf (sndDatapkt s)))"
  shows "\<exists>s'. append_send bs s = (Inr (), s') \<and> good s' \<and> outq s' = outq s @ bs \<and> inq s' = inq s"
proof -
  let ?dp = "sndDatapkt s"
  have "int NSPDADAT \<le> dp_offset ?dp" using assms by (simp add: session_good_def session_conn_def snd_ok_def)
  then obtain k where k: "dp_offset ?dp = int k" "10 \<le> k" "k + length bs \<le> length (dp_buf ?dp)"
    using assms(2) by (intro that [of "nat (dp_offset ?dp)"]) auto
  have "take (k + length bs) (put_bytes k bs (dp_buf ?dp)) = take k (dp_buf ?dp) @ bs"
    using k by (simp add: put_bytes_def)
  then have "drop 10 (take (k + length bs) (put_bytes k bs (dp_buf ?dp))) = drop 10 (take k (dp_buf ?dp)) @ bs"
    using k by simp
  then show ?thesis
    using assms(1) k
    by (simp add: append_send_def Let_def session_good_def session_conn_def snd_ok_def session_outq_def session_inq_def filled_def nat_int_add split: option.splits)
qed


lemma fill_good:
  assumes "good s" "snd_ok (sAtts s) dp" "filled dp = filled (sndDatapkt s) @ bs"
    "length (dp_buf dp) = length (dp_buf (sndDatapkt s))"
  shows "good (s\<lparr>sndDatapkt := dp\<rparr>)" "outq (s\<lparr>sndDatapkt := dp\<rparr>) = outq s @ bs" "inq (s\<lparr>sndDatapkt := dp\<rparr>) = inq s"
  using assms by (auto simp: session_good_def session_conn_def session_outq_def session_inq_def split: option.splits)

lemma Send_loop_ok:
  assumes "good s" "rest = [] \<or> dp_offset (sndDatapkt s) = int (length (dp_buf (sndDatapkt s)))" "length rest \<le> n"
  shows "\<exists>s'. Send_loop A Z n rest s = (Inr (), s') \<and> good s' \<and> outq s' = outq s @ rest \<and> inq s' = inq s"
  using assms
proof (induction n arbitrary: rest s)
  case (Suc n)
  show ?case
  proof (cases "rest = []")
    case False
    then have full: "dp_offset (sndDatapkt s) = int (length (dp_buf (sndDatapkt s)))" using Suc.prems by simp
    have "int NSPDADAT < dp_offset (sndDatapkt s)"
      using full Suc.prems(1) by (simp add: session_good_def session_conn_def snd_ok_def)
    then obtain dp nt' where d: "prepare_send 0 s = (Inr (), s\<lparr>sndDatapkt := dp\<rparr>)"
      "dp_offset dp = int (length (dp_buf dp))" "length (dp_buf dp) = length (dp_buf (sndDatapkt s))"
      "SendPacket A Z (dp_buf dp) (s\<lparr>sndDatapkt := dp\<rparr>) = (Inr (), s\<lparr>sndDatapkt := dp, ntAdapter := Some nt'\<rparr>)"
      "good (s\<lparr>sndDatapkt := dp_Reset dp, ntAdapter := Some nt'\<rparr>)"
      "outq (s\<lparr>sndDatapkt := dp_Reset dp, ntAdapter := Some nt'\<rparr>) = outq s"
      "inq (s\<lparr>sndDatapkt := dp_Reset dp, ntAdapter := Some nt'\<rparr>) = inq s"
      using send_packet_frame [of s] Suc.prems(1) full by (fastforce simp: session_good_def)
    let ?s = "s\<lparr>sndDatapkt := dp_Reset dp, ntAdapter := Some nt'\<rparr>"
    have ok: "snd_ok (sAtts ?s) (sndDatapkt ?s)" "\<not> isBreak s" using d(5) by (simp_all add: session_good_def session_conn_def)
    obtain k dp' where k: "FillBuf rest 0 (length rest) (dp_Reset dp) = (int k, dp')"
      "int k = min (int (length rest)) (int (length (dp_buf dp)) - 10)" "snd_ok (sAtts ?s) dp'"
      "filled dp' = filled (dp_Reset dp) @ take k rest" "length (dp_buf dp') = length (dp_buf dp)"
      "dp_offset dp' = 10 + int k"
      using FillBuf_ok [OF ok(1), of 0 "length rest" rest] by (auto simp: dp_Reset_def)
    have "0 < min (int (length rest)) (int (length (dp_buf dp)) - 10)"
      using False ok(1) by (simp add: snd_ok_def dp_Reset_def)
    then have pos: "0 < k" using k(2) by linarith
    let ?t = "?s\<lparr>sndDatapkt := dp'\<rparr>"
    have t: "good ?t" "outq ?t = outq s @ take k rest" "inq ?t = inq s"
      using fill_good [OF d(5), of dp' "take k rest"] k d(3,6,7) by (simp_all add: dp_Reset_def)
    have "drop k rest = [] \<or> dp_offset dp' = int (length (dp_buf dp'))"
      using k(2,5,6) by auto
    moreover have len: "length (drop k rest) \<le> n" using pos Suc.prems(3) by simp
    ultimately obtain s' where s': "Send_loop A Z n (drop k rest) ?t = (Inr (), s')" "good s'"
      "outq s' = outq ?t @ drop k rest" "inq s' = inq ?t"
      using Suc.IH [of ?t "drop k rest"] t(1) len by auto
    have "Send_loop A Z (Suc n) rest s = (Inr (), s')"
      using False d(1,4) ok(2) k(1) s'(1) by (simp add: finallyE_def)
    then show ?thesis using s' t by simp
  qed (use Suc.prems in simp)
qed simp

lemma Send_ok:
  assumes "good s"
  shows "\<exists>s'. Send A Z (length bs) bs 0 (length bs) s = (Inr (), s') \<and> good s' \<and> outq s' = outq s @ bs \<and> inq s' = inq s"
proof (cases "bs = []")
  case False
  have ok: "snd_ok (sAtts s) (sndDatapkt s)" "\<not> isBreak s" using assms by (simp_all add: session_good_def session_conn_def)
  show ?thesis
  proof (cases "dp_offset (sndDatapkt s) < dp_bufLen (sndDatapkt s)")
    case True
    obtain k dp' where k: "FillBuf bs 0 (length bs) (sndDatapkt s) = (int k, dp')"
      "int k = min (int (length bs)) (int (length (dp_buf (sndDatapkt s))) - dp_offset (sndDatapkt s))" "snd_ok (sAtts s) dp'"
      "filled dp' = filled (sndDatapkt s) @ take k bs" "length (dp_buf dp') = length (dp_buf (sndDatapkt s))"
      "dp_offset dp' = dp_offset (sndDatapkt s) + int k"
      using FillBuf_ok [OF ok(1), of 0 "length bs" bs] by auto
    have "drop k bs = [] \<or> dp_offset dp' = int (length (dp_buf dp'))"
      using k(2,5,6) by auto
    then obtain s' where "Send_loop A Z (length bs) (drop k bs) (s\<lparr>sndDatapkt := dp'\<rparr>) = (Inr (), s')" "good s'"
      "outq s' = outq (s\<lparr>sndDatapkt := dp'\<rparr>) @ drop k bs" "inq s' = inq (s\<lparr>sndDatapkt := dp'\<rparr>)"
      using Send_loop_ok [of "s\<lparr>sndDatapkt := dp'\<rparr>" "drop k bs" "length bs"] fill_good(1) [OF assms k(3,4,5)] by auto
    then show ?thesis
      using False ok(2) True k(1) fill_good [OF assms k(3,4,5)] by (simp add: Send_def)
  next
    case False2: False
    then have "dp_offset (sndDatapkt s) = int (length (dp_buf (sndDatapkt s)))" using ok(1) by (simp add: snd_ok_def)
    then show ?thesis
      using Send_loop_ok [OF assms, of bs "length bs"] False False2 ok(2) by (simp add: Send_def)
  qed
qed (use assms in \<open>simp add: Send_def session_good_def session_conn_def\<close>)

lemma WriteBytes_ok:
  "good s \<Longrightarrow> \<exists>s'. ns_WriteBytesWithContext A Z bs s = (Inr (), s') \<and> good s' \<and> outq s' = outq s @ bs \<and> inq s' = inq s"
  using Send_ok [of s bs] by (simp add: ns_WriteBytesWithContext_def Write_def)

lemma WriteByte_ok:
  assumes "good s"
  shows "\<exists>s'. ns_WriteByteWithContext A Z b s = (Inr (), s') \<and> good s' \<and> outq s' = outq s @ [b] \<and> inq s' = inq s"
proof -
  have "10 + 1 \<le> length (dp_buf (sndDatapkt s))" using assms by (simp add: session_good_def session_conn_def snd_ok_def)
  then obtain t where "with_room A Z 1 s = (Inr (), t)" "good t" "outq t = outq s" "inq t = inq s"
    "dp_offset (sndDatapkt t) + int 1 \<le> int (length (dp_buf (sndDatapkt t)))"
    using with_room_ok [OF assms, of 1] by auto
  then show ?thesis
    using append_send_ok [of t "[b]"] by (simp add: ns_WriteByteWithContext_def)
qed


text \<open>Receiving: the next frame of the wire becomes the receive packet.\<close>

lemma ns_receive_ok:
  assumes "ntAdapter s = Some nt" "live nt" "from + n \<le> to" "to \<le> length (rcvBuf s)" "n \<le> length (wire_in nt)"
  shows "\<exists>nt'. ns_receive A from to n s =
      (Inr (int n), s\<lparr>rcvBuf := put_bytes from (take n (wire_in nt)) (rcvBuf s), ntAdapter := Some nt'\<rparr>) \<and>
    live nt' \<and> wire_in nt' = drop n (wire_in nt) \<and> wire_out nt' = wire_out nt"
proof -
  let ?b = "drop from (take to (rcvBuf s))"
  have le: "n \<le> length ?b" using assms(3,4) by simp
  obtain buf' nt' where r: "nt_Receive A ?b n nt = (Inr (int n), buf', nt')" "live nt'" "wire_out nt' = wire_out nt"
    using receive_live [of nt n ?b] assms le by auto
  obtain bs where bs: "length bs = n" "wire_in nt = bs @ wire_in nt'" "buf' = put_bytes 0 bs ?b"
    using receive_takes [OF r(1)] by blast
  have "put_bytes from (put_bytes 0 bs ?b) (rcvBuf s) = put_bytes from bs (rcvBuf s)"
    using assms(3,4) bs(1) append_take_drop_id [of "to - (from + n)" "drop (from + n) (rcvBuf s)"]
    by (simp add: put_bytes_def drop_take add.commute)
  then show ?thesis
    using r bs assms by (auto simp: ns_receive_def)
qed

lemma read_packet_ok:
  assumes "ntAdapter s = Some nt" "live nt" "NSPDADAT < frame_len (largeSDU (sAtts s)) (wire_in nt)"
    "frame_len (largeSDU (sAtts s)) (wire_in nt) \<le> length (wire_in nt)" "frame_len (largeSDU (sAtts s)) (wire_in nt) \<le> length (rcvBuf s)"
  shows "\<exists>nt' rb. read_packet A s = (Inr (take (frame_len (largeSDU (sAtts s)) (wire_in nt)) (wire_in nt)),
      s\<lparr>rcvBuf := rb, ntAdapter := Some nt'\<rparr>) \<and> length rb = length (rcvBuf s) \<and> live nt' \<and>
    wire_in nt' = drop (frame_len (largeSDU (sAtts s)) (wire_in nt)) (wire_in nt) \<and> wire_out nt' = wire_out nt"
proof -
  define n where "n = frame_len (largeSDU (sAtts s)) (wire_in nt)"
  let ?w = "wire_in nt"
  have d: "10 < n" "n \<le> length ?w" "n \<le> length (rcvBuf s)"
    using assms(3-5) by (simp_all add: n_def)
  have c1: "0 + 8 \<le> length (rcvBuf s)" "8 \<le> length ?w" using d by linarith+
  obtain nt1 where r1: "ns_receive A 0 (length (rcvBuf s)) 8 s =
      (Inr (int 8), s\<lparr>rcvBuf := put_bytes 0 (take 8 ?w) (rcvBuf s), ntAdapter := Some nt1\<rparr>)" "live nt1"
      "wire_in nt1 = drop 8 ?w" "wire_out nt1 = wire_out nt"
    using ns_receive_ok [OF assms(1,2) c1(1) order_refl c1(2)] by blast
  let ?s1 = "s\<lparr>rcvBuf := put_bytes 0 (take 8 ?w) (rcvBuf s), ntAdapter := Some nt1\<rparr>"
  have c2: "ntAdapter ?s1 = Some nt1" "8 + (n - 8) \<le> n" "n \<le> length (rcvBuf ?s1)" "n - 8 \<le> length (wire_in nt1)"
    using d r1(3) by simp_all
  obtain nt2 where r2: "ns_receive A 8 n (n - 8) ?s1 =
      (Inr (int (n - 8)), ?s1\<lparr>rcvBuf := put_bytes 8 (take (n - 8) (wire_in nt1)) (rcvBuf ?s1), ntAdapter := Some nt2\<rparr>)"
      "live nt2" "wire_in nt2 = drop (n - 8) (wire_in nt1)" "wire_out nt2 = wire_out nt1"
    using ns_receive_ok [OF c2(1) r1(2) c2(2-4)] by blast
  have pl: "packet_length (sAtts s) (put_bytes 0 (take 8 ?w) (rcvBuf s)) = n"
    using d by (simp add: packet_length_def n_def frame_len_def put_bytes_def min_def)
  let ?rb = "put_bytes 8 (take (n - 8) (drop 8 ?w)) (put_bytes 0 (take 8 ?w) (rcvBuf s))"
  have rb: "length ?rb = length (rcvBuf s)" using d by simp
  have "take n ?w = take 8 ?w @ take (n - 8) (drop 8 ?w)"
    using d take_add [of 8 "n - 8" ?w] by simp
  then have "take n ?rb = take n ?w"
    using d by (simp add: put_bytes_def)
  then have "read_packet A s = (Inr (take n ?w), s\<lparr>rcvBuf := ?rb, ntAdapter := Some nt2\<rparr>)"
    using d r1(1,3) r2(1) pl by (simp add: read_packet_def Let_def)
  then show ?thesis
    using r1(3,4) r2 rb d unfolding n_def [symmetric] by (intro exI [of _ nt2] exI [of _ ?rb]) simp
qed


lemma processPacket_data:
  assumes "length buf = n" "10 < n" "frame_len (largeSDU (sAtts s)) buf = n" "uint (buf ! 4) = NSPTDA"
    "\<not> networkCompressionEnabled (sAtts s)"
  shows "\<exists>hdr. header_unmarshal buf (sAtts s) = Inr hdr \<and> ptyp hdr = NSPTDA \<and>
    processPacket Z buf hdr s =
      (Inr DataPkt, s\<lparr>rcvDatapkt := (rcvDatapkt s)\<lparr>dp_hdr := hdr, dp_buf := buf, dp_offset := 10, dp_len := int n\<rparr>\<rparr>)"
proof -
  have "take 1 (drop 4 buf) = [buf ! 4]" using assms by (simp add: take_Suc_conv_app_nth take_Suc hd_drop_conv_nth)
  then have t: "be_val (take 1 (drop 4 buf)) = NSPTDA" using assms(4) by (simp add: wire_field_simps)
  have l: "be_val (take (if largeSDU (sAtts s) then 4 else 2) buf) = int n"
    using assms(3) be_val_bounds(1) by (metis frame_len_def int_nat_eq)
  show ?thesis
    using assms l t
    by (cases "largeSDU (sAtts s)")
      (simp_all add: header_unmarshal_def processPacket_def inflate_data_def on_rcv_def dataPacket_unmarshal_def)
qed

lemma recvPacket_data:
  assumes "good s0" "unread (rcvDatapkt s0) = []" "inq s0 \<noteq> []" "0 < f"
  shows "\<exists>s'. recvPacket A Z f (s0\<lparr>rcvDatapkt := dp\<rparr>) = (Inr DataPkt, s') \<and> good s' \<and> inq s' = inq s0 \<and>
    outq s' = outq s0 \<and> unread (rcvDatapkt s') \<noteq> [] \<and> dp_offset (sndDatapkt s') = 10 \<and>
    length (wire_in (the (ntAdapter s'))) + 10 < length (wire_in (the (ntAdapter s0)))"
proof -
  obtain f' where f: "f = Suc f'" using assms(4) by (cases f) auto
  let ?s = "s0\<lparr>rcvDatapkt := dp\<rparr>"
  have cs: "conn ?s" using assms(1) by (auto simp: session_good_def session_conn_def split: option.splits)
  have same: "outq ?s = outq s0" "dp_offset (sndDatapkt ?s) \<ge> 10" "inq ?s = unread dp @ inq s0"
    using cs assms(2) by (auto simp: session_inq_def session_outq_def session_conn_def snd_ok_def split: option.splits)
  obtain t where t: "(if dp_offset (sndDatapkt ?s) > int NSPDADAT
        then bindE (prepare_send 0) (\<lambda>_. bindE (send_filled A Z) (\<lambda>_. snd_reset)) else retE ()) ?s = (Inr (), t)"
    "conn t" "outq t = outq s0" "inq t = inq ?s" "dp_offset (sndDatapkt t) = 10" "rcvDatapkt t = dp"
    "wire_in (the (ntAdapter t)) = wire_in (the (ntAdapter s0))"
    using flush_steps [OF cs] cs same by (cases "dp_offset (sndDatapkt ?s) > 10") auto
  obtain nt where nt: "ntAdapter t = Some nt" "live nt" "frames_ok (largeSDU (sAtts t)) (length (rcvBuf t)) (wire_in nt)"
    using t(2) by (auto simp: session_conn_def split: option.splits)
  have ds: "data_stream (largeSDU (sAtts t)) (wire_in nt) = inq s0"
    using t(4,6) same(3) nt(1) by (simp add: session_inq_def)
  let ?n = "frame_len (largeSDU (sAtts t)) (wire_in nt)"
  have ne: "wire_in nt \<noteq> []" using ds assms(3) by auto
  note d = frames_okD [OF nt(3) ne]
  obtain nt' rb where rp: "read_packet A t = (Inr (take ?n (wire_in nt)), t\<lparr>rcvBuf := rb, ntAdapter := Some nt'\<rparr>)"
    "length rb = length (rcvBuf t)" "live nt'" "wire_in nt' = drop ?n (wire_in nt)" "wire_out nt' = wire_out nt"
    using read_packet_ok [OF nt(1,2) d(1-3)] by blast
  let ?u = "t\<lparr>rcvBuf := rb, ntAdapter := Some nt'\<rparr>"
  have p: "length (take ?n (wire_in nt)) = ?n" "frame_len (largeSDU (sAtts ?u)) (take ?n (wire_in nt)) = ?n"
    "uint (take ?n (wire_in nt) ! 4) = NSPTDA" "\<not> networkCompressionEnabled (sAtts ?u)"
    using d(1,2,4) t(2) by (simp_all add: frame_len_take session_conn_def)
  obtain hdr where h: "header_unmarshal (take ?n (wire_in nt)) (sAtts ?u) = Inr hdr" "ptyp hdr = NSPTDA"
    "processPacket Z (take ?n (wire_in nt)) hdr ?u = (Inr DataPkt, ?u\<lparr>rcvDatapkt := (rcvDatapkt ?u)
      \<lparr>dp_hdr := hdr, dp_buf := take ?n (wire_in nt), dp_offset := 10, dp_len := int ?n\<rparr>\<rparr>)"
    using processPacket_data [OF p(1) d(1) p(2-4)] by blast
  let ?v = "?u\<lparr>rcvDatapkt := (rcvDatapkt ?u)\<lparr>dp_hdr := hdr, dp_buf := take ?n (wire_in nt), dp_offset := 10, dp_len := int ?n\<rparr>\<rparr>"
  have "recvPacket A Z f ?s = (Inr DataPkt, ?v)"
    using t rp(1) h cs by (simp add: f after_read_def session_conn_def)
  moreover have "length (drop ?n (wire_in nt)) + 3 < fuel"
    using t(2) nt(1) by (auto simp: session_conn_def)
  then have "good ?v"
    using t(2) nt rp d by (simp add: session_good_def session_conn_def rcv_ok_def)
  moreover have "outq ?v = outq s0" using t(3) nt rp(5) by (simp add: session_outq_def)
  moreover have "inq ?v = inq s0" "unread (rcvDatapkt ?v) \<noteq> []"
    using ds d rp(4) by (simp_all add: session_inq_def unread_def)
  ultimately show ?thesis
    using rp(4) d t(5,7) nt(1) by (intro exI [of _ ?v]) simp
qed


lemma unread_rcv_ok: "rcv_ok dp \<Longrightarrow> Remaining dp = int (length (unread dp))"
  by (auto simp: rcv_ok_def unread_def Remaining_def)

lemma fillReadBuffer_data:
  assumes "good s0" "unread (rcvDatapkt s0) = []" "inq s0 \<noteq> []"
  shows "\<exists>s'. fillReadBuffer A Z fuel (s0\<lparr>rcvDatapkt := dp\<rparr>) = (Inr (), s') \<and> good s' \<and> inq s' = inq s0 \<and>
    outq s' = outq s0 \<and> unread (rcvDatapkt s') \<noteq> [] \<and>
    length (wire_in (the (ntAdapter s'))) + 10 < length (wire_in (the (ntAdapter s0)))"
proof -
  have "0 < fuel" using assms(1) by (auto simp: session_good_def session_conn_def split: option.splits)
  then obtain s' where s': "recvPacket A Z fuel (s0\<lparr>rcvDatapkt := dp\<rparr>) = (Inr DataPkt, s')" "good s'" "inq s' = inq s0"
    "outq s' = outq s0" "unread (rcvDatapkt s') \<noteq> []"
    "length (wire_in (the (ntAdapter s'))) + 10 < length (wire_in (the (ntAdapter s0)))"
    using recvPacket_data [OF assms] by blast
  moreover have "\<not> isBreak s'" using s'(2) by (simp add: session_good_def session_conn_def)
  ultimately show ?thesis by (simp add: fillReadBuffer_def)
qed

lemma PrepareReadBuffer_ok:
  assumes "good s" "inq s \<noteq> []"
  shows "\<exists>s'. PrepareReadBuffer A Z fuel s = (Inr (), s') \<and> good s' \<and> inq s' = inq s \<and>
    outq s' = outq s \<and> unread (rcvDatapkt s') \<noteq> []"
proof -
  have r: "Remaining (rcvDatapkt s) = int (length (unread (rcvDatapkt s)))"
    using assms(1) by (intro unread_rcv_ok) (simp add: session_good_def)
  show ?thesis
  proof (cases "unread (rcvDatapkt s) = []")
    case True
    then show ?thesis
      using r fillReadBuffer_data [OF assms(1) True assms(2)] by (fastforce simp: PrepareReadBuffer_def Remaining_def)
  next
    case False
    moreover from this have "dp_len (rcvDatapkt s) - dp_offset (rcvDatapkt s) \<noteq> 0" using r by (simp add: Remaining_def)
    ultimately show ?thesis using assms by (simp only: PrepareReadBuffer_def bindE_getE) simp
  qed
qed

lemma Read_ok:
  assumes "good s" "n \<le> length (unread (rcvDatapkt s))"
  shows "\<exists>s'. on_rcv (dp_Read (int n)) s = (Inr (take n (unread (rcvDatapkt s))), s') \<and> good s' \<and>
    inq s' = drop n (inq s) \<and> outq s' = outq s \<and> unread (rcvDatapkt s') = drop n (unread (rcvDatapkt s)) \<and>
    ntAdapter s' = ntAdapter s"
proof -
  let ?dp = "rcvDatapkt s"
  obtain j l where j: "dp_offset ?dp = int j" "dp_len ?dp = int l" "j \<le> l" "l \<le> length (dp_buf ?dp)"
    using assms(1) by (intro that [of "nat (dp_offset ?dp)" "nat (dp_len ?dp)"]) (auto simp: session_good_def rcv_ok_def)
  have n: "j + n \<le> l" using assms(2) j by (auto simp: unread_def)
  have "dp_Read (int n) ?dp = (Inr (take n (unread ?dp)), ?dp\<lparr>dp_offset := int (j + n)\<rparr>)"
    using j n by (simp add: dp_Read_def unread_def drop_take min_def)
  moreover have "unread (?dp\<lparr>dp_offset := int (j + n)\<rparr>) = drop n (unread ?dp)"
    using j by (simp add: unread_def add.commute nat_int_add)
  moreover have "good (s\<lparr>rcvDatapkt := ?dp\<lparr>dp_offset := int (j + n)\<rparr>\<rparr>)"
    using assms(1) j n by (auto simp: session_good_def session_conn_def rcv_ok_def split: option.splits)
  ultimately show ?thesis
    using assms(2) by (intro exI [of _ "s\<lparr>rcvDatapkt := ?dp\<lparr>dp_offset := int (j + n)\<rparr>\<rparr>"])
      (auto simp: on_rcv_def session_inq_def session_outq_def split: option.splits)
qed

lemma readMultiPacket_loop_ok:
  assumes "good s" "inq s = bs @ q" "n + length bs = want" "want \<le> length buf"
    "length (wire_in (the (ntAdapter s))) + (if unread (rcvDatapkt s) = [] then 1 else 2) \<le> rounds"
  shows "\<exists>s'. readMultiPacket_loop A Z fuel rounds want n buf s = (Inr (put_bytes n bs buf), s') \<and>
    good s' \<and> inq s' = q \<and> outq s' = outq s"
  using assms
proof (induction rounds arbitrary: s bs n buf)
  case 0
  then show ?case by (simp split: if_splits)
next
  case (Suc rounds)
  show ?case
  proof (cases "bs = []")
    case True
    then show ?thesis using Suc.prems by (simp add: put_bytes_def)
  next
    case False
    then have lt: "n < want" using Suc.prems(3) by (cases bs) auto
    have r: "Remaining (rcvDatapkt s) = int (length (unread (rcvDatapkt s)))"
      using Suc.prems(1) by (intro unread_rcv_ok) (simp add: session_good_def)
    show ?thesis
    proof (cases "unread (rcvDatapkt s) = []")
      case True
      obtain s' where s': "fillReadBuffer A Z fuel (s\<lparr>rcvDatapkt := rcvDatapkt s\<rparr>) = (Inr (), s')" "good s'" "inq s' = inq s"
        "outq s' = outq s" "unread (rcvDatapkt s') \<noteq> []"
        "length (wire_in (the (ntAdapter s'))) + 10 < length (wire_in (the (ntAdapter s)))"
        using fillReadBuffer_data [OF Suc.prems(1) True, of "rcvDatapkt s"] Suc.prems(2) False by auto
      obtain s'' where "readMultiPacket_loop A Z fuel rounds want n buf s' = (Inr (put_bytes n bs buf), s'')"
        "good s''" "inq s'' = q" "outq s'' = outq s'"
        using Suc.IH [of s' bs n buf] s' Suc.prems by auto
      then show ?thesis using lt r True s'(1,4) by simp
    next
      case ne: False
      define k where "k = min (length bs) (length (unread (rcvDatapkt s)))"
      have k: "0 < k" "k \<le> length bs" "k \<le> length (unread (rcvDatapkt s))"
        using False ne by (auto simp: k_def)
      obtain s' where s': "on_rcv (dp_Read (int k)) s = (Inr (take k (unread (rcvDatapkt s))), s')" "good s'"
        "inq s' = drop k (inq s)" "outq s' = outq s" "unread (rcvDatapkt s') = drop k (unread (rcvDatapkt s))"
        "ntAdapter s' = ntAdapter s"
        using Read_ok [OF Suc.prems(1) k(3)] by blast
      have "take k (unread (rcvDatapkt s)) = take k (inq s)" using k(3) by (simp add: session_inq_def)
      then have tk: "take k (unread (rcvDatapkt s)) = take k bs" using Suc.prems(2) k(2) by simp
      have m: "(if int (want - n) > Remaining (rcvDatapkt s) then Remaining (rcvDatapkt s) else int (want - n)) = int k"
        using r Suc.prems(3) by (auto simp: k_def)
      have dr: "inq s' = drop k bs @ q" using s'(3) Suc.prems(2) k(2) by simp
      have step: "readMultiPacket_loop A Z fuel (Suc rounds) want n buf s =
          readMultiPacket_loop A Z fuel rounds want (n + k) (put_bytes n (take k bs) buf) s'"
        using lt r ne s'(1) tk m k(2) by (simp add: Let_def)
      have fit: "n + k + length (drop k bs) = want" "want \<le> length (put_bytes n (take k bs) buf)"
        using Suc.prems(3,4) k(2) by auto
      have join: "put_bytes (n + k) (drop k bs) (put_bytes n (take k bs) buf) = put_bytes n bs buf"
        using put_bytes_append [of n "take k bs" "drop k bs" buf] k(2) Suc.prems(3,4) by simp
      show ?thesis
      proof (cases "k = length bs")
        case True
        moreover obtain r' where "rounds = Suc r'" using Suc.prems(5) ne by (cases rounds) auto
        ultimately show ?thesis
          using step s' dr join Suc.prems(3) by (simp add: Let_def)
      next
        case nk: False
        then have "unread (rcvDatapkt s') = []" using s'(5) by (auto simp: k_def min_def split: if_splits)
        then have "\<exists>s''. readMultiPacket_loop A Z fuel rounds want (n + k) (put_bytes n (take k bs) buf) s' =
            (Inr (put_bytes (n + k) (drop k bs) (put_bytes n (take k bs) buf)), s'') \<and> good s'' \<and> inq s'' = q \<and> outq s'' = outq s'"
          using Suc.prems(5) ne s'(6) by (intro Suc.IH [OF s'(2) dr fit]) simp
        then show ?thesis using step join s'(4) by auto
      qed
    qed
  qed
qed

lemma readNBytes_ok:
  assumes "good s" "inq s = bs @ q" "0 < length bs"
  shows "\<exists>s'. readNBytes A Z fuel (length bs) s = (Inr bs, s') \<and> good s' \<and> inq s' = q \<and> outq s' = outq s"
proof -
  obtain t where t: "PrepareReadBuffer A Z fuel s = (Inr (), t)" "good t" "inq t = inq s" "outq t = outq s"
      "unread (rcvDatapkt t) \<noteq> []"
    using PrepareReadBuffer_ok [OF assms(1)] assms(2,3) by fastforce
  have r: "Remaining (rcvDatapkt t) = int (length (unread (rcvDatapkt t)))"
    using t(2) by (intro unread_rcv_ok) (simp add: session_good_def)
  show ?thesis
  proof (cases "length bs \<le> length (unread (rcvDatapkt t))")
    case True
    then have "take (length bs) (unread (rcvDatapkt t)) = take (length bs) (inq t)" by (simp add: session_inq_def)
    then show ?thesis
      using Read_ok [OF t(2) True] t assms(2) r True by (auto simp: readNBytes_def)
  next
    case False
    have "length (wire_in (the (ntAdapter t))) + 2 \<le> fuel"
      using t(2) by (auto simp: session_good_def session_conn_def split: option.splits)
    then show ?thesis
      using readMultiPacket_loop_ok [OF t(2), of bs q 0 "length bs" "replicate (length bs) 0" fuel] t assms(2) r False
      by (auto simp: readNBytes_def readMultiPacket_def put_bytes_def)
  qed
qed


lemma ReadByte_ok:
  assumes "good s" "inq s = b # q"
  shows "\<exists>s'. ns_ReadByteWithContext A Z fuel s = (Inr b, s') \<and> good s' \<and> inq s' = q \<and> outq s' = outq s"
proof -
  obtain t where t: "PrepareReadBuffer A Z fuel s = (Inr (), t)" "good t" "inq t = inq s" "outq t = outq s"
      "unread (rcvDatapkt t) \<noteq> []"
    using PrepareReadBuffer_ok [OF assms(1)] assms(2) by auto
  then have u: "unread (rcvDatapkt t) = b # tl (unread (rcvDatapkt t))"
    using assms(2) by (cases "unread (rcvDatapkt t)") (auto simp: session_inq_def)
  let ?dp = "rcvDatapkt t"
  have "Suc 0 \<le> length (unread ?dp)" using u by (cases "unread ?dp") auto
  then obtain s' where s': "on_rcv (dp_Read (int 1)) t = (Inr (take 1 (unread ?dp)), s')" "good s'"
    "inq s' = drop 1 (inq t)" "outq s' = outq t"
    using Read_ok [OF t(2), of 1] by auto
  have "on_rcv dp_ReadByte t = (Inr b, s')"
  proof -
    obtain j l where j: "dp_offset ?dp = int j" "dp_len ?dp = int l" "j \<le> l" "l \<le> length (dp_buf ?dp)"
      using t(2) by (intro that [of "nat (dp_offset ?dp)" "nat (dp_len ?dp)"]) (auto simp: session_good_def rcv_ok_def)
    moreover have "j < l" using u j by (cases "j < l") (auto simp: unread_def)
    moreover from this have "dp_buf ?dp ! j = b"
      using u j by (simp add: unread_def Cons_nth_drop_Suc [symmetric])
    moreover have "dp_Read 1 ?dp = (Inr (take 1 (drop j (dp_buf ?dp))), ?dp\<lparr>dp_offset := int j + 1\<rparr>)"
      using j calculation by (simp add: dp_Read_def)
    ultimately show ?thesis using s'(1) by (simp add: on_rcv_def dp_ReadByte_def)
  qed
  then show ?thesis
    using t s' assms(2) by (simp add: ns_ReadByteWithContext_def ReadUI8_def)
qed

end

sublocale session \<subseteq> buffer: data_buffer "ns_buffer A Z fuel" "session_inq wire_in" "session_outq wire_out base"
    "session_good wire_in wire_out live fuel base"
proof unfold_locales
  fix s bs q
  assume "good s" "inq s = bs @ q" "0 < length bs" "length bs < 2 ^ 31"
  then show "\<exists>s'. ReadBytesWithContext (ns_buffer A Z fuel) (int (length bs)) s = (Inr bs, s') \<and> good s' \<and> inq s' = q \<and> outq s' = outq s"
    using readNBytes_ok by (simp add: ns_buffer_def ns_ReadBytesWithContext_def)
qed (simp_all add: ns_buffer_def WriteByte_ok WriteBytes_ok ReadByte_ok)

interpretation tcp_session: session tcp_adapter tcp_in tcp_out tcp_live Z fuel base for Z fuel base
  by unfold_locales

end
