(* ===== verification/Marshal_Session.thy ===== *)
theory Marshal_Session
  imports Marshal_Roundtrip NS_Framing
begin

text \<open>
  The marshal engine over the network session over TCP: what one session marshals, another one
  that receives the same bytes unmarshals, whatever the packets and TCP segments look like.
\<close>

lemma NewMarshalEngine_buffer [simp]: "dataBuffer (NewMarshalEngine D order types) = D"
  by (simp add: NewMarshalEngine_def)

text \<open>The bytes of a value depend on the type table and the byte order only.\<close>

lemma int_bytes_New: "int_bytes (NewMarshalEngine D order types) i v = int_bytes (NewMarshalEngine D' order types) i v"
  by (simp add: int_bytes_def NewMarshalEngine_def Let_def)

lemma clr_chunks_New: "clr_chunks (NewMarshalEngine D order types) bs = clr_chunks (NewMarshalEngine D' order types) bs"
proof (induction bs rule: length_induct)
  case (1 bs)
  show ?case
  proof (cases "bs = []")
    case False
    then have "clr_chunks (NewMarshalEngine D order types) (drop checkSize bs) = clr_chunks (NewMarshalEngine D' order types) (drop checkSize bs)"
      using 1 by simp
    then show ?thesis
      using clr_chunks.simps [of "NewMarshalEngine D order types" bs] clr_chunks.simps [of "NewMarshalEngine D' order types" bs]
        int_bytes_New [of D order types _ _ D'] by simp
  qed (simp add: clr_chunks.simps int_bytes_New [of D order types _ _ D'])
qed

lemma clr_bytes_New: "clr_bytes (NewMarshalEngine D order types) bs = clr_bytes (NewMarshalEngine D' order types) bs"
  using clr_chunks_New [of D order types bs D'] by (simp add: clr_bytes_def)

interpretation ttc: marshal_engine "ns_buffer tcp_adapter Z fuel" "session_inq tcp_in" "session_outq tcp_out base"
    "session_good tcp_in tcp_out tcp_live fuel base" "NewMarshalEngine (ns_buffer tcp_adapter Z fuel) order types"
  for Z fuel base order types
  by unfold_locales (simp_all add: engine_ok_New)

abbreviation tcp_good :: "nat \<Rightarrow> nat \<Rightarrow> nttcp networkSession \<Rightarrow> bool" where
  "tcp_good \<equiv> session_good tcp_in tcp_out tcp_live"

text \<open>After a flush everything written is on the wire.\<close>

lemma flushed_wire:
  assumes "tcp_good fuel base s"
  shows "\<exists>s' nt. ns_Flush tcp_adapter Z s = (Inr (), s') \<and> tcp_good fuel base s' \<and> ntAdapter s' = Some nt \<and>
    data_stream (largeSDU (sAtts s')) (drop base (tcp_out nt)) = session_outq tcp_out base s"
proof -
  obtain s' where s': "ns_Flush tcp_adapter Z s = (Inr (), s')" "tcp_good fuel base s'"
    "session_outq tcp_out base s' = session_outq tcp_out base s" "dp_offset (sndDatapkt s') = 10"
    using tcp_session.Flush_ok [OF assms, of Z] by auto
  then obtain nt where "ntAdapter s' = Some nt"
    by (auto simp: session_good_def session_conn_def split: option.splits)
  then show ?thesis
    using s' by (auto simp: session_outq_def filled_def)
qed




end
