(* ===== verification/NS_Reset.thy ===== *)
theory NS_Reset
  imports NS_Framing
begin

text \<open>
  The break/reset protocol: the mutually recursive \<open>recvPacket\<close> and \<open>Reset\<close> end whatever the
  peer sends (every packet taken off the wire or off the push-back slot lowers the backlog,
  and a read that finds no more bytes fails), and a cancelled operation resynchronises the two
  ends: everything up to the server's reset marker is dropped, everything after it is kept.
\<close>

subsection \<open>Termination\<close>

context nt_adapter
begin

text \<open>The bytes and packets that a session has still to receive.\<close>

definition backlog :: "'nt networkSession \<Rightarrow> nat" where
  "backlog s =
     (case ntAdapter s of None \<Rightarrow> 0 | Some nt \<Rightarrow> length (wire_in nt)) + (if pendingPacket s = None then 0 else 1)"

text \<open>An operation that ends, with or without an error, and leaves the backlog, the flag of a
  reset under way and the size of the receive buffer as they were.\<close>

abbreviation ends :: "(go_error \<Rightarrow> 'nt networkSession \<Rightarrow> bool)" where
  "ends \<equiv> \<lambda>e _. e \<noteq> OutOfFuel"

definition steady :: "('nt networkSession, 'a) op \<Rightarrow> bool" where
  "steady f = (\<forall>s. wp f (\<lambda>_ t. backlog t = backlog s \<and> resetInProgress t = resetInProgress s \<and> pendingPacket t = pendingPacket s) ends s)"

lemma steady_wp:
  assumes "steady f" "\<And>v t. backlog t = backlog s \<Longrightarrow> resetInProgress t = resetInProgress s \<Longrightarrow> pendingPacket t = pendingPacket s \<Longrightarrow> Q v t"
  shows "wp f Q ends s"
  using assms by (auto simp: steady_def intro: wp_mono)

lemma steady_bindE: "steady f \<Longrightarrow> (\<And>v. steady (k v)) \<Longrightarrow> steady (bindE f k)"
proof -
  assume f: "steady f" and k: "\<And>v. steady (k v)"
  have "wp f (\<lambda>v. wp (k v) (\<lambda>_ t. backlog t = backlog s \<and> resetInProgress t = resetInProgress s \<and> pendingPacket t = pendingPacket s) ends) ends s" for s
    by (rule steady_wp [OF f], rule steady_wp [OF k]) simp
  then show ?thesis by (simp add: steady_def wp_bindE)
qed

lemma steady_simple [intro, simp]:
  "steady (retE v)" "e \<noteq> OutOfFuel \<Longrightarrow> steady (throwE e)" "steady (getE g)" 
  by (simp_all add: steady_def wp_simps)

lemma steady_liftE: "r \<noteq> Inl OutOfFuel \<Longrightarrow> steady (liftE r)"
  by (auto simp: steady_def wp_simps split: sum.splits)

lemma steady_modE:
  "(\<And>s. ntAdapter (f s) = ntAdapter s \<and> pendingPacket (f s) = pendingPacket s \<and> resetInProgress (f s) = resetInProgress s) \<Longrightarrow> steady (modE f)"
  by (simp add: steady_def wp_simps backlog_def)

lemma backlog_upd [simp]:
  "backlog (s\<lparr>resetInProgress := b\<rparr>) = backlog s" "backlog (s\<lparr>breakPosted := b\<rparr>) = backlog s"
  "backlog (end_reset s) = backlog s" "resetInProgress (end_reset s) = resetInProgress s"
  by (simp_all add: backlog_def end_reset_def)

lemma steady_send: "steady (ns_send A bs)"
  using send_keeps
  by (fastforce simp: steady_def wp_def ns_send_def backlog_def split: option.splits prod.splits sum.splits)

lemma steady_SendPacket: "steady (SendPacket A Z bs)"
  by (auto simp: SendPacket_def Let_def intro!: steady_bindE steady_send steady_modE split: sum.splits)

lemma Prepare2Send_fuel: "Prepare2Send fl a dp \<noteq> Inl OutOfFuel"
  by (auto simp: Prepare2Send_def header_marshal_def andThen_def Let_def)

lemma steady_prepare_send: "steady (prepare_send fl)"
  using Prepare2Send_fuel by (auto simp: steady_def wp_def prepare_send_def backlog_def split: sum.splits)

lemma steady_send_filled: "steady (send_filled A Z)"
  using steady_SendPacket [of Z] by (auto simp: steady_def wp_def send_filled_def Let_def)

lemma no_panic_fuel: "no_panic r \<Longrightarrow> r \<noteq> Inl OutOfFuel"
  by auto

lemma steady_parts:
  "(\<And>a. fst (g a) \<noteq> Inl OutOfFuel) \<Longrightarrow> steady (atts_op g)"
  "(\<And>c. fst (h c) \<noteq> Inl OutOfFuel) \<Longrightarrow> steady (control_op h)"
  "(\<And>d. fst (k d) \<noteq> Inl OutOfFuel) \<Longrightarrow> steady (on_rcv k)"
  by (auto simp: steady_def wp_def atts_op_def control_op_def on_rcv_def backlog_def split: prod.splits sum.splits) (metis fst_conv)+

lemma rd_fuel: "rd_bytes buf i n \<noteq> Inl OutOfFuel" "rd_u8 buf i \<noteq> Inl OutOfFuel" "rd_u16 buf i \<noteq> Inl OutOfFuel"
  by (auto simp: rd_u8_def rd_u16_def rd_bytes_def)

lemma andThen_fuel: "r \<noteq> Inl OutOfFuel \<Longrightarrow> (\<And>v. k v \<noteq> Inl OutOfFuel) \<Longrightarrow> andThen r k \<noteq> Inl OutOfFuel"
  by (cases r) auto

lemma refuse_redirect_fuel:
  "refusePacket_unmarshal buf h \<noteq> Inl OutOfFuel" "redirectPacket_unmarshal buf h \<noteq> Inl OutOfFuel"
  unfolding refusePacket_unmarshal_def redirectPacket_unmarshal_def
  by (auto simp: rd_bytes_def rd_u8_def rd_u16_def)

lemma decompress_fuel: "decompress Z first payload \<noteq> Inl OutOfFuel"
  by (auto simp: decompress_def Let_def split: option.splits prod.splits)

lemma steady_inflate: "steady (inflate_data Z buf hdr)"
  unfolding inflate_data_def Let_def
  by (auto intro!: steady_bindE steady_liftE steady_modE decompress_fuel rd_fuel split: sum.splits)

lemma note_marker_simps [simp]:
  "ntAdapter (note_marker p s) = ntAdapter s" "pendingPacket (note_marker p s) = pendingPacket s"
  "resetInProgress (note_marker p s) = resetInProgress s"
  by (simp_all add: note_marker_def)

lemma steady_processPacket: "steady (processPacket Z buf hdr)"
  unfolding processPacket_def
  by (auto intro!: steady_bindE steady_liftE steady_modE steady_parts steady_inflate refuse_redirect_fuel
      no_panic_fuel unmarshal_no_panic split: prod.splits)


lemma ns_receive_shrinks:
  "wp (ns_receive A from to n)
     (\<lambda>_ t. backlog t + n \<le> backlog s \<and> resetInProgress t = resetInProgress s \<and> pendingPacket t = pendingPacket s) ends s"
  using receive_takes receive_fuel
  by (fastforce simp: wp_def ns_receive_def backlog_def split: option.splits prod.splits sum.splits)

lemma ns_receive_wp:
  assumes "\<And>v t. backlog t + n \<le> backlog s \<Longrightarrow> resetInProgress t = resetInProgress s \<Longrightarrow> pendingPacket t = pendingPacket s \<Longrightarrow> Q v t"
  shows "wp (ns_receive A from to n) Q ends s"
  by (rule wp_mono [OF ns_receive_shrinks]) (use assms in auto)

lemma read_packet_shrinks:
  "wp (read_packet A) (\<lambda>_ t. backlog t < backlog s \<and> resetInProgress t = resetInProgress s \<and> pendingPacket t = pendingPacket s) ends s"
  unfolding read_packet_def
  by (auto simp: wp_simps Let_def intro!: ns_receive_wp) linarith+

text \<open>Draining packets during a reset.\<close>

lemma reset_loop_ends:
  assumes recv: "\<And>s. backlog s < f \<Longrightarrow> wp recv (\<lambda>_ t. backlog t < backlog s \<and> resetInProgress t = resetInProgress s) ends s"
    and "backlog s < f" "backlog s < n"
  shows "wp (reset_loop recv n) (\<lambda>_ t. backlog t \<le> backlog s) ends s"
  using assms(2,3)
proof (induction n arbitrary: s)
  case (Suc n)
  have "wp recv (\<lambda>_. wp (reset_loop recv n) (\<lambda>_ t. backlog t \<le> backlog s) ends) ends s"
    by (rule wp_mono [OF recv [OF Suc.prems(1)]]) (use Suc in \<open>auto intro!: wp_mono [OF Suc.IH]\<close>)
  then show ?case unfolding reset_loop.simps wp_simps by (simp add: wp_simps)
qed simp

lemma wp_finallyE: "wp (finallyE m f) Q E s = wp m (\<lambda>v t. Q v (f t)) (\<lambda>e t. E e (f t)) s"
  by (auto simp: wp_def finallyE_def split: prod.splits sum.splits)

lemma steady_send_marker: "steady (send_marker A Z d)"
proof -
  have "markerPacket_marshal a d \<noteq> Inl OutOfFuel" for a
    by (auto simp: markerPacket_marshal_def header_marshal_def Let_def)
  then show ?thesis by (auto simp: send_marker_def intro!: steady_bindE steady_liftE steady_SendPacket)
qed

lemma Reset_with_ends:
  assumes recv: "\<And>s. backlog s < f \<Longrightarrow> wp recv (\<lambda>_ t. backlog t < backlog s \<and> resetInProgress t = resetInProgress s) ends s"
    and "backlog s < f"
  shows "wp (Reset_with A Z recv f) (\<lambda>_ t. backlog t \<le> backlog s \<and> resetInProgress t = resetInProgress s) ends s"
proof -
  let ?k = "\<lambda>t :: 'nt networkSession. backlog t = backlog s"
  have loop: "wp (reset_loop recv f) Q ends t" if "?k t" "\<And>u. backlog u \<le> backlog s \<Longrightarrow> Q () u" for t Q
    by (rule wp_mono [OF reset_loop_ends [OF recv]]) (use that assms(2) in auto)
  have mark: "wp (send_marker A Z d) Q ends t" if "?k t" "\<And>u. ?k u \<Longrightarrow> Q () u" for d Q t
    by (rule steady_wp [OF steady_send_marker]) (use that in auto)
  show ?thesis
    unfolding Reset_with_def
    by (auto simp: wp_simps wp_finallyE intro!: mark loop)
qed

lemma recvPacket_ends:
  "backlog s < f \<Longrightarrow> wp (recvPacket A Z f) (\<lambda>_ t. backlog t < backlog s \<and> resetInProgress t = resetInProgress s) ends s"
proof (induction f arbitrary: s)
  case (Suc f)
  let ?Q = "\<lambda>_ t. backlog t < backlog s \<and> resetInProgress t = resetInProgress s"
  have hdr: "header_unmarshal b a \<noteq> Inl OutOfFuel" for b a
    by (rule no_panic_fuel) (rule header_no_panic)
  have reset: "wp (bindE (Reset_with A Z (recvPacket A Z f) f) (\<lambda>_. recvPacket A Z f)) ?Q ends t"
    if "backlog t < backlog s" "resetInProgress t = resetInProgress s" for t
    unfolding wp_bindE
    by (rule wp_mono [OF Reset_with_ends [OF Suc.IH]]) (use that Suc.prems in \<open>auto intro!: wp_mono [OF Suc.IH]\<close>)
  have after: "wp (after_read A Z (recvPacket A Z f) f buf) ?Q ends t"
    if t: "backlog t < backlog s" "resetInProgress t = resetInProgress s" for t buf
  proof -
    have "wp (processPacket Z buf h) (\<lambda>p u. wp (if ptyp h = NSPTMK \<and> isBreak u \<and> \<not> isReset u
        then if resetInProgress u then retE p else bindE (Reset_with A Z (recvPacket A Z f) f) (\<lambda>_. recvPacket A Z f)
        else retE p) ?Q ends u) ends t" for h
      by (rule steady_wp [OF steady_processPacket]) (use t reset in \<open>auto simp: wp_simps\<close>)
    then show ?thesis
      unfolding after_read_def wp_bindE wp_getE wp_liftE using hdr by (auto split: sum.splits)
  qed
  show ?case
  proof (cases "pendingPacket s")
    case (Some buf)
    let ?t = "s\<lparr>pendingPacket := None\<rparr>"
    have "backlog ?t < backlog s" using Some by (simp add: backlog_def)
    then have "wp (processPacket Z buf hdr) ?Q ends ?t" for hdr
      by (intro steady_wp [OF steady_processPacket]) auto
    then show ?thesis
      unfolding recvPacket.simps wp_bindE wp_getE Some option.case wp_modE wp_liftE
      using hdr by (auto split: sum.splits)
  next
    case None
    have read: "wp (read_packet A) (\<lambda>buf. wp (after_read A Z (recvPacket A Z f) f buf) ?Q ends) ends t"
      if "backlog t = backlog s" "resetInProgress t = resetInProgress s" for t
      by (rule wp_mono [OF read_packet_shrinks]) (use that after in auto)
    have flush: "steady (bindE (prepare_send 0) (\<lambda>_. bindE (send_filled A Z) (\<lambda>_. snd_reset)))"
      by (intro steady_bindE steady_prepare_send steady_send_filled steady_modE) simp
    have "wp (if dp_offset (sndDatapkt s) > int NSPDADAT
        then bindE (prepare_send 0) (\<lambda>_. bindE (send_filled A Z) (\<lambda>_. snd_reset)) else retE ())
        (\<lambda>_. wp (read_packet A) (\<lambda>buf. wp (after_read A Z (recvPacket A Z f) f buf) ?Q ends) ends) ends s"
      by (rule steady_wp) (use flush read in auto)
    then show ?thesis
      unfolding recvPacket.simps wp_bindE wp_getE None option.case .
  qed
qed simp

end


declare recvPacket.simps [simp del]

subsection \<open>Markers on the wire\<close>

definition marker_bytes :: "bool \<Rightarrow> byte \<Rightarrow> byte list" where
  "marker_bytes large d = (if large then [0, 0, 0, 11] else [0, 11, 0, 0]) @ [12, 0, 0, 0, 1, 0, d]"

lemma marker_sent:
  "\<exists>p. markerPacket_marshal a d = Inr p \<and> mp_buf p = marker_bytes (largeSDU a) (word_of_int d)"
  by (auto simp: markerPacket_marshal_def header_marshal_def Let_def marker_bytes_def put_u8_def put_u16_def put_u32_def
      put_bytes_def empty_header_def eval_nat_numeral)

lemma marker_received:
  "\<exists>hdr p. header_unmarshal (marker_bytes (largeSDU a) d) a = Inr hdr \<and> ptyp hdr = NSPTMK \<and>
    markerPacket_unmarshal (marker_bytes (largeSDU a) d) hdr = Inr p \<and> markerType p = NSPMKTD1 \<and> mp_data p = uint d"
  by (auto simp: header_unmarshal_def markerPacket_unmarshal_def marker_bytes_def be_val_def)

lemma marker_frame:
  "length (marker_bytes large d) = 11" "frame_len large (marker_bytes large d @ q) = 11"
  by (simp_all add: marker_bytes_def frame_len_def be_val_def)

context session
begin

text \<open>A session that waits for the reset marker with nothing left to send.\<close>

definition waiting :: "'nt networkSession \<Rightarrow> bool" where
  "waiting s = (resetInProgress s \<and> pendingPacket s = None \<and> \<not> networkCompressionEnabled (sAtts s) \<and>
     dp_offset (sndDatapkt s) \<le> int NSPDADAT)"

lemma recv_waiting:
  assumes "waiting s" "read_packet A s = (Inr buf, s1)" "header_unmarshal buf (sAtts s1) = Inr hdr"
    "processPacket Z buf hdr s1 = (Inr p, s2)" "resetInProgress s2"
  shows "recvPacket A Z (Suc f) s = (Inr p, s2)"
  using assms by (simp add: waiting_def recvPacket.simps after_read_def)

text \<open>Data packets in flight are read and dropped.\<close>

lemma drain_data:
  assumes "waiting s" "ntAdapter s = Some nt" "live nt" "wire_in nt = w @ v" "w \<noteq> []"
    "frames_ok (largeSDU (sAtts s)) (length (rcvBuf s)) w"
  shows "\<exists>rb nt' dp. recvPacket A Z (Suc f) s = (Inr DataPkt, s\<lparr>rcvBuf := rb, ntAdapter := Some nt', rcvDatapkt := dp\<rparr>) \<and>
    length rb = length (rcvBuf s) \<and> live nt' \<and> wire_out nt' = wire_out nt \<and>
    wire_in nt' = drop (frame_len (largeSDU (sAtts s)) w) w @ v"
proof -
  let ?n = "frame_len (largeSDU (sAtts s)) w"
  note d = frames_okD [OF assms(6,5)]
  have n: "frame_len (largeSDU (sAtts s)) (wire_in nt) = ?n"
    using d(1,2) assms(4) by (simp add: frame_len_append)
  obtain nt' rb where r: "read_packet A s = (Inr (take ?n w), s\<lparr>rcvBuf := rb, ntAdapter := Some nt'\<rparr>)"
    "length rb = length (rcvBuf s)" "live nt'" "wire_in nt' = drop ?n w @ v" "wire_out nt' = wire_out nt"
    using read_packet_ok [OF assms(2,3)] n d(1-3) assms(4) by auto
  let ?u = "s\<lparr>rcvBuf := rb, ntAdapter := Some nt'\<rparr>"
  have p: "length (take ?n w) = ?n" "frame_len (largeSDU (sAtts ?u)) (take ?n w) = ?n"
    "uint (take ?n w ! 4) = NSPTDA" "\<not> networkCompressionEnabled (sAtts ?u)"
    using d(1,2,4) assms(1) by (simp_all add: frame_len_take waiting_def)
  obtain hdr where h: "header_unmarshal (take ?n w) (sAtts ?u) = Inr hdr"
    "processPacket Z (take ?n w) hdr ?u = (Inr DataPkt, ?u\<lparr>rcvDatapkt := (rcvDatapkt ?u)
      \<lparr>dp_hdr := hdr, dp_buf := take ?n w, dp_offset := 10, dp_len := int ?n\<rparr>\<rparr>)"
    using processPacket_data [OF p(1) d(1) p(2-4)] by blast
  have "recvPacket A Z (Suc f) s = (Inr DataPkt, ?u\<lparr>rcvDatapkt := (rcvDatapkt ?u)
      \<lparr>dp_hdr := hdr, dp_buf := take ?n w, dp_offset := 10, dp_len := int ?n\<rparr>\<rparr>)"
    by (rule recv_waiting [OF assms(1) r(1) h]) (use assms(1) in \<open>simp add: waiting_def\<close>)
  then show ?thesis using r by (intro exI [of _ rb] exI [of _ nt'] exI) auto
qed

lemma drain_marker:
  assumes "waiting s" "ntAdapter s = Some nt" "live nt" "wire_in nt = marker_bytes (largeSDU (sAtts s)) 2 @ v" "11 \<le> length (rcvBuf s)"
  shows "\<exists>rb nt' p. recvPacket A Z (Suc f) s =
      (Inr p, s\<lparr>rcvBuf := rb, ntAdapter := Some nt', isBreak := True, isReset := True\<rparr>) \<and>
    length rb = length (rcvBuf s) \<and> live nt' \<and> wire_out nt' = wire_out nt \<and> wire_in nt' = v"
proof -
  let ?m = "marker_bytes (largeSDU (sAtts s)) 2"
  obtain nt' rb where r: "read_packet A s = (Inr ?m, s\<lparr>rcvBuf := rb, ntAdapter := Some nt'\<rparr>)"
    "length rb = length (rcvBuf s)" "live nt'" "wire_in nt' = v" "wire_out nt' = wire_out nt"
    using read_packet_ok [OF assms(2,3)] assms(4,5) marker_frame [of "largeSDU (sAtts s)" 2] by auto
  let ?u = "s\<lparr>rcvBuf := rb, ntAdapter := Some nt'\<rparr>"
  obtain hdr p where h: "header_unmarshal ?m (sAtts ?u) = Inr hdr" "ptyp hdr = NSPTMK"
    "markerPacket_unmarshal ?m hdr = Inr p" "markerType p = NSPMKTD1" "mp_data p = NIQRMARK"
    using marker_received [of "sAtts ?u" 2] by auto
  have "processPacket Z ?m hdr ?u = (Inr (MarkerPkt p), ?u\<lparr>isBreak := True, isReset := True\<rparr>)"
    using h by (simp add: processPacket_def note_marker_def)
  from recv_waiting [OF assms(1) r(1) h(1) this]
  show ?thesis using r assms(1) by (auto simp: waiting_def)
qed

lemma drain_loop:
  assumes "frames_ok (largeSDU (sAtts s)) (length (rcvBuf s)) w" "waiting s" "ntAdapter s = Some nt" "live nt"
    "wire_in nt = w @ marker_bytes (largeSDU (sAtts s)) 2 @ v" "11 \<le> length (rcvBuf s)" "\<not> isReset s" "length w + 1 < n"
  shows "\<exists>rb nt' dp. reset_loop (recvPacket A Z (Suc f)) n s =
      (Inr (), s\<lparr>rcvBuf := rb, ntAdapter := Some nt', rcvDatapkt := dp, isBreak := True, isReset := True\<rparr>) \<and>
    length rb = length (rcvBuf s) \<and> live nt' \<and> wire_out nt' = wire_out nt \<and> wire_in nt' = v"
  using assms
proof (induction n arbitrary: s w nt)
  case (Suc n)
  show ?case
  proof (cases "w = []")
    case True
    obtain rb nt' p where m: "recvPacket A Z (Suc f) s = (Inr p, s\<lparr>rcvBuf := rb, ntAdapter := Some nt', isBreak := True, isReset := True\<rparr>)"
      "length rb = length (rcvBuf s)" "live nt'" "wire_out nt' = wire_out nt" "wire_in nt' = v"
      using drain_marker [OF Suc.prems(2-4), of v f] Suc.prems(5,6) True by auto
    obtain n' where "n = Suc n'" using Suc.prems(8) by (cases n) auto
    then show ?thesis
      using m Suc.prems(7) by (intro exI [of _ rb] exI [of _ nt'] exI [of _ "rcvDatapkt s"]) simp
  next
    case False
    obtain rb nt' dp where d: "recvPacket A Z (Suc f) s = (Inr DataPkt, s\<lparr>rcvBuf := rb, ntAdapter := Some nt', rcvDatapkt := dp\<rparr>)"
      "length rb = length (rcvBuf s)" "live nt'" "wire_out nt' = wire_out nt"
      "wire_in nt' = drop (frame_len (largeSDU (sAtts s)) w) w @ marker_bytes (largeSDU (sAtts s)) 2 @ v"
      using drain_data [OF Suc.prems(2-5) False Suc.prems(1)] by blast
    let ?s = "s\<lparr>rcvBuf := rb, ntAdapter := Some nt', rcvDatapkt := dp\<rparr>"
    note fr = frames_okD [OF Suc.prems(1) False]
    have "\<exists>rb nt'' dp. reset_loop (recvPacket A Z (Suc f)) n ?s =
        (Inr (), ?s\<lparr>rcvBuf := rb, ntAdapter := Some nt'', rcvDatapkt := dp, isBreak := True, isReset := True\<rparr>) \<and>
      length rb = length (rcvBuf ?s) \<and> live nt'' \<and> wire_out nt'' = wire_out nt' \<and> wire_in nt'' = v"
      by (rule Suc.IH [of ?s "drop (frame_len (largeSDU (sAtts s)) w) w" nt'])
        (use d fr Suc.prems in \<open>auto simp: waiting_def\<close>)
    then show ?thesis using d Suc.prems(7) by auto
  qed
qed simp


lemma send_marker_ok:
  assumes "ntAdapter s = Some nt" "live nt" "\<not> networkCompressionEnabled (sAtts s)"
  shows "\<exists>nt'. send_marker A Z d s = (Inr (), s\<lparr>ntAdapter := Some nt'\<rparr>) \<and> live nt' \<and> wire_in nt' = wire_in nt \<and>
    wire_out nt' = wire_out nt @ marker_bytes (largeSDU (sAtts s)) (word_of_int d)"
proof -
  obtain p where p: "markerPacket_marshal (sAtts s) d = Inr p" "mp_buf p = marker_bytes (largeSDU (sAtts s)) (word_of_int d)"
    using marker_sent by blast
  then have "8 \<le> length (mp_buf p)" by (simp add: marker_frame)
  then show ?thesis
    using SendPacket_plain [of "mp_buf p" s nt] assms p by (simp add: send_marker_def)
qed

lemma CancelOperation_ok:
  assumes s: "connected s" "\<not> isBreak s" "\<not> isReset s" "\<not> resetInProgress s" "\<not> breakPosted s"
      "pendingPacket s = None" "\<not> networkCompressionEnabled (sAtts s)" "dp_offset (sndDatapkt s) \<le> int NSPDADAT"
      "11 \<le> length (rcvBuf s)"
    and nt: "ntAdapter s = Some nt" "live nt" "wire_in nt = w @ marker_bytes (largeSDU (sAtts s)) 2 @ v"
    and w: "frames_ok (largeSDU (sAtts s)) (length (rcvBuf s)) w" and f: "length w + 1 < f"
  shows "\<exists>s' nt'. CancelOperation A Z f s = (Inr (), s') \<and> ntAdapter s' = Some nt' \<and> live nt' \<and> wire_in nt' = v \<and>
    wire_out nt' = wire_out nt @ marker_bytes (largeSDU (sAtts s)) 3 @ marker_bytes (largeSDU (sAtts s)) 2 \<and>
    \<not> isBreak s' \<and> \<not> isReset s' \<and> \<not> resetInProgress s' \<and> unread (rcvDatapkt s') = [] \<and> sAtts s' = sAtts s \<and>
    length (rcvBuf s') = length (rcvBuf s)"
proof -
  let ?s0 = "s\<lparr>isBreak := True\<rparr>"
  obtain nt1 where m1: "send_marker A Z 3 ?s0 = (Inr (), ?s0\<lparr>ntAdapter := Some nt1\<rparr>)" "live nt1" "wire_in nt1 = wire_in nt"
    "wire_out nt1 = wire_out nt @ marker_bytes (largeSDU (sAtts s)) 3"
    using send_marker_ok [of ?s0 nt 3] nt s by auto
  let ?s1 = "?s0\<lparr>ntAdapter := Some nt1, resetInProgress := True\<rparr>"
  obtain nt2 where m2: "send_marker A Z 2 ?s1 = (Inr (), ?s1\<lparr>ntAdapter := Some nt2\<rparr>)" "live nt2" "wire_in nt2 = wire_in nt"
    "wire_out nt2 = wire_out nt1 @ marker_bytes (largeSDU (sAtts s)) 2"
    using send_marker_ok [of ?s1 nt1 2] nt s m1 by auto
  let ?s2 = "?s1\<lparr>ntAdapter := Some nt2\<rparr>"
  obtain f' where f': "f = Suc f'" using f by (cases f) auto
  have "\<exists>rb nt' dp. reset_loop (recvPacket A Z (Suc f')) f ?s2 =
      (Inr (), ?s2\<lparr>rcvBuf := rb, ntAdapter := Some nt', rcvDatapkt := dp, isBreak := True, isReset := True\<rparr>) \<and>
    length rb = length (rcvBuf ?s2) \<and> live nt' \<and> wire_out nt' = wire_out nt2 \<and> wire_in nt' = v"
    by (rule drain_loop [of ?s2 w nt2]) (use s nt w f m2 in \<open>auto simp: waiting_def\<close>)
  then obtain rb nt3 dp where l: "reset_loop (recvPacket A Z f) f ?s2 =
      (Inr (), ?s2\<lparr>rcvBuf := rb, ntAdapter := Some nt3, rcvDatapkt := dp, isBreak := True, isReset := True\<rparr>)"
    "length rb = length (rcvBuf s)" "live nt3" "wire_out nt3 = wire_out nt2" "wire_in nt3 = v"
    unfolding f' by auto
  have "CancelOperation A Z f s = (Inr (), end_reset (?s2\<lparr>rcvBuf := rb, ntAdapter := Some nt3, rcvDatapkt := dp, isBreak := True, isReset := True\<rparr>)
      \<lparr>resetInProgress := False\<rparr>)"
    using s m1(1) m2(1) l(1) by (simp add: CancelOperation_def Reset_def Reset_with_def finallyE_def)
  then show ?thesis
    using l m1 m2 by (auto simp: end_reset_def unread_def)
qed

end

end
