(* ===== verification/NS_Safety.thy ===== *)
theory NS_Safety
  imports NS_Reset
begin

text \<open>
  No packet from the network makes the receive path panic, over any adapter that does not itself
  panic (\<open>crash_free_adapter\<close>); and the properties of the session over TCP: it never hangs on
  a finite input, it never crashes while receiving, a cancelled operation leaves it in step with
  the server, and the three ways in which the code fails to do so.
\<close>

subsection \<open>Receiving never panics\<close>

locale crash_free_adapter = nt_adapter A wire_in wire_out live
  for A :: "'nt NTAdapter" and wire_in wire_out live +
  fixes usable :: "'nt \<Rightarrow> bool"
  assumes send_usable: "usable nt \<Longrightarrow> nt_Send A bs nt = (res, nt') \<Longrightarrow> usable nt' \<and> no_panic res"
    and receive_usable: "usable nt \<Longrightarrow> nt_Receive A buf n nt = (r, buf', nt') \<Longrightarrow> usable nt' \<and> no_panic r"
begin

text \<open>The adapter is there, the packet being filled is in its buffer and no packet
  was pushed back.\<close>

definition sound :: "'nt networkSession \<Rightarrow> bool" where
  "sound s = ((\<exists>nt. ntAdapter s = Some nt \<and> usable nt) \<and> dp_offset (sndDatapkt s) \<le> int (length (dp_buf (sndDatapkt s))) \<and>
     int NSPDADAT \<le> dp_offset (sndDatapkt s) \<and>
     pendingPacket s = None)"

abbreviation no_crash :: "go_error \<Rightarrow> 'nt networkSession \<Rightarrow> bool" where
  "no_crash \<equiv> \<lambda>e _. \<forall>msg. e \<noteq> RuntimePanic msg"

definition safe :: "('nt networkSession, 'a) op \<Rightarrow> bool" where
  "safe f = (\<forall>s. sound s \<longrightarrow> wp f (\<lambda>_ t. sound t) no_crash s)"

lemma safe_wp: "safe f \<Longrightarrow> sound s \<Longrightarrow> (\<And>v t. sound t \<Longrightarrow> Q v t) \<Longrightarrow> wp f Q no_crash s"
  by (auto simp: safe_def intro: wp_mono)

lemma safe_bindE: "safe f \<Longrightarrow> (\<And>v. safe (k v)) \<Longrightarrow> safe (bindE f k)"
  unfolding safe_def [of "bindE f k"] wp_bindE by (blast intro: safe_wp)

lemma safe_simple [intro, simp]:
  "safe (retE v)" "(\<And>msg. e \<noteq> RuntimePanic msg) \<Longrightarrow> safe (throwE e)" "safe (getE g)"
  by (simp_all add: safe_def wp_simps)

lemma safe_modE: "(\<And>s. sound s \<Longrightarrow> sound (f s)) \<Longrightarrow> safe (modE f)"
  by (simp add: safe_def wp_simps)

lemma safe_liftE: "no_panic r \<Longrightarrow> safe (liftE r)"
  by (auto simp: safe_def wp_simps split: sum.splits)

lemma safe_send: "safe (ns_send A bs)"
  using send_usable by (fastforce simp: safe_def wp_def ns_send_def sound_def split: option.splits prod.splits sum.splits)

lemma safe_receive:
  assumes "from \<le> to" "to \<le> length (rcvBuf s)" "sound s"
  shows "wp (ns_receive A from to n) (\<lambda>_ t. sound t \<and> sAtts t = sAtts s \<and> n \<le> to - from \<and>
     (\<exists>part. length part = to - from \<and> rcvBuf t = put_bytes from part (rcvBuf s))) no_crash s"
proof -
  obtain nt where nt: "ntAdapter s = Some nt" "usable nt" using assms(3) by (auto simp: sound_def)
  let ?b = "drop from (take to (rcvBuf s))"
  obtain r part nt' where r: "nt_Receive A ?b n nt = (r, part, nt')" by (metis prod_cases3)
  have l: "length part = to - from" using receive_length [OF r] assms by simp
  have "n \<le> to - from" if "r = Inr k" for k using receive_takes [of ?b n nt k part nt'] r that assms by simp
  then show ?thesis
    using nt r l assms receive_usable [OF nt(2) r]
    by (cases r) (auto simp: wp_def ns_receive_def sound_def)
qed

lemma safe_SendPacket: "safe (SendPacket A Z bs)"
  by (auto simp: SendPacket_def Let_def intro!: safe_bindE safe_send safe_modE simp: sound_def split: sum.splits)

lemma safe_prepare_send: "safe (prepare_send fl)"
proof -
  have "wp (prepare_send fl) (\<lambda>_ t. sound t) no_crash s" if s: "sound s" for s
  proof -
    have "10 \<le> length (dp_buf (sndDatapkt s))" using s by (simp add: sound_def)
    then obtain dp where "Prepare2Send fl (sAtts s) (sndDatapkt s) = Inr dp" "dp_offset dp = dp_offset (sndDatapkt s)"
      "length (dp_buf dp) = length (dp_buf (sndDatapkt s))"
      by (cases "largeSDU (sAtts s)") (auto simp: Prepare2Send_def header_marshal_def Let_def put_u8_def put_u16_def put_u32_def)
    then show ?thesis using s by (simp add: wp_def prepare_send_def sound_def)
  qed
  then show ?thesis by (simp add: safe_def)
qed

lemma safe_send_filled: "safe (send_filled A Z)"
proof -
  have "wp (send_filled A Z) (\<lambda>_ t. sound t) no_crash s" if s: "sound s" for s
    using safe_SendPacket [of Z] s by (auto simp: safe_def wp_def send_filled_def Let_def sound_def)
  then show ?thesis by (simp add: safe_def)
qed

lemma packet_length_header:
  "header_unmarshal buf a = Inr hdr \<Longrightarrow> packetLength hdr = int (packet_length a buf)"
  by (auto simp: header_unmarshal_def packet_length_def andThen_Inr_iff split: if_splits)

lemma safe_parts:
  "(\<And>a. no_panic (fst (g a))) \<Longrightarrow> safe (atts_op g)"
  "(\<And>c. no_panic (fst (h c))) \<Longrightarrow> safe (control_op h)"
  "(\<And>d. no_panic (fst (k d))) \<Longrightarrow> safe (on_rcv k)"
  by (auto simp: safe_def wp_def atts_op_def control_op_def on_rcv_def sound_def split: prod.splits sum.splits)
    (metis fst_conv is_panic.simps(1) no_panic_simps(2))+

lemma decompress_no_panic: "no_panic (decompress Z first payload)"
  by (auto simp: decompress_def Let_def split: option.splits prod.splits)

lemma safe_inflate: "packetLength hdr = int (length buf) \<Longrightarrow> safe (inflate_data Z buf hdr)"
  unfolding inflate_data_def Let_def
  by (auto intro!: safe_bindE safe_liftE safe_modE decompress_no_panic simp: sound_def simp del: bindE_getE bindE_ok split: sum.splits)

lemma note_marker_sound: "sound s \<Longrightarrow> sound (note_marker p s)"
  by (simp add: sound_def note_marker_def)

lemma safe_processPacket: "packetLength hdr = int (length buf) \<Longrightarrow> safe (processPacket Z buf hdr)"
  unfolding processPacket_def
  by (auto intro!: safe_bindE safe_liftE safe_modE safe_parts safe_inflate unmarshal_no_panic note_marker_sound split: prod.splits)

lemma packet_length_put: "8 \<le> length buf \<Longrightarrow> 8 \<le> n \<Longrightarrow> packet_length a (take n (put_bytes 8 part buf)) = packet_length a buf"
  by (simp add: packet_length_def put_bytes_def min_def)

lemma read_packet_safe:
  assumes "sound s"
  shows "wp (read_packet A) (\<lambda>buf t. sound t \<and> packet_length (sAtts t) buf = length buf) no_crash s"
proof -
  let ?Q = "\<lambda>buf t. sound t \<and> packet_length (sAtts t) buf = length buf"
  have rest: "wp (bindE (if n - 8 > 0 then bindE (ns_receive A 8 n (n - 8)) (\<lambda>m.
        if m \<noteq> int (n - 8) then throwE (NewOracleError InvalidNetworkExpectedLength None
           [ArgStr ''packet body'', ArgInt m, ArgInt (int (n - 8))]) else retE ()) else retE ()) (\<lambda>_.
      getE (\<lambda>s. take n (rcvBuf s)))) ?Q no_crash t"
    if t: "sound t" "n = packet_length (sAtts t) (rcvBuf t)" "8 \<le> n" "n \<le> length (rcvBuf t)" for t n
  proof (cases "8 < n")
    case True
    have "wp (ns_receive A 8 n (n - 8)) (\<lambda>m u. (m \<noteq> int (n - 8) \<longrightarrow> True) \<and> ?Q (take n (rcvBuf u)) u) no_crash t"
      by (rule wp_mono [OF safe_receive]) (use t True in \<open>auto simp: packet_length_put\<close>)
    then show ?thesis using True by (auto simp: wp_simps elim!: wp_mono)
  next
    case False
    then have "packet_length (sAtts t) (take n (rcvBuf t)) = n" using t by (simp add: packet_length_def min_def)
    then show ?thesis using False t by (simp add: wp_def)
  qed
  have first: "wp (ns_receive A 0 (length (rcvBuf s)) 8) (\<lambda>_ t. sound t \<and> length (rcvBuf t) = length (rcvBuf s)) no_crash s"
    by (rule wp_mono [OF safe_receive]) (use assms in auto)
  have checked: "wp (if n < 8 \<or> n > length (rcvBuf s) then throwE e
      else bindE (if n - 8 > 0 then bindE (ns_receive A 8 n (n - 8)) (\<lambda>m.
        if m \<noteq> int (n - 8) then throwE (NewOracleError InvalidNetworkExpectedLength None
           [ArgStr ''packet body'', ArgInt m, ArgInt (int (n - 8))]) else retE ()) else retE ()) (\<lambda>_.
      getE (\<lambda>s. take n (rcvBuf s)))) ?Q no_crash t"
    if "sound t" "length (rcvBuf t) = length (rcvBuf s)" "n = packet_length (sAtts t) (rcvBuf t)" "\<And>msg. e \<noteq> RuntimePanic msg" for t n e
  proof (cases "n < 8 \<or> n > length (rcvBuf s)")
    case True
    then show ?thesis using that(4) by (simp only: if_True wp_throwE) simp
  next
    case False
    then have "8 \<le> n" "n \<le> length (rcvBuf t)" using that(2) by simp_all
    then show ?thesis using rest [OF that(1,3)] by (simp only: False if_False)
  qed
  show ?thesis
    unfolding read_packet_def Let_def wp_bindE [of "getE _"] wp_getE wp_bindE [of "ns_receive A 0 _ _"]
  proof (rule wp_mono [OF first], goal_cases)
    case (1 v t)
    then show ?case by (intro checked) auto
  qed
qed

lemma safe_reset_loop: "safe recv \<Longrightarrow> safe (reset_loop recv n)"
  by (induction n) (auto simp del: bindE_getE bindE_ok intro!: safe_bindE)

lemma safe_finallyE: "safe m \<Longrightarrow> (\<And>s. sound s \<Longrightarrow> sound (f s)) \<Longrightarrow> safe (finallyE m f)"
  by (auto simp: safe_def wp_finallyE elim!: wp_mono)

lemma safe_send_marker: "safe (send_marker A Z d)"
proof -
  have "no_panic (markerPacket_marshal a d)" for a using marker_sent [of a d] by auto
  then show ?thesis
    unfolding send_marker_def by (intro safe_bindE safe_liftE safe_SendPacket safe_simple)
qed

lemma safe_Reset_with:
  assumes "safe recv" shows "safe (Reset_with A Z recv n)"
proof -
  have "safe (if p then bindE (send_marker A Z NIQBMARK) (\<lambda>_. modE (\<lambda>s. s\<lparr>breakPosted := False\<rparr>)) else retE ())" for p
    by (auto intro!: safe_bindE safe_send_marker safe_modE simp: sound_def)
  then have "safe (finallyE
     (bindE (getE breakPosted) (\<lambda>posted.
      bindE (if posted then bindE (send_marker A Z NIQBMARK) (\<lambda>_. modE (\<lambda>s. s\<lparr>breakPosted := False\<rparr>)) else retE ()) (\<lambda>_.
      bindE (send_marker A Z NIQRMARK) (\<lambda>_.
      bindE (reset_loop recv n) (\<lambda>_. modE end_reset))))) (\<lambda>s. s\<lparr>resetInProgress := False\<rparr>))"
    by (intro safe_finallyE safe_bindE safe_simple safe_send_marker safe_reset_loop assms safe_modE)
      (auto simp: sound_def end_reset_def dp_Reset_def)
  then show ?thesis
    unfolding Reset_with_def
    by (auto intro!: safe_bindE safe_modE simp: sound_def simp del: bindE_getE bindE_ok bindE_modE)
qed

lemma recvPacket_safe:
  assumes "sound s" shows "wp (recvPacket A Z f) (\<lambda>_ t. sound t) no_crash s"
  using assms
proof (induction f arbitrary: s)
  case 0
  then show ?case by (simp add: recvPacket.simps wp_def)
next
  case (Suc f)
  then have rec: "safe (recvPacket A Z f)" by (simp add: safe_def)
  have after: "wp (after_read A Z (recvPacket A Z f) f buf) (\<lambda>_ t. sound t) no_crash u"
    if u: "sound u" "packet_length (sAtts u) buf = length buf" for u buf
  proof -
    have "safe (bindE (processPacket Z buf hdr) (\<lambda>packet.
      bindE (getE (\<lambda>s. (ptyp hdr = NSPTMK \<and> isBreak s \<and> \<not> isReset s, resetInProgress s))) (\<lambda>(brk, busy).
        if brk then if busy then retE packet
          else bindE (Reset_with A Z (recvPacket A Z f) f) (\<lambda>_. recvPacket A Z f)
        else retE packet)))" if "packetLength hdr = int (length buf)" for hdr
      by (intro safe_bindE safe_processPacket that safe_simple) (auto intro!: safe_bindE safe_Reset_with rec)
    moreover have "no_panic (header_unmarshal buf (sAtts u))" by (rule header_no_panic)
    ultimately show ?thesis
      using packet_length_header [of buf "sAtts u"] u
      unfolding after_read_def wp_bindE [of "getE sAtts"] wp_bindE [of "liftE _"] wp_getE wp_liftE safe_def
      by (auto split: sum.splits)
  qed
  have read: "wp (read_packet A) (\<lambda>buf. wp (after_read A Z (recvPacket A Z f) f buf) (\<lambda>_ t. sound t) no_crash) no_crash t"
    if "sound t" for t
    by (rule wp_mono [OF read_packet_safe [OF that]]) (use after in auto)
  have flush: "safe (if dp_offset (sndDatapkt s) > int NSPDADAT
      then bindE (prepare_send 0) (\<lambda>_. bindE (send_filled A Z) (\<lambda>_. snd_reset)) else retE ())"
    by (auto intro!: safe_bindE safe_prepare_send safe_send_filled safe_modE simp: sound_def dp_Reset_def)
  have "wp (if dp_offset (sndDatapkt s) > int NSPDADAT
      then bindE (prepare_send 0) (\<lambda>_. bindE (send_filled A Z) (\<lambda>_. snd_reset)) else retE ())
      (\<lambda>_. wp (read_packet A) (\<lambda>buf. wp (after_read A Z (recvPacket A Z f) f buf) (\<lambda>_ t. sound t) no_crash) no_crash) no_crash s"
    by (rule safe_wp [OF flush Suc.prems]) (rule read)
  moreover have pending: "pendingPacket s = None" using Suc.prems by (simp add: sound_def)
  ultimately show ?case
    unfolding recvPacket.simps wp_bindE wp_getE pending option.case by simp
qed

end

interpretation tcp_safe: crash_free_adapter tcp_adapter tcp_in tcp_out tcp_live tcp_open
proof unfold_locales
  fix nt nt' bs res
  assume "tcp_open nt" "nt_Send tcp_adapter bs nt = (res, nt')"
  then show "tcp_open nt' \<and> no_panic res"
    by (auto simp: tcp_open_def tcp_adapter_def nttcp_Send_def split: if_splits option.splits io_end.splits)
next
  fix nt nt' buf n r buf'
  assume "tcp_open nt" "nt_Receive tcp_adapter buf n nt = (r, buf', nt')"
  then show "tcp_open nt' \<and> no_panic r"
    using Receive_loop_takes
    by (auto simp: tcp_open_def tcp_adapter_def nttcp_Receive_def Let_def split: if_splits option.splits prod.splits io_end.splits)
qed


subsection \<open>The session over TCP\<close>

text \<open>C2: Receiving a packet and resetting end after finitely many steps whatever bytes the server sends:
  the packets received, the break/reset exchanges they trigger and the recursive calls are
  bounded by the bytes that arrive, so fuel above their number is never used up.\<close>

theorem recvPacket_terminates:
  assumes "ntAdapter s = Some nt" "length (tcp_in nt) + 1 < fuel"
  shows "fst (recvPacket tcp_adapter Z fuel s) \<noteq> Inl OutOfFuel \<and> fst (Reset tcp_adapter Z fuel s) \<noteq> Inl OutOfFuel"
proof -
  have b: "tcp.backlog s < fuel" using assms by (simp add: tcp.backlog_def)
  have "wp (Reset tcp_adapter Z fuel) (\<lambda>_ t. tcp.backlog t \<le> tcp.backlog s \<and> resetInProgress t = resetInProgress s)
      (\<lambda>e _. e \<noteq> OutOfFuel) s"
    unfolding Reset_def by (rule tcp.Reset_with_ends [OF tcp.recvPacket_ends b]) simp
  then show ?thesis
    using tcp.recvPacket_ends [OF b, of Z]
    by (cases "recvPacket tcp_adapter Z fuel s"; cases "Reset tcp_adapter Z fuel s")
      (auto simp: wp_def split: sum.splits)
qed

theorem recvPacket_terminates_witness:
  "fst (recvPacket tcp_adapter plain_codec 16 (data_session 64 [marker_bytes False 1])) \<noteq> Inl OutOfFuel \<and>
   fst (Reset tcp_adapter plain_codec 16 (data_session 64 [marker_bytes False 1])) \<noteq> Inl OutOfFuel"
proof -
  have "\<exists>nt. ntAdapter (data_session 64 [marker_bytes False 1]) = Some nt \<and> length (tcp_in nt) + 1 < 16"
    by (simp add: data_session_def tcp_in_def marker_bytes_def)
  then show ?thesis using recvPacket_terminates by blast
qed

text \<open>C3: Whatever bytes a server sends, receiving a packet never ends in a run-time panic: every length
  in a header, a packet or a compressed stream is checked before it is used as an index.\<close>

theorem recvPacket_never_panics:
  assumes "ntAdapter s = Some nt" "tcp_open nt" "pendingPacket s = None"
    "10 \<le> dp_offset (sndDatapkt s)" "dp_offset (sndDatapkt s) \<le> int (length (dp_buf (sndDatapkt s)))"
  shows "fst (recvPacket tcp_adapter Z fuel s) \<noteq> Inl (RuntimePanic msg)"
proof -
  have "tcp_safe.sound s" using assms by (simp add: tcp_safe.sound_def)
  from tcp_safe.recvPacket_safe [OF this, of Z fuel] show ?thesis
    by (cases "recvPacket tcp_adapter Z fuel s") (auto simp: wp_def split: sum.splits)
qed

theorem recvPacket_never_panics_witness:
  "fst (recvPacket tcp_adapter plain_codec 9 (data_session 64 [[0xFF, 0xFF, 0, 0, 6, 0, 0, 0]])) \<noteq> Inl (RuntimePanic [])"
proof -
  let ?s = "data_session 64 [[0xFF, 0xFF, 0, 0, 6, 0, 0, 0]]"
  have "\<exists>nt. ntAdapter ?s = Some nt \<and> tcp_open nt" "pendingPacket ?s = None"
    "10 \<le> dp_offset (sndDatapkt ?s)" "dp_offset (sndDatapkt ?s) \<le> int (length (dp_buf (sndDatapkt ?s)))"
    by (simp_all add: data_session_def newNetworkSession_def dataPacket_marshal_def tcp_open_def)
  then show ?thesis using recvPacket_never_panics by blast
qed

text \<open>C4: Cancelling an operation on a connected session sends a break and a reset marker, drops the data
  packets that were in flight, and returns once the server's reset marker has been read: the
  session is out of the break, nothing of the cancelled reply is left to read, and the bytes after
  the marker are still to be read.\<close>

theorem CancelOperation_resynchronises:
  assumes "connected s" "\<not> isBreak s" "\<not> isReset s" "\<not> resetInProgress s" "\<not> breakPosted s"
      "pendingPacket s = None" "\<not> networkCompressionEnabled (sAtts s)" "dp_offset (sndDatapkt s) \<le> 10"
      "11 \<le> length (rcvBuf s)"
    and "ntAdapter s = Some nt" "tcp_live nt" "tcp_in nt = w @ marker_bytes (largeSDU (sAtts s)) 2 @ v"
      "frames_ok (largeSDU (sAtts s)) (length (rcvBuf s)) w" "length w + 1 < fuel"
  shows "\<exists>s' nt'. CancelOperation tcp_adapter Z fuel s = (Inr (), s') \<and> ntAdapter s' = Some nt' \<and> tcp_live nt' \<and>
    tcp_in nt' = v \<and> tcp_out nt' = tcp_out nt @ marker_bytes (largeSDU (sAtts s)) 3 @ marker_bytes (largeSDU (sAtts s)) 2 \<and>
    \<not> isBreak s' \<and> \<not> isReset s' \<and> \<not> resetInProgress s' \<and> unread (rcvDatapkt s') = []"
  using tcp_session.CancelOperation_ok [of s nt w v fuel Z] assms by auto

theorem CancelOperation_resynchronises_witness:
  "\<exists>s' nt'. CancelOperation tcp_adapter plain_codec 20
      (data_session 64 [[0, 12, 0, 0, 6, 0, 0, 0, 0, 0, 7, 7], marker_bytes False 2, [9]]) = (Inr (), s') \<and>
    ntAdapter s' = Some nt' \<and> tcp_in nt' = [9] \<and> \<not> isBreak s'"
proof -
  let ?s = "data_session 64 [[0, 12, 0, 0, 6, 0, 0, 0, 0, 0, 7, 7], marker_bytes False 2, [9]]"
  let ?w = "[0, 12, 0, 0, 6, 0, 0, 0, 0, 0, 7, 7] :: byte list"
  have s: "connected ?s" "\<not> isBreak ?s" "\<not> isReset ?s" "\<not> resetInProgress ?s" "\<not> breakPosted ?s"
      "pendingPacket ?s = None" "\<not> networkCompressionEnabled (sAtts ?s)" "dp_offset (sndDatapkt ?s) \<le> 10"
      "11 \<le> length (rcvBuf ?s)" "\<not> largeSDU (sAtts ?s)" "frames_ok False 64 ?w" "length (rcvBuf ?s) = 64"
    by code_simp+
  obtain nt where "ntAdapter ?s = Some nt" "tcp_live nt" "tcp_in nt = ?w @ marker_bytes False 2 @ [9]"
    by (simp add: data_session_def tcp_live_def tcp_in_def)
  then show ?thesis
    using CancelOperation_resynchronises [of ?s nt ?w "[9]" 20 plain_codec] s by (simp; blast)
qed

subsection \<open>Where the session goes wrong\<close>

text \<open>A break marker that \<open>CheckInbandNotification\<close> pushed back is processed without the reset
  exchange that \<open>recvPacket\<close> runs for every other break marker: no reset marker is sent, the
  session stays in the break, and from then on every write is dropped without an error and
  cancelling does nothing.\<close>

theorem pushed_back_break_is_stuck:
  "\<exists>p s'. recvPacket A Z (Suc fuel) (s\<lparr>pendingPacket := Some (marker_bytes (largeSDU (sAtts s)) 1)\<rparr>) = (Inr p, s') \<and>
    isBreak s' \<and> isReset s' = isReset s \<and> ntAdapter s' = ntAdapter s \<and>
    Write A Z bs s' = (Inr (), s') \<and> ns_Flush A Z s' = (Inr (), s') \<and> CancelOperation A Z fuel s' = (Inr (), s')"
proof -
  let ?m = "marker_bytes (largeSDU (sAtts s)) 1"
  obtain hdr p where h: "header_unmarshal ?m (sAtts s) = Inr hdr" "ptyp hdr = NSPTMK"
    "markerPacket_unmarshal ?m hdr = Inr p" "markerType p = NSPMKTD1" "mp_data p = NIQBMARK"
    using marker_received [of "sAtts s" 1] by auto
  let ?t = "s\<lparr>pendingPacket := None, isBreak := True\<rparr>"
  have "processPacket Z ?m hdr (s\<lparr>pendingPacket := None\<rparr>) = (Inr (MarkerPkt p), ?t)"
    using h by (simp add: processPacket_def note_marker_def)
  then have "recvPacket A Z (Suc fuel) (s\<lparr>pendingPacket := Some ?m\<rparr>) = (Inr (MarkerPkt p), ?t)"
    using h(1) by (simp add: recvPacket.simps)
  then show ?thesis
    by (intro exI [of _ "MarkerPkt p"] exI [of _ ?t]) (simp add: Write_def Send_def ns_Flush_def CancelOperation_def)
qed

text \<open>An in-band notification (a control packet) that arrives where a reply is awaited leaves the
  receive packet with a length below its offset, and the read of the reply panics.\<close>

theorem notification_before_reply_panics:
  "fst (ns_ReadBytesWithContext tcp_adapter plain_codec 20 4
     (data_session 64 [[0, 22, 0, 0, 14, 0, 0, 0, 0, 8, 0, 0, 0, 22, 0, 0, 0x31, 0x1C, 0, 0, 0, 0],
        [0, 14, 0, 0, 6, 0, 0, 0, 0, 0, 1, 2, 3, 4]])) = Inl (RuntimePanic ''slice bounds out of range'')"
  by code_simp

text \<open>A byte written while a break is being handled and the packet is full panics: \<open>Flush\<close> does
  nothing during a break, and the byte is then stored past the end of the buffer.\<close>

theorem WriteByte_in_break_panics:
  assumes "isBreak s" "dp_len (sndDatapkt s) = dp_offset (sndDatapkt s)"
    "dp_offset (sndDatapkt s) = int (length (dp_buf (sndDatapkt s)))"
  shows "ns_WriteByteWithContext A Z b s = (Inl index_panic, s)"
  using assms by (simp add: ns_WriteByteWithContext_def with_room_def ns_Flush_def append_send_def Let_def)

theorem WriteByte_in_break_panics_witness:
  "\<exists>s. isBreak s \<and> ns_WriteByteWithContext tcp_adapter plain_codec 7 s = (Inl index_panic, s)"
proof -
  let ?s = "(data_session 32 [])\<lparr>isBreak := True, sndDatapkt := \<lparr>dp_hdr = empty_header, dp_offset = 32, dp_len = 32, dp_bufLen = 32,
      dp_buf = replicate 32 0\<rparr>\<rparr>"
  have "ns_WriteByteWithContext tcp_adapter plain_codec 7 ?s = (Inl index_panic, ?s)"
    by (rule WriteByte_in_break_panics) simp_all
  then show ?thesis by (intro exI [of _ ?s]) simp
qed

end
