(* ===== verification/Naming_NV.thy ===== *)
theory Naming_NV
  imports Go_Strings
begin

text \<open>
  The name-value trees of connect descriptors (\<open>internal/driver/network/naming/nv.go\<close>):
  the tokenizer, the stack parser, the path lookups and the printer, on 7-bit ASCII text. The
  main fact is that the parser is a left inverse of the printer on the trees whose names and
  values need no quoting.
\<close>

subsection \<open>Nodes\<close>

datatype Node = Node (Name: string) (Value: string) (Children: "Node list")

subsection \<open>Tokens\<close>

record tokenizer =
  tokens :: "string list"
  current :: string
  inQuotes :: bool
  currentHasEquals :: bool

definition flushToken :: "tokenizer \<Rightarrow> tokenizer" where
  "flushToken st =
     (if current st \<noteq> []
      then let token = TrimSpace (current st) in
           st\<lparr>tokens := (if token \<noteq> [] then tokens st @ [token] else tokens st),
              current := [], currentHasEquals := False\<rparr>
      else st)"

definition tokenize_char :: "char \<Rightarrow> tokenizer \<Rightarrow> tokenizer" where
  "tokenize_char c st =
     (if c = CHR 0x22 then st\<lparr>inQuotes := \<not> inQuotes st, current := current st @ [c]\<rparr>
      else if (c = CHR ''('' \<or> c = CHR '')'') \<and> \<not> inQuotes st
      then (let st = flushToken st in st\<lparr>tokens := tokens st @ [[c]]\<rparr>)
      else if (c = CHR '' '' \<or> c = CHR 0x09 \<or> c = CHR 0x0A \<or> c = CHR 0x0D) \<and> \<not> inQuotes st
      then (if currentHasEquals st then st\<lparr>current := current st @ [c]\<rparr> else flushToken st)
      else st\<lparr>currentHasEquals := currentHasEquals st \<or> c = CHR ''='', current := current st @ [c]\<rparr>)"

text \<open>The loop flushes after the last character: \<open>if i == len(input)-1\<close>.\<close>

fun tokenize_loop :: "string \<Rightarrow> tokenizer \<Rightarrow> tokenizer" where
  "tokenize_loop [] st = st"
| "tokenize_loop (c # cs) st =
     (let st = tokenize_char c st in
      if cs = [] then flushToken st else tokenize_loop cs st)"

definition new_tokenizer :: tokenizer where
  "new_tokenizer = \<lparr>tokens = [], current = [], inQuotes = False, currentHasEquals = False\<rparr>"

definition tokenize :: "string \<Rightarrow> string list" where
  "tokenize s = tokens (tokenize_loop s new_tokenizer)"

subsection \<open>The parser\<close>

definition unquote :: "string \<Rightarrow> string" where
  "unquote v = (if 2 \<le> length v \<and> hd v = CHR 0x22 \<and> last v = CHR 0x22 then butlast (tl v) else v)"

definition parseNameValue :: "string \<Rightarrow> string \<times> string" where
  "parseNameValue token =
     (if CHR ''='' \<in> set token
      then let parts = SplitN token (CHR ''='') 2 in (ToUpper (parts ! 0), unquote (parts ! 1))
      else (ToUpper token, []))"

text \<open>The stack holds the innermost open node first; a node is attached to its parent by value
  when it is closed, as \<open>append(parent.Children, *currentNode)\<close> does. \<open>root\<close> points at the first
  node opened; it is read only after the stack has become empty, so the model records it
  when that node leaves the stack.\<close>

definition add_child :: "Node \<Rightarrow> Node \<Rightarrow> Node" where
  "add_child p n = Node (Name p) (Value p) (Children p @ [n])"

fun parse_loop :: "nat \<Rightarrow> string list \<Rightarrow> Node list \<Rightarrow> Node option \<Rightarrow> Node result" where
  "parse_loop i [] stack root =
     (if stack \<noteq> []
      then Inl (NewOracleError NamingParseBounds None [ArgInt (int (length stack)), ArgInt 0])
      else case root of None \<Rightarrow> Inl (NewOracleError NamingParseFailed None []) | Some r \<Rightarrow> Inr r)"
| "parse_loop i (token # ts) stack root =
     (if token = ''('' then
        (case ts of
           [] \<Rightarrow> Inl (NewOracleError NamingParsePosition None [ArgInt (int i)])
         | nameToken # rest \<Rightarrow>
             if nameToken = ''('' \<or> nameToken = '')''
             then Inl (NewOracleError NamingParseValue None [ArgStr nameToken])
             else let (name, v) = parseNameValue nameToken in
                  parse_loop (i + 2) rest (Node name v [] # stack) root)
      else if token = '')'' then
        (case stack of
           [] \<Rightarrow> Inl (NewOracleError NamingUnexpectedClosingParenthesis None [ArgInt (int i)])
         | [n] \<Rightarrow> parse_loop (i + 1) ts [] (if root = None then Some n else root)
         | n # p # stk \<Rightarrow> parse_loop (i + 1) ts (add_child p n # stk) root)
      else Inl (NewOracleError NamingParseValue None [ArgStr token]))"

definition parseIterative :: "string list \<Rightarrow> Node result" where
  "parseIterative ts =
     (if ts = [] then Inl (NewOracleError NamingTokensMissing None []) else parse_loop 0 ts [] None)"

definition Parse :: "string \<Rightarrow> Node result" where
  "Parse connectString =
     (let s = TrimSpace connectString in
      if s = [] then Inl (NewOracleError NamingInputMissing None [ArgStr ''connection string''])
      else let ts = tokenize s in
           if ts = [] then Inl (NewOracleError NamingTokensMissing None [])
           else parseIterative ts)"

subsection \<open>Lookups and the printer\<close>

text \<open>The first child with the name, as the inner loop of \<open>GetNode\<close> finds it.\<close>

definition find_child :: "Node \<Rightarrow> string \<Rightarrow> Node option" where
  "find_child n part = List.find (\<lambda>c. Name c = part) (Children n)"

fun walk :: "string \<Rightarrow> nat \<Rightarrow> string list \<Rightarrow> Node \<Rightarrow> Node result" where
  "walk path i [] n = Inr n"
| "walk path i (part # parts) n =
     (if part = [] then Inl (NewOracleError NamingParsePathSegment None [ArgStr [], ArgStr path, ArgInt (int i)])
      else case find_child n part of
             None \<Rightarrow> Inl (NewOracleError NamingParsePathSegment None [ArgStr part, ArgStr path, ArgInt (int i)])
           | Some c \<Rightarrow> walk path (i + 1) parts c)"

definition GetNode :: "Node \<Rightarrow> string \<Rightarrow> Node result" where
  "GetNode n path =
     (if path = [] then Inl (NewOracleError NamingInputMissing None [ArgStr ''path''])
      else case map ToUpper (Split path (CHR ''/'')) of
             [] \<Rightarrow> Inl (NewOracleError NamingParsePath None [ArgStr path])
           | p # ps \<Rightarrow>
               if p \<noteq> Name n then Inl (NewOracleError NamingParseValues None [ArgStr p, ArgStr (Name n)])
               else walk path 1 ps n)"

definition GetValue :: "Node \<Rightarrow> string \<Rightarrow> string result" where
  "GetValue n path =
     (case GetNode n path of
        Inl e \<Rightarrow> Inl e
      | Inr m \<Rightarrow> if Value m = [] then Inl (NewOracleError NamingParsePath None [ArgStr path])
                 else Inr (Value m))"

definition ChildCount :: "Node \<Rightarrow> int" where
  "ChildCount n = int (length (Children n))"

definition GetChild :: "Node \<Rightarrow> int \<Rightarrow> Node result" where
  "GetChild n index =
     (if index < 0 \<or> index \<ge> int (length (Children n))
      then Inl (NewOracleError NamingParseBounds None [ArgInt index, ArgInt (int (length (Children n)))])
      else Inr (Children n ! nat index))"

primrec ToString :: "Node \<Rightarrow> string" where
  "ToString (Node n v cs) =
     ''('' @ n @ (if v \<noteq> [] \<or> cs \<noteq> [] then ''='' else []) @ v @ concat (map ToString cs) @ '')''"

definition prepareExpectedValues :: "string \<Rightarrow> string list" where
  "prepareExpectedValues values = map (\<lambda>s. ToLower (TrimSpace s)) (Split values (CHR '',''))"

subsection \<open>Trees that need no quoting\<close>

text \<open>A name the tokenizer leaves alone: not empty, upper case, no blank, quote, parenthesis
  or equals sign. A value: no quote or parenthesis, no trailing blank.\<close>

definition name_char :: "char \<Rightarrow> bool" where
  "name_char c = (\<not> is_space c \<and> c \<noteq> CHR 0x22 \<and> c \<noteq> CHR ''('' \<and> c \<noteq> CHR '')'' \<and> c \<noteq> CHR ''='' \<and>
     upper_char c = c)"

definition value_char :: "char \<Rightarrow> bool" where
  "value_char c = (c \<noteq> CHR 0x22 \<and> c \<noteq> CHR ''('' \<and> c \<noteq> CHR '')'')"

primrec plain_node :: "Node \<Rightarrow> bool" where
  "plain_node (Node n v cs) =
     (n \<noteq> [] \<and> list_all name_char n \<and> list_all value_char v \<and> (v \<noteq> [] \<longrightarrow> \<not> is_space (last v)) \<and>
      list_all id (map plain_node cs))"

text \<open>The name token of a node, and all tokens of a tree.\<close>

definition name_token :: "Node \<Rightarrow> string" where
  "name_token n = Name n @ (if Value n \<noteq> [] \<or> Children n \<noteq> [] then ''='' else []) @ Value n"

primrec node_tokens :: "Node \<Rightarrow> string list" where
  "node_tokens (Node n v cs) = ''('' # name_token (Node n v cs) # concat (map node_tokens cs) @ ['')'']"

lemma tokenize_loop_fold:
  "tokenize_loop cs st = (if cs = [] then st else flushToken (fold tokenize_char cs st))"
  by (induction cs arbitrary: st) (simp_all add: Let_def)

lemma tokenize_name:
  "list_all name_char n \<Longrightarrow> \<not> inQuotes st \<Longrightarrow>
   fold tokenize_char n st = st\<lparr>current := current st @ n\<rparr>"
proof (induction n arbitrary: st)
  case (Cons c n)
  then have "tokenize_char c st = st\<lparr>current := current st @ [c]\<rparr>"
    by (auto simp: tokenize_char_def name_char_def is_space_def)
  then show ?case using Cons by simp
qed simp

lemma tokenize_value:
  "list_all value_char v \<Longrightarrow> \<not> inQuotes st \<Longrightarrow> currentHasEquals st \<Longrightarrow>
   fold tokenize_char v st = st\<lparr>current := current st @ v\<rparr>"
proof (induction v arbitrary: st)
  case (Cons c v)
  then have "tokenize_char c st = st\<lparr>current := current st @ [c]\<rparr>"
    by (auto simp: tokenize_char_def value_char_def)
  then show ?case using Cons by simp
qed simp

text \<open>Between tokens.\<close>

definition between :: "string list \<Rightarrow> tokenizer" where
  "between ts = \<lparr>tokens = ts, current = [], inQuotes = False, currentHasEquals = False\<rparr>"

definition in_token :: "string list \<Rightarrow> string \<Rightarrow> bool \<Rightarrow> tokenizer" where
  "in_token ts w eq = \<lparr>tokens = ts, current = w, inQuotes = False, currentHasEquals = eq\<rparr>"

lemma name_token_trim: "plain_node n \<Longrightarrow> TrimSpace (name_token n) = name_token n \<and> name_token n \<noteq> []"
proof (cases n)
  case (Node nm v cs)
  assume "plain_node n"
  with Node have "nm \<noteq> []" "list_all name_char nm" "v \<noteq> [] \<longrightarrow> \<not> is_space (last v)" by simp_all
  then have "\<not> is_space (hd (name_token n))" "\<not> is_space (last (name_token n))" "name_token n \<noteq> []"
    using Node by (auto simp: name_token_def name_char_def list_all_iff is_space_def)
  then show ?thesis by (simp add: TrimSpace_id)
qed

lemma tokenize_name_token:
  assumes "plain_node n"
  shows "\<exists>eq. fold tokenize_char (name_token n) (between ts) = in_token ts (name_token n) eq"
proof (cases n)
  case (Node nm v cs)
  have nm: "list_all name_char nm" and v: "list_all value_char v" using assms Node by simp_all
  have 1: "fold tokenize_char nm (between ts) = in_token ts nm False"
    using nm by (simp add: tokenize_name between_def in_token_def)
  have 2: "tokenize_char (CHR ''='') (in_token ts nm False) = in_token ts (nm @ ''='') True"
    by (simp add: tokenize_char_def in_token_def)
  have 3: "fold tokenize_char v (in_token ts (nm @ ''='') True) = in_token ts (nm @ ''='' @ v) True"
    using v by (simp add: tokenize_value in_token_def)
  show ?thesis
    by (cases "v = [] \<and> cs = []") (auto simp: Node name_token_def 1 2 3)
qed

lemma tokenize_paren:
  "c = CHR ''('' \<or> c = CHR '')'' \<Longrightarrow> tokenize_char c (between ts) = between (ts @ [[c]])"
  by (auto simp: tokenize_char_def between_def flushToken_def)

lemma tokenize_paren_in:
  "c = CHR ''('' \<or> c = CHR '')'' \<Longrightarrow> TrimSpace w = w \<Longrightarrow> w \<noteq> [] \<Longrightarrow>
   tokenize_char c (in_token ts w eq) = between (ts @ [w, [c]])"
  by (auto simp: tokenize_char_def between_def in_token_def flushToken_def)

lemma ToString_starts: "\<exists>t. ToString n = CHR ''('' # t"
  by (cases n) simp

lemma tokenize_ToString:
  "plain_node n \<Longrightarrow> fold tokenize_char (ToString n) (between ts) = between (ts @ node_tokens n)"
proof (induction n arbitrary: ts)
  case (Node nm v cs)
  let ?n = "Node nm v cs"
  obtain eq where nt: "fold tokenize_char (name_token ?n) (between (ts @ [''('']))
      = in_token (ts @ [''('']) (name_token ?n) eq"
    using tokenize_name_token [OF Node.prems] by blast
  have trim: "TrimSpace (name_token ?n) = name_token ?n" "name_token ?n \<noteq> []"
    using name_token_trim [OF Node.prems] by simp_all
  have kids: "fold tokenize_char (concat (map ToString xs)) (between us)
      = between (us @ concat (map node_tokens xs))" if "set xs \<subseteq> set cs" for xs us
    using that Node.prems
  proof (induction xs arbitrary: us)
    case (Cons x xs)
    then have "plain_node x" by (auto simp: list_all_iff)
    then show ?case using Cons Node.IH [of x us] by simp
  qed simp
  have str: "ToString ?n = ''('' @ name_token ?n @ concat (map ToString cs) @ '')''"
    by (simp add: name_token_def)
  show ?case
  proof (cases cs)
    case Nil
    then show ?thesis unfolding str using nt trim
      by (simp add: tokenize_paren tokenize_paren_in)
  next
    case (Cons x xs)
    obtain t where t: "ToString x = CHR ''('' # t" using ToString_starts by blast
    have step: "tokenize_char (CHR ''('') (in_token (ts @ [''('']) (name_token ?n) eq)
        = tokenize_char (CHR ''('') (between (ts @ [''('', name_token ?n]))"
      using trim by (simp add: tokenize_paren tokenize_paren_in)
    have "fold tokenize_char (concat (map ToString cs)) (in_token (ts @ [''('']) (name_token ?n) eq)
        = fold tokenize_char (concat (map ToString cs)) (between (ts @ [''('', name_token ?n]))"
      using step by (simp add: Cons t)
    then show ?thesis
      unfolding str using nt kids [of cs] by (simp add: tokenize_paren)
  qed
qed

lemma parseNameValue_name_token:
  assumes "plain_node n"
  shows "parseNameValue (name_token n) = (Name n, Value n)"
proof (cases n)
  case (Node nm v cs)
  have ok: "list_all name_char nm" "list_all value_char v" using assms Node by simp_all
  have nm: "CHR ''='' \<notin> set nm" using ok by (auto simp: list_all_iff name_char_def)
  have up: "ToUpper nm = nm"
    using ok unfolding ToUpper_def by (intro map_idI) (simp add: list_all_iff name_char_def)
  have v: "unquote v = v"
    using ok by (cases v) (auto simp: value_char_def unquote_def)
  show ?thesis
  proof (cases "v = [] \<and> cs = []")
    case True
    then show ?thesis using nm up by (simp add: Node name_token_def parseNameValue_def)
  next
    case False
    then have "name_token n = nm @ CHR ''='' # v" by (auto simp: Node name_token_def)
    then show ?thesis using nm up v by (simp add: Node parseNameValue_def Let_def numeral_2_eq_2)
  qed
qed

lemma name_token_not_paren: "plain_node n \<Longrightarrow> name_token n \<noteq> ''('' \<and> name_token n \<noteq> '')''"
proof (cases n)
  case (Node nm v cs)
  assume "plain_node n"
  then have "name_char (hd (name_token n))" using Node by (cases nm) (simp_all add: name_token_def)
  then show ?thesis by (auto simp: name_char_def)
qed

text \<open>Inside an open parent, the tokens of a tree add it as the last child.\<close>

lemma parse_loop_node:
  "plain_node n \<Longrightarrow>
   parse_loop i (node_tokens n @ ts) (p # stk) root =
   parse_loop (i + length (node_tokens n)) ts (add_child p n # stk) root"
proof (induction n arbitrary: i ts p stk)
  case (Node nm v cs)
  let ?n = "Node nm v cs"
  have kids: "parse_loop j (concat (map node_tokens xs) @ us) (q # st) root
      = parse_loop (j + length (concat (map node_tokens xs))) us (Node (Name q) (Value q) (Children q @ xs) # st) root"
    if "set xs \<subseteq> set cs" for xs j us q st
    using that Node.prems
  proof (induction xs arbitrary: j q)
    case (Cons x xs)
    then have "plain_node x" by (auto simp: list_all_iff)
    then show ?case using Cons Node.IH [of x] by (simp add: add_child_def algebra_simps)
  qed simp
  show ?case
    using parseNameValue_name_token [OF Node.prems] name_token_not_paren [OF Node.prems] kids [of cs]
    by (simp add: add_child_def algebra_simps)
qed

lemma parse_loop_root:
  assumes "plain_node n"
  shows "parse_loop 0 (node_tokens n) [] None = Inr n"
proof (cases n)
  case (Node nm v cs)
  have kids: "parse_loop j (concat (map node_tokens xs) @ us) [q] None
      = parse_loop (j + length (concat (map node_tokens xs))) us [Node (Name q) (Value q) (Children q @ xs)] None"
    if "list_all plain_node xs" for xs j us q
    using that
    by (induction xs arbitrary: j q) (simp_all add: parse_loop_node add_child_def algebra_simps)
  have "list_all plain_node cs" using assms Node by (simp add: list_all_iff)
  then show ?thesis
    using parseNameValue_name_token [OF assms] name_token_not_paren [OF assms] kids [of cs]
    by (simp add: Node)
qed

lemma Parse_printed:
  assumes "plain_node n"
  shows "Parse (ToString n) = Inr n"
proof -
  obtain t where t: "ToString n = CHR ''('' # t" using ToString_starts by blast
  have trim: "TrimSpace (ToString n) = ToString n"
    by (rule TrimSpace_id) (cases n; simp add: is_space_def)+
  have "tokenize (ToString n) = node_tokens n"
    using tokenize_ToString [OF assms, of "[]"] t
    by (simp add: tokenize_def tokenize_loop_fold between_def new_tokenizer_def flushToken_def)
  moreover have "node_tokens n \<noteq> []" by (cases n) simp
  ultimately show ?thesis
    using t trim parse_loop_root [OF assms] by (simp add: Parse_def parseIterative_def Let_def)
qed

text \<open>C20: The parser is a left inverse of the printer: whatever tree of plain names and values the
  driver builds and sends as a connect string, reading that string gives the tree back.\<close>

theorem Parse_ToString:
  assumes "plain_node n"
  shows "Parse (ToString n) = Inr n"
  by (rule Parse_printed [OF assms])

theorem Parse_ToString_witness:
  "Parse (ToString (Node ''DESCRIPTION'' [] [Node ''HOST'' ''my host'' [], Node ''OPT'' [] []])) =
     Inr (Node ''DESCRIPTION'' [] [Node ''HOST'' ''my host'' [], Node ''OPT'' [] []])"
  by (rule Parse_ToString)
    (simp add: name_char_def value_char_def is_space_def upper_char_def)

text \<open>A quoted value loses its quotes when it is parsed and \<open>ToString\<close> does not put them back, so
  printing a parsed tree may change its structure: here the value \<open>a)(PORT=1\<close> of \<open>HOST\<close> becomes
  a sibling node, and the printed text reads as a different tree.\<close>

theorem ToString_unquotes:
  "Parse (''(A=(HOST='' @ [CHR 0x22] @ ''a)(PORT=1'' @ [CHR 0x22] @ ''))'')
     = Inr (Node ''A'' [] [Node ''HOST'' ''a)(PORT=1'' []]) \<and>
   Parse (ToString (Node ''A'' [] [Node ''HOST'' ''a)(PORT=1'' []]))
     = Inr (Node ''A'' [] [Node ''HOST'' ''a'' [], Node ''PORT'' ''1'' []])"
  by code_simp

subsection \<open>Parsed trees are in upper case\<close>

primrec upper_names :: "Node \<Rightarrow> bool" where
  "upper_names (Node n v cs) = (ToUpper n = n \<and> list_all id (map upper_names cs))"

lemma upper_names_iff:
  "upper_names n \<longleftrightarrow> ToUpper (Name n) = Name n \<and> list_all upper_names (Children n)"
  by (cases n) (simp add: list_all_iff)

lemma parse_loop_upper:
  "parse_loop i ts stack root = Inr n \<Longrightarrow> list_all upper_names stack \<Longrightarrow>
   (\<forall>r. root = Some r \<longrightarrow> upper_names r) \<Longrightarrow> upper_names n"
proof (induction i ts stack root rule: parse_loop.induct)
  case (1 i stack root)
  then show ?case by (auto split: if_splits option.splits)
next
  case (2 i token ts stack root)
  consider "token = ''(''" | "token = '')''" | "token \<noteq> ''(''" "token \<noteq> '')''" by blast
  then show ?case
  proof cases
    case 1
    then obtain nt rest where ts: "ts = nt # rest" and nt: "\<not> (nt = ''('' \<or> nt = '')'')"
      using "2.prems"(1) by (auto split: list.splits if_splits)
    obtain a b where ab: "parseNameValue nt = (a, b)" by fastforce
    then have "ToUpper a = a" by (auto simp: parseNameValue_def Let_def split: if_splits)
    then show ?thesis
      using "2.IH"(1) [OF 1 ts nt ab [symmetric] refl] "2.prems" 1 ts nt ab by simp
  next
    case 2
    then show ?thesis
      using "2.IH" "2.prems"
      by (auto split: list.splits if_splits simp: upper_names_iff add_child_def)
  next
    case 3
    then show ?thesis using "2.prems" by simp
  qed
qed

text \<open>C23: Every name of a parsed tree is in upper case, which the lookups rely on: they compare
  the upper-cased path with the names as they stand.\<close>

theorem Parse_upper_names:
  assumes "Parse s = Inr n"
  shows "upper_names n"
  using assms parse_loop_upper [of 0 _ "[]" None n]
  by (auto simp: Parse_def parseIterative_def Let_def split: if_splits)

theorem Parse_upper_names_witness:
  "upper_names (Node ''DESCRIPTION'' [] [Node ''HOST'' ''localHost'' []])"
proof -
  have "Parse ''(description=(Host=localHost))'' = Inr (Node ''DESCRIPTION'' [] [Node ''HOST'' ''localHost'' []])"
    by code_simp
  then show ?thesis by (rule Parse_upper_names)
qed

lemma upper_char_slash: "upper_char c = CHR ''/'' \<longleftrightarrow> c = CHR ''/''"
proof -
  have "(of_char c :: nat) < 256" by simp
  then show ?thesis
    by (auto simp: upper_char_def of_char_of dest!: arg_cong [where f = "of_char :: char \<Rightarrow> nat"])
qed

lemma Split_ToUpper: "Split (ToUpper s) (CHR ''/'') = map ToUpper (Split s (CHR ''/''))"
  by (induction s) (auto simp: ToUpper_def upper_char_slash split: list.splits)

lemma walk_path_ok: "walk p i ps n = Inr m \<longleftrightarrow> walk q j ps n = Inr m"
  by (induction ps arbitrary: n i j) (auto split: option.splits)

text \<open>Paths are case-insensitive: two spellings of a path find the same node.\<close>

theorem GetNode_case_insensitive:
  assumes "ToUpper p = ToUpper q"
  shows "GetNode n p = Inr m \<longleftrightarrow> GetNode n q = Inr m"
proof -
  have "map ToUpper (Split p (CHR ''/'')) = map ToUpper (Split q (CHR ''/''))"
    using assms by (simp flip: Split_ToUpper)
  moreover have "p = [] \<longleftrightarrow> q = []" using assms by (auto simp: ToUpper_def)
  ultimately show ?thesis
    by (auto simp: GetNode_def walk_path_ok [of p _ _ _ _ q] split: list.splits if_splits)
qed

theorem GetNode_case_insensitive_witness:
  "GetNode (Node ''D'' [] [Node ''HOST'' ''h'' []]) ''d/host'' = Inr (Node ''HOST'' ''h'' [])"
proof -
  have "GetNode (Node ''D'' [] [Node ''HOST'' ''h'' []]) ''D/HOST'' = Inr (Node ''HOST'' ''h'' [])"
    by code_simp
  moreover have "ToUpper ''D/HOST'' = ToUpper ''d/host''" by code_simp
  ultimately show ?thesis using GetNode_case_insensitive by blast
qed

end
