(* ===== verification/Go_Time.thy ===== *)
theory Go_Time
  imports Go_Strings Complex_Main "HOL-Library.Log_Nat"
begin

text \<open>
  \<open>time.ParseDuration\<close> and \<open>Duration.Milliseconds\<close> of Go's standard library. A duration is an
  \<open>int64\<close> number of nanoseconds, written here as an \<open>int\<close>; the function's intermediate
  \<open>uint64\<close> values stay below \<open>2 ^ 64\<close> because of the overflow tests it makes. The fraction
  of a unit is computed in \<open>float64\<close>: \<open>float64_round\<close> rounds a positive rational to 53
  significant bits, ties to even. It has no exponent limits: numbers too small or too large for
  them only occur here as factors of products below one, which are truncated to zero.
\<close>

definition float64_round :: "rat \<Rightarrow> rat" where
  "float64_round x =
     (if x \<le> 0 then 0
      else let (n, d) = quotient_of x;
               e0 = bitlen n - bitlen d - 53;
               e = (if x / 2 powi e0 < 2 ^ 53 then e0 else e0 + 1);
               y = x / 2 powi e;
               f = \<lfloor>y\<rfloor>; r = y - of_int f;
               m = (if r < 1 / 2 then f else if r > 1 / 2 then f + 1 else if even f then f else f + 1)
           in of_int m * 2 powi e)"

text \<open>\<open>leadingInt\<close>: the digits at the front, with the overflow tests.\<close>

fun leadingInt_loop :: "string \<Rightarrow> int \<Rightarrow> (int \<times> string) option" where
  "leadingInt_loop [] x = Some (x, [])"
| "leadingInt_loop (c # s) x =
     (if \<not> is_digit c then Some (x, c # s)
      else if x > 2 ^ 63 div 10 then None
      else let y = x * 10 + int (char_digit c) in
           if y > 2 ^ 63 then None else leadingInt_loop s y)"

text \<open>\<open>leadingFraction\<close>: digits that would overflow are skipped.\<close>

fun leadingFraction_loop :: "string \<Rightarrow> int \<Rightarrow> rat \<Rightarrow> bool \<Rightarrow> int \<times> rat \<times> string" where
  "leadingFraction_loop [] x scale overflow = (x, scale, [])"
| "leadingFraction_loop (c # s) x scale overflow =
     (if \<not> is_digit c then (x, scale, c # s)
      else if overflow then leadingFraction_loop s x scale overflow
      else if x > (2 ^ 63 - 1) div 10 then leadingFraction_loop s x scale True
      else let y = x * 10 + int (char_digit c) in
           if y > 2 ^ 63 then leadingFraction_loop s x scale True
           else leadingFraction_loop s y (float64_round (scale * 10)) overflow)"

definition unitMap :: "string \<Rightarrow> int option" where
  "unitMap u =
     (if u = ''ns'' then Some 1
      else if u = ''us'' \<or> u = [CHR 0xC2, CHR 0xB5, CHR ''s''] \<or> u = [CHR 0xCE, CHR 0xBC, CHR ''s''] then Some 1000
      else if u = ''ms'' then Some 1000000
      else if u = ''s'' then Some 1000000000
      else if u = ''m'' then Some (60 * 1000000000)
      else if u = ''h'' then Some (3600 * 1000000000)
      else None)"

definition duration_error :: "string \<Rightarrow> go_error" where
  "duration_error what = GoError (''time: '' @ what)"

text \<open>The number in front: its integer part, its fraction with the scale, and the rest.\<close>

definition duration_number :: "string \<Rightarrow> (int \<times> int \<times> rat \<times> string) result" where
  "duration_number s =
     (if \<not> (s \<noteq> [] \<and> (hd s = CHR ''.'' \<or> is_digit (hd s))) then Inl (duration_error ''invalid duration'')
      else case leadingInt_loop s 0 of
        None \<Rightarrow> Inl (duration_error ''invalid duration'')
      | Some (v, s1) \<Rightarrow>
          let pre = (length s \<noteq> length s1);
              dot = (s1 \<noteq> [] \<and> hd s1 = CHR ''.'');
              (f, scale, s2) = (if dot then leadingFraction_loop (tl s1) 0 1 False else (0, 1, s1));
              post = (dot \<and> length (tl s1) \<noteq> length s2)
          in if \<not> pre \<and> \<not> post then Inl (duration_error ''invalid duration'') else Inr (v, f, scale, s2))"

text \<open>The unit, up to the next digit or point, and the value in nanoseconds.\<close>

definition unit_end :: "char \<Rightarrow> bool" where
  "unit_end c = (c = CHR ''.'' \<or> is_digit c)"

definition duration_unit :: "int \<Rightarrow> int \<Rightarrow> rat \<Rightarrow> string \<Rightarrow> (int \<times> string) result" where
  "duration_unit v f scale s =
     (let u = takeWhile (\<lambda>c. \<not> unit_end c) s in
      if u = [] then Inl (duration_error ''missing unit in duration'')
      else case unitMap u of
        None \<Rightarrow> Inl (duration_error ''unknown unit'')
      | Some unit \<Rightarrow>
          if v > 2 ^ 63 div unit then Inl (duration_error ''invalid duration'')
          else let w = v * unit +
                 (if f > 0
                  then \<lfloor>float64_round (float64_round (of_int f) * float64_round (of_int unit / scale))\<rfloor>
                  else 0)
               in if f > 0 \<and> w > 2 ^ 63 then Inl (duration_error ''invalid duration'')
                  else Inr (w, dropWhile (\<lambda>c. \<not> unit_end c) s))"

definition duration_item :: "string \<Rightarrow> (int \<times> string) result" where
  "duration_item s =
     (case duration_number s of
        Inl e \<Rightarrow> Inl e
      | Inr (v, f, scale, s2) \<Rightarrow> duration_unit v f scale s2)"

lemma leadingInt_loop_length: "leadingInt_loop s x = Some (v, s') \<Longrightarrow> length s' \<le> length s"
  by (induction s x rule: leadingInt_loop.induct) (auto simp: Let_def split: if_splits)

lemma leadingFraction_loop_length: "leadingFraction_loop s x sc ov = (f, sc', s') \<Longrightarrow> length s' \<le> length s"
  by (induction s x sc ov rule: leadingFraction_loop.induct) (auto simp: Let_def split: if_splits)

lemma duration_number_length: "duration_number s = Inr (v, f, scale, s2) \<Longrightarrow> length s2 \<le> length s"
  using leadingFraction_loop_length leadingInt_loop_length
  by (fastforce simp: duration_number_def Let_def split: if_splits option.splits prod.splits)

lemma duration_unit_length:
  assumes "duration_unit v f scale s = Inr (w, s')"
  shows "length s' < length s"
proof -
  have "takeWhile (\<lambda>c. \<not> unit_end c) s \<noteq> []" "s' = dropWhile (\<lambda>c. \<not> unit_end c) s"
    using assms by (auto simp: duration_unit_def Let_def split: if_splits option.splits)
  moreover have "length s = length (takeWhile (\<lambda>c. \<not> unit_end c) s) + length (dropWhile (\<lambda>c. \<not> unit_end c) s)"
    by (metis length_append takeWhile_dropWhile_id)
  ultimately show ?thesis by (cases "takeWhile (\<lambda>c. \<not> unit_end c) s") simp_all
qed

lemma duration_item_length: "duration_item s = Inr (w, s') \<Longrightarrow> length s' < length s"
  using duration_number_length duration_unit_length
  by (fastforce simp: duration_item_def split: sum.splits prod.splits)

function duration_loop :: "string \<Rightarrow> int \<Rightarrow> int result" where
  "duration_loop s d =
     (if s = [] then Inr d
      else case duration_item s of
        Inl e \<Rightarrow> Inl e
      | Inr (v, s') \<Rightarrow> if d + v > 2 ^ 63 then Inl (duration_error ''invalid duration'') else duration_loop s' (d + v))"
  by pat_completeness auto
termination
  by (relation "measure (\<lambda>(s, d). length s)") (auto dest: duration_item_length)

definition ParseDuration :: "string \<Rightarrow> int result" where
  "ParseDuration orig =
     (let signed = (orig \<noteq> [] \<and> (hd orig = CHR ''-'' \<or> hd orig = CHR ''+''));
          neg = (orig \<noteq> [] \<and> hd orig = CHR ''-'');
          s = (if signed then tl orig else orig)
      in if s = ''0'' then Inr 0
         else if s = [] then Inl (duration_error ''invalid duration'')
         else case duration_loop s 0 of
           Inl e \<Rightarrow> Inl e
         | Inr d \<Rightarrow> if neg then Inr (- d)
                   else if d > 2 ^ 63 - 1 then Inl (duration_error ''invalid duration'') else Inr d)"

definition Milliseconds :: "int \<Rightarrow> int" where
  "Milliseconds d = go_div d 1000000"

text \<open>A text of digits only has no unit.\<close>

lemma leadingInt_digits:
  "list_all is_digit s \<Longrightarrow> leadingInt_loop s x = Some (v, s') \<Longrightarrow> s' = []"
  by (induction s x rule: leadingInt_loop.induct) (auto simp: Let_def split: if_splits)

lemma ParseDuration_digits:
  assumes "list_all is_digit s" "s \<noteq> []" "s \<noteq> ''0''"
  shows "\<exists>e. ParseDuration s = Inl e"
proof -
  have hd: "is_digit (hd s)" using assms by (cases s) simp_all
  then have "hd s \<noteq> CHR ''-''" "hd s \<noteq> CHR ''+''" by auto
  moreover have "s2 = []" if "duration_number s = Inr (v, f, scale, s2)" for v f scale s2
    using that assms hd leadingInt_digits [OF assms(1)]
    by (auto simp: duration_number_def Let_def split: if_splits option.splits prod.splits)
  then have "\<exists>e. duration_item s = Inl e"
    by (cases "duration_number s") (auto simp: duration_item_def duration_unit_def split: prod.splits)
  ultimately show ?thesis
    using assms by (auto simp: ParseDuration_def Let_def)
qed

end
