(* ===== verification/Naming_Ctx.thy ===== *)
theory Naming_Ctx
  imports Naming_NV Go_Time
begin

text \<open>
  The connection context extracted from a parsed descriptor
  (\<open>internal/driver/network/naming/nvctx.go\<close>, with \<open>NormalizeProtocol\<close> of
  \<open>internal/driver/common/constants.go\<close>). A loop over the children that returns at the first
  error is \<open>foldE\<close>. Go's \<open>int\<close> has 64 bits.
\<close>

subsection \<open>Protocols\<close>

datatype Protocol = ProtocolTCP | ProtocolTCPS

definition Protocol_String :: "Protocol \<Rightarrow> string" where
  "Protocol_String p = (case p of ProtocolTCP \<Rightarrow> ''TCP'' | ProtocolTCPS \<Rightarrow> ''TCPS'')"

definition NormalizeProtocol :: "string \<Rightarrow> Protocol result" where
  "NormalizeProtocol ps =
     (let normalized = ToLower (TrimSpace ps) in
      if normalized = ''tcp'' then Inr ProtocolTCP
      else if normalized = ''tcps'' then Inr ProtocolTCPS
      else Inl (GoError (''invalid protocol value ['' @ ps @ '']'')))"

subsection \<open>The context\<close>

record Address =
  Protocol :: Protocol
  Host :: string
  Port :: int
  HTTPSProxy :: string
  HTTPSProxyPort :: int
  OriginHost :: string
  ResolvedIP :: string

record AddressList =
  al_LoadBalance :: bool
  al_Failover :: bool
  al_SourceRoute :: bool
  al_Addresses :: "Address list"

record ConnectData =
  ServiceName :: string
  SID :: string
  Server :: string
  InstanceName :: string
  FailoverMode :: string
  HS :: string
  RDBDatabase :: string
  GlobalName :: string
  cd_ConnectionIDPrefix :: string

record Security =
  SSLServerCertDN :: string
  SSLServerDNMatch :: bool
  SSLAllowWeakDNMatch :: bool
  WalletLocation :: string
  MyWalletDirectory :: string
  TokenAuth :: string
  TokenLocation :: string

record Description =
  SourceRoute :: bool
  LoadBalance :: bool
  Failover :: bool
  UseSNI :: bool
  ConnectTimeout :: int
  RetryCount :: int
  RetryDelay :: int
  TransportConnectTimeout :: int
  ExpireTime :: int
  RecvTimeout :: int
  SendTimeout :: int
  SDU :: int
  RecvBufSize :: int
  SendBufSize :: int
  Enable :: string
  ConnectionIDPrefix :: string
  Compression :: bool
  CompressionLevels :: "string list"
  desc_Security :: Security
  AddressLists :: "AddressList list"
  Addresses :: "Address list"
  desc_ConnectData :: ConnectData

record DescriptionList =
  dl_LoadBalance :: bool
  dl_Failover :: bool
  dl_SourceRoute :: bool
  Descriptions :: "Description list"

record ConnectionContext =
  ctx_DescriptionList :: "DescriptionList option"
  ctx_Description :: "Description option"
  ctx_Addresses :: "Address list"

definition NewDescriptionList :: DescriptionList where
  "NewDescriptionList = \<lparr>dl_LoadBalance = False, dl_Failover = True, dl_SourceRoute = False, Descriptions = []\<rparr>"

definition NewAddressList :: AddressList where
  "NewAddressList = \<lparr>al_LoadBalance = False, al_Failover = True, al_SourceRoute = False, al_Addresses = []\<rparr>"

definition NewAddress :: Address where
  "NewAddress = \<lparr>Protocol = ProtocolTCP, Host = [], Port = 0, HTTPSProxy = [], HTTPSProxyPort = 0,
     OriginHost = [], ResolvedIP = []\<rparr>"

definition zero_ConnectData :: ConnectData where
  "zero_ConnectData = \<lparr>ServiceName = [], SID = [], Server = [], InstanceName = [], FailoverMode = [],
     HS = [], RDBDatabase = [], GlobalName = [], cd_ConnectionIDPrefix = []\<rparr>"

definition NewSecurity :: Security where
  "NewSecurity = \<lparr>SSLServerCertDN = [], SSLServerDNMatch = True, SSLAllowWeakDNMatch = False,
     WalletLocation = [], MyWalletDirectory = [], TokenAuth = [], TokenLocation = []\<rparr>"

definition NewDescription :: Description where
  "NewDescription = \<lparr>SourceRoute = False, LoadBalance = False, Failover = True, UseSNI = False,
     ConnectTimeout = 0, RetryCount = 0, RetryDelay = 0, TransportConnectTimeout = 0, ExpireTime = 0,
     RecvTimeout = 0, SendTimeout = 0, SDU = 0, RecvBufSize = 0, SendBufSize = 0, Enable = [],
     ConnectionIDPrefix = [], Compression = False, CompressionLevels = [], desc_Security = NewSecurity,
     AddressLists = [], Addresses = [], desc_ConnectData = zero_ConnectData\<rparr>"

text \<open>\<open>fmt.Sprintf("%s:%d", a.Host, a.Port)\<close>\<close>

definition Address_String :: "Address \<Rightarrow> string" where
  "Address_String a = Host a @ '':'' @ FormatInt (Port a)"

subsection \<open>Values\<close>

definition normalizeBoolean :: "string \<Rightarrow> bool result" where
  "normalizeBoolean v =
     (let normalized = ToLower (TrimSpace v) in
      if normalized = ''on'' \<or> normalized = ''yes'' \<or> normalized = ''true'' then Inr True
      else if normalized = ''off'' \<or> normalized = ''no'' \<or> normalized = ''false'' then Inr False
      else Inl (NewOracleError InvalidConnectionParameter None
             [ArgStr v, ArgStr ''boolean'', ArgStr ''on|off|yes|no|true|false'']))"

definition parseDurationMS :: "string \<Rightarrow> int result" where
  "parseDurationMS v =
     (case ParseDuration v of
        Inr d \<Rightarrow> Inr (Milliseconds d)
      | Inl _ \<Rightarrow>
          (case Atoi v of
             Inl err \<Rightarrow> Inl (NewOracleError InvalidConnectionParameter (Some err)
               [ArgStr v, ArgStr ''duration'', ArgStr ''Go duration (e.g. 10s, 500ms) OR integer seconds (e.g. 10)''])
           | Inr num \<Rightarrow>
               if num \<ge> 0 then Inr (swrap 64 (num * 1000))
               else Inl (NewOracleError InvalidConnectionParameter None
                      [ArgStr v, ArgStr ''duration'', ArgStr ''non-negative''])))"

definition parseIntField :: "string \<Rightarrow> int result" where
  "parseIntField v =
     (case Atoi v of
        Inl err \<Rightarrow> Inl (NewOracleError InvalidConnectionParameter (Some err) [ArgStr v, ArgStr ''integer'', ArgStr ''numeric''])
      | Inr num \<Rightarrow> Inr (if num < 0 then 0 else num))"

definition parseUIntField :: "string \<Rightarrow> int result" where
  "parseUIntField v =
     (case Atoi v of
        Inl err \<Rightarrow> Inl (NewOracleError InvalidConnectionParameter (Some err) [ArgStr v, ArgStr ''unsigned-integer'', ArgStr ''0 or greater''])
      | Inr num \<Rightarrow>
          if num < 0
          then Inl (NewOracleError InvalidConnectionParameter None [ArgStr v, ArgStr ''unsigned-integer'', ArgStr ''0 or greater''])
          else Inr num)"

lemmas decimal_eval = Atoi_def ParseInt_def dec_val_def char_digit_def is_digit_def

subsection \<open>Extraction\<close>

text \<open>\<open>if x.F, parsingError = normalizeBoolean(child.Value); parsingError != nil { return ... }\<close> and
  the same with a parser whose error is returned as it is.\<close>

definition set_bool :: "Node \<Rightarrow> (bool \<Rightarrow> 's) \<Rightarrow> 's result" where
  "set_bool child upd =
     (case normalizeBoolean (Value child) of
        Inl e \<Rightarrow> Inl (NewOracleError NamingContextError (Some e) [ArgStr (Value child), ArgStr (Name child)])
      | Inr b \<Rightarrow> Inr (upd b))"

definition set_val :: "'a result \<Rightarrow> ('a \<Rightarrow> 's) \<Rightarrow> 's result" where
  "set_val r upd = (case r of Inl e \<Rightarrow> Inl e | Inr v \<Rightarrow> Inr (upd v))"

definition unknown_child :: "Node \<Rightarrow> string \<Rightarrow> go_error" where
  "unknown_child child parent = NewOracleError NamingContextError None [ArgStr (Name child), ArgStr parent]"

definition extractAddress_child :: "Node \<Rightarrow> Address \<Rightarrow> Address result" where
  "extractAddress_child child addr =
     (let name = ToUpper (Name child); v = Value child in
      if name = ''PROTOCOL'' then
        (case NormalizeProtocol v of
           Inl e \<Rightarrow> Inl (NewOracleError NamingContextError (Some e) [ArgStr v, ArgStr (Name child)])
         | Inr p \<Rightarrow> Inr (addr\<lparr>Protocol := p\<rparr>))
      else if name = ''HOST'' then Inr (addr\<lparr>Host := v\<rparr>)
      else if name = ''PORT'' then set_val (parseUIntField v) (\<lambda>u. addr\<lparr>Port := uwrap 16 u\<rparr>)
      else if name = ''HTTPS_PROXY'' then Inr (addr\<lparr>HTTPSProxy := v\<rparr>)
      else if name = ''HTTPS_PROXY_PORT'' then
        (case Atoi v of
           Inl e \<Rightarrow> Inl (NewOracleError NamingContextError (Some e) [ArgStr v, ArgStr (Name child)])
         | Inr n \<Rightarrow>
             if n < 0 \<or> n > 65535 then Inl (NewOracleError NamingContextError None [ArgStr v, ArgStr (Name child)])
             else Inr (addr\<lparr>HTTPSProxyPort := n\<rparr>))
      else Inl (unknown_child child ''ADDRESS''))"

definition extractAddress :: "Node \<Rightarrow> Address result" where
  "extractAddress node = foldE extractAddress_child (Children node) NewAddress"

definition extractAddressList_child :: "Node \<Rightarrow> AddressList \<Rightarrow> AddressList result" where
  "extractAddressList_child child al =
     (let name = ToUpper (Name child) in
      if name = ''LOAD_BALANCE'' then set_bool child (\<lambda>b. al\<lparr>al_LoadBalance := b\<rparr>)
      else if name = ''FAILOVER'' then set_bool child (\<lambda>b. al\<lparr>al_Failover := b\<rparr>)
      else if name = ''SOURCE_ROUTE'' then set_bool child (\<lambda>b. al\<lparr>al_SourceRoute := b\<rparr>)
      else if name = ''ADDRESS'' then set_val (extractAddress child) (\<lambda>a. al\<lparr>al_Addresses := al_Addresses al @ [a]\<rparr>)
      else Inl (unknown_child child ''ADDRESS_LIST''))"

definition extractAddressList :: "Node \<Rightarrow> AddressList result" where
  "extractAddressList node = foldE extractAddressList_child (Children node) NewAddressList"

definition extractConnectData_child :: "Node \<Rightarrow> ConnectData \<Rightarrow> ConnectData result" where
  "extractConnectData_child child cd =
     (let name = ToUpper (Name child); v = Value child in
      if name = ''SERVICE_NAME'' then Inr (cd\<lparr>ServiceName := v\<rparr>)
      else if name = ''SID'' then Inr (cd\<lparr>SID := v\<rparr>)
      else if name = ''SERVER'' then Inr (cd\<lparr>Server := v\<rparr>)
      else if name = ''INSTANCE_NAME'' then Inr (cd\<lparr>InstanceName := v\<rparr>)
      else if name = ''FAILOVER_MODE'' then Inr (cd\<lparr>FailoverMode := v\<rparr>)
      else if name = ''HS'' then Inr (cd\<lparr>HS := v\<rparr>)
      else if name = ''RDB_DATABASE'' then Inr (cd\<lparr>RDBDatabase := v\<rparr>)
      else if name = ''GLOBAL_NAME'' then Inr (cd\<lparr>GlobalName := v\<rparr>)
      else if name = ''CONNECTION_ID_PREFIX'' then Inr (cd\<lparr>cd_ConnectionIDPrefix := v\<rparr>)
      else Inl (unknown_child child ''CONNECT_DATA''))"

definition extractConnectData :: "Node \<Rightarrow> ConnectData result" where
  "extractConnectData node = foldE extractConnectData_child (Children node) zero_ConnectData"

definition extractSecurity_child :: "Node \<Rightarrow> Security \<Rightarrow> Security result" where
  "extractSecurity_child child sec =
     (let name = ToUpper (Name child); v = Value child in
      if name = ''SSL_SERVER_CERT_DN'' then Inr (sec\<lparr>SSLServerCertDN := v\<rparr>)
      else if name = ''SSL_SERVER_DN_MATCH'' then set_bool child (\<lambda>b. sec\<lparr>SSLServerDNMatch := b\<rparr>)
      else if name = ''SSL_ALLOW_WEAK_DN_MATCH'' then set_bool child (\<lambda>b. sec\<lparr>SSLAllowWeakDNMatch := b\<rparr>)
      else if name = ''WALLET_LOCATION'' then Inr (sec\<lparr>WalletLocation := v\<rparr>)
      else if name = ''MY_WALLET_DIRECTORY'' then Inr (sec\<lparr>MyWalletDirectory := v\<rparr>)
      else if name = ''TOKEN_AUTH'' then Inr (sec\<lparr>TokenAuth := v\<rparr>)
      else if name = ''TOKEN_LOCATION'' then Inr (sec\<lparr>TokenLocation := v\<rparr>)
      else Inl (unknown_child child ''SECURITY''))"

definition extractSecurity :: "Node \<Rightarrow> Security result" where
  "extractSecurity node = foldE extractSecurity_child (Children node) NewSecurity"

text \<open>The cases of \<open>extractDescription\<close>: flags and numbers first, then the nested nodes.\<close>

definition extractDescription_child :: "Node \<Rightarrow> Description \<Rightarrow> Description result" where
  "extractDescription_child child d =
     (let name = ToUpper (Name child); v = Value child in
      if name = ''SOURCE_ROUTE'' then set_bool child (\<lambda>b. d\<lparr>SourceRoute := b\<rparr>)
      else if name = ''LOAD_BALANCE'' then set_bool child (\<lambda>b. d\<lparr>LoadBalance := b\<rparr>)
      else if name = ''FAILOVER'' then set_bool child (\<lambda>b. d\<lparr>Failover := b\<rparr>)
      else if name = ''USE_SNI'' then set_bool child (\<lambda>b. d\<lparr>UseSNI := b\<rparr>)
      else if name = ''CONNECT_TIMEOUT'' then set_val (parseDurationMS v) (\<lambda>n. d\<lparr>ConnectTimeout := n\<rparr>)
      else if name = ''RETRY_COUNT'' then set_val (parseIntField v) (\<lambda>n. d\<lparr>RetryCount := n\<rparr>)
      else if name = ''RETRY_DELAY'' then set_val (parseIntField v) (\<lambda>n. d\<lparr>RetryDelay := n\<rparr>)
      else if name = ''TRANSPORT_CONNECT_TIMEOUT'' then set_val (parseDurationMS v) (\<lambda>n. d\<lparr>TransportConnectTimeout := n\<rparr>)
      else if name = ''EXPIRE_TIME'' then set_val (parseIntField v) (\<lambda>n. d\<lparr>ExpireTime := n\<rparr>)
      else if name = ''RECV_TIMEOUT'' then set_val (parseDurationMS v) (\<lambda>n. d\<lparr>RecvTimeout := n\<rparr>)
      else if name = ''SEND_TIMEOUT'' then set_val (parseDurationMS v) (\<lambda>n. d\<lparr>SendTimeout := n\<rparr>)
      else if name = ''SDU'' then set_val (parseIntField v) (\<lambda>n. d\<lparr>SDU := n\<rparr>)
      else if name = ''RECV_BUF_SIZE'' then set_val (parseIntField v) (\<lambda>n. d\<lparr>RecvBufSize := n\<rparr>)
      else if name = ''SEND_BUF_SIZE'' then set_val (parseIntField v) (\<lambda>n. d\<lparr>SendBufSize := n\<rparr>)
      else if name = ''ENABLE'' then Inr (d\<lparr>Enable := v\<rparr>)
      else if name = ''CONNECTION_ID_PREFIX'' then Inr (d\<lparr>ConnectionIDPrefix := v\<rparr>)
      else if name = ''COMPRESSION'' then set_bool child (\<lambda>b. d\<lparr>Compression := b\<rparr>)
      else if name = ''COMPRESSION_LEVELS'' then
        Inr (d\<lparr>CompressionLevels := CompressionLevels d @
          map Value (filter (\<lambda>c. ToUpper (Name c) = ''LEVEL'') (Children child))\<rparr>)
      else if name = ''SECURITY'' then set_val (extractSecurity child) (\<lambda>s. d\<lparr>desc_Security := s\<rparr>)
      else if name = ''ADDRESS_LIST'' then
        set_val (extractAddressList child) (\<lambda>l. d\<lparr>AddressLists := AddressLists d @ [l]\<rparr>)
      else if name = ''ADDRESS'' then set_val (extractAddress child) (\<lambda>a. d\<lparr>Addresses := Addresses d @ [a]\<rparr>)
      else if name = ''CONNECT_DATA'' then set_val (extractConnectData child) (\<lambda>c. d\<lparr>desc_ConnectData := c\<rparr>)
      else Inl (unknown_child child ''DESCRIPTION''))"

definition extractDescription :: "Node \<Rightarrow> Description result" where
  "extractDescription node = foldE extractDescription_child (Children node) NewDescription"

definition extractDescriptionList_child :: "Node \<Rightarrow> DescriptionList \<Rightarrow> DescriptionList result" where
  "extractDescriptionList_child child dl =
     (let name = ToUpper (Name child) in
      if name = ''LOAD_BALANCE'' then set_bool child (\<lambda>b. dl\<lparr>dl_LoadBalance := b\<rparr>)
      else if name = ''FAILOVER'' then set_bool child (\<lambda>b. dl\<lparr>dl_Failover := b\<rparr>)
      else if name = ''SOURCE_ROUTE'' then set_bool child (\<lambda>b. dl\<lparr>dl_SourceRoute := b\<rparr>)
      else if name = ''DESCRIPTION'' then set_val (extractDescription child) (\<lambda>d. dl\<lparr>Descriptions := Descriptions dl @ [d]\<rparr>)
      else Inl (unknown_child child ''DESCRIPTION_LIST''))"

definition extractDescriptionList :: "Node \<Rightarrow> DescriptionList result" where
  "extractDescriptionList node = foldE extractDescriptionList_child (Children node) NewDescriptionList"

definition empty_context :: ConnectionContext where
  "empty_context = \<lparr>ctx_DescriptionList = None, ctx_Description = None, ctx_Addresses = []\<rparr>"

definition ExtractConnectionContext :: "Node option \<Rightarrow> ConnectionContext result" where
  "ExtractConnectionContext rootNode =
     (case rootNode of
        None \<Rightarrow> Inl (NewOracleError NamingContextError None [ArgStr [], ArgStr ''root''])
      | Some r \<Rightarrow>
          let rootName = ToUpper (Name r) in
          if rootName = ''DESCRIPTION_LIST''
          then set_val (extractDescriptionList r) (\<lambda>l. empty_context\<lparr>ctx_DescriptionList := Some l\<rparr>)
          else if rootName = ''DESCRIPTION''
          then set_val (extractDescription r) (\<lambda>d. empty_context\<lparr>ctx_Description := Some d\<rparr>)
          else if rootName = ''ADDRESS_LIST''
          then set_val (extractAddressList r) (\<lambda>l. empty_context\<lparr>ctx_Addresses := al_Addresses l\<rparr>)
          else if rootName = ''ADDRESS''
          then set_val (extractAddress r) (\<lambda>a. empty_context\<lparr>ctx_Addresses := [a]\<rparr>)
          else Inl (NewOracleError NamingContextError None [ArgStr (Name r), ArgStr ''root'']))"

subsection \<open>Accessors\<close>

definition GetAllAddresses :: "Description \<Rightarrow> Address list" where
  "GetAllAddresses d = concat (map al_Addresses (AddressLists d)) @ Addresses d"

definition HasAddressLists :: "Description \<Rightarrow> bool" where
  "HasAddressLists d = (AddressLists d \<noteq> [])"

definition GetPrimaryAddressList :: "Description \<Rightarrow> AddressList option" where
  "GetPrimaryAddressList d = (case AddressLists d of [] \<Rightarrow> None | l # ls \<Rightarrow> Some l)"

subsection \<open>Bounds of what is extracted\<close>

definition address_ok :: "Address \<Rightarrow> bool" where
  "address_ok a \<longleftrightarrow> 0 \<le> Port a \<and> Port a < 65536 \<and> 0 \<le> HTTPSProxyPort a \<and> HTTPSProxyPort a < 65536"

definition description_ok :: "Description \<Rightarrow> bool" where
  "description_ok d \<longleftrightarrow>
     0 \<le> RetryCount d \<and> 0 \<le> RetryDelay d \<and> 0 \<le> ExpireTime d \<and> 0 \<le> SDU d \<and> 0 \<le> RecvBufSize d \<and> 0 \<le> SendBufSize d \<and>
     list_all address_ok (GetAllAddresses d)"

fun context_ok :: "ConnectionContext \<Rightarrow> bool" where
  "context_ok c \<longleftrightarrow>
     (case ctx_DescriptionList c of None \<Rightarrow> True | Some l \<Rightarrow> list_all description_ok (Descriptions l)) \<and>
     (case ctx_Description c of None \<Rightarrow> True | Some d \<Rightarrow> description_ok d) \<and>
     list_all address_ok (ctx_Addresses c)"

lemma set_bool_Inr: "set_bool child upd = Inr t \<longleftrightarrow> (\<exists>b. normalizeBoolean (Value child) = Inr b \<and> t = upd b)"
  by (auto simp: set_bool_def split: sum.splits)

lemma set_val_Inr: "set_val r upd = Inr t \<longleftrightarrow> (\<exists>v. r = Inr v \<and> t = upd v)"
  by (auto simp: set_val_def split: sum.splits)

lemma parseIntField_nonneg: "parseIntField v = Inr n \<Longrightarrow> 0 \<le> n"
  by (auto simp: parseIntField_def split: sum.splits)

lemma extractAddress_child_ok:
  "address_ok a \<Longrightarrow> extractAddress_child child a = Inr b \<Longrightarrow> address_ok b"
  by (auto simp: extractAddress_child_def Let_def address_ok_def set_val_Inr uwrap_def split: if_splits sum.splits)

lemma new_ok: "address_ok NewAddress" "description_ok NewDescription"
  by (simp_all add: address_ok_def NewAddress_def description_ok_def NewDescription_def GetAllAddresses_def)

lemma extractAddress_ok: "extractAddress n = Inr a \<Longrightarrow> address_ok a"
  unfolding extractAddress_def
  by (rule foldE_invariant [where P = address_ok]) (auto intro: extractAddress_child_ok new_ok)

lemma extractAddressList_ok: "extractAddressList n = Inr l \<Longrightarrow> list_all address_ok (al_Addresses l)"
  unfolding extractAddressList_def
  by (rule foldE_invariant [where P = "\<lambda>l. list_all address_ok (al_Addresses l)"])
    (auto simp: extractAddressList_child_def Let_def set_bool_Inr set_val_Inr NewAddressList_def extractAddress_ok
      split: if_splits)

lemma extractDescription_child_ok:
  "description_ok d \<Longrightarrow> extractDescription_child child d = Inr d' \<Longrightarrow> description_ok d'"
  by (auto simp: extractDescription_child_def Let_def description_ok_def GetAllAddresses_def set_bool_Inr set_val_Inr
      extractAddress_ok extractAddressList_ok parseIntField_nonneg split: if_split_asm)

lemma extractDescription_ok: "extractDescription n = Inr d \<Longrightarrow> description_ok d"
  unfolding extractDescription_def
  by (rule foldE_invariant [where P = description_ok])
    (auto intro: extractDescription_child_ok new_ok)

lemma extractDescriptionList_ok: "extractDescriptionList n = Inr l \<Longrightarrow> list_all description_ok (Descriptions l)"
  unfolding extractDescriptionList_def
  by (rule foldE_invariant [where P = "\<lambda>l. list_all description_ok (Descriptions l)"])
    (auto simp: extractDescriptionList_child_def Let_def set_bool_Inr set_val_Inr NewDescriptionList_def extractDescription_ok
      split: if_splits)

lemma extracted_context_ok:
  assumes "ExtractConnectionContext n = Inr c"
  shows "context_ok c"
  using assms
  by (auto simp: ExtractConnectionContext_def Let_def set_val_Inr empty_context_def extractAddress_ok
      extractAddressList_ok extractDescription_ok extractDescriptionList_ok split: option.splits if_splits)

text \<open>C28: Whatever the descriptor, the ports extracted fit 16 bits, the counts and sizes are not
  negative.\<close>

theorem ExtractConnectionContext_ok:
  assumes "ExtractConnectionContext n = Inr c"
  shows "context_ok c"
  by (rule extracted_context_ok [OF assms])

theorem ExtractConnectionContext_ok_witness:
  "context_ok (empty_context\<lparr>ctx_Addresses := [NewAddress\<lparr>Host := ''db'', Port := 1521\<rparr>]\<rparr>)"
proof -
  have "ExtractConnectionContext (Some (Node ''ADDRESS'' [] [Node ''HOST'' ''db'' [], Node ''PORT'' ''1521'' []]))
      = Inr (empty_context\<lparr>ctx_Addresses := [NewAddress\<lparr>Host := ''db'', Port := 1521\<rparr>]\<rparr>)"
    by (simp add: ExtractConnectionContext_def extractAddress_def extractAddress_child_def set_val_def parseUIntField_def
      decimal_eval ToUpper_def upper_char_def uwrap_def NewAddress_def empty_context_def)
  then show ?thesis by (rule ExtractConnectionContext_ok)
qed

text \<open>A port above 65535 is not refused but reduced to 16 bits: port 65537 becomes port 1.\<close>

theorem extractAddress_port_wraps:
  "map_sum id Port (extractAddress (Node ''ADDRESS'' [] [Node ''PORT'' ''65537'' []])) = Inr 1"
  by (simp add: extractAddress_def extractAddress_child_def set_val_def parseUIntField_def decimal_eval
      ToUpper_def upper_char_def uwrap_def)

text \<open>Negative durations are accepted when they carry a unit, and large second counts wrap.\<close>

theorem parseDurationMS_negative:
  "parseDurationMS ''-5s'' = Inr (- 5000) \<and> parseDurationMS ''9223372036854775807'' = Inr (- 1000)"
proof
  show "parseDurationMS ''-5s'' = Inr (- 5000)" by code_simp
  have "\<exists>e. ParseDuration ''9223372036854775807'' = Inl e"
    by (rule ParseDuration_digits) (simp_all add: is_digit_def)
  moreover have "Atoi ''9223372036854775807'' = Inr 9223372036854775807" by (simp add: decimal_eval)
  ultimately show "parseDurationMS ''9223372036854775807'' = Inr (- 1000)"
    by (auto simp: parseDurationMS_def swrap_def)
qed

end
