(* ===== verification/Naming_EZ.thy ===== *)
theory Naming_EZ
  imports Naming_Ctx
begin

text \<open>
  EZConnect URLs and data source names
  (\<open>internal/driver/network/naming/parse_ezconnect.go\<close>, \<open>ParseDSNString\<close> of \<open>nv.go\<close> and
  \<open>StripSpacesOutsideQuotes\<close> of \<open>internal/driver/common/utility.go\<close>). Go ranges over the
  parameter map in an unspecified order, possibly a different one in each of the three loops:
  \<open>it i\<close> is the order that the \<open>i\<close>-th loop takes. Text is ASCII.
\<close>

subsection \<open>StripSpacesOutsideQuotes\<close>

fun strip_loop :: "string \<Rightarrow> bool \<Rightarrow> string" where
  "strip_loop [] quoted = []"
| "strip_loop (ch # s) quoted =
     (if ch = CHR 0x22 then ch # strip_loop s (\<not> quoted)
      else if ch = CHR '' '' \<and> \<not> quoted then strip_loop s quoted
      else ch # strip_loop s quoted)"

definition StripSpacesOutsideQuotes :: "string \<Rightarrow> string" where
  "StripSpacesOutsideQuotes s = strip_loop s False"

subsection \<open>Data\<close>

record hostPort =
  hp_host :: string
  hp_port :: string

record addressGroup =
  hosts :: "hostPort list"

record parsedURL =
  url_protocol :: Protocol
  addressGroups :: "addressGroup list"
  serviceName :: string
  serverMode :: string
  instanceName :: string

type_synonym params = "(string \<times> string) list"

record conversionResult =
  tns :: string
  unrecognizedParams :: params

definition defaultOraclePort :: string where
  "defaultOraclePort = ''1521''"

definition parameterAliases :: "string \<Rightarrow> string option" where
  "parameterAliases k = (if k = ''my_wallet_directory'' then Some ''WALLET_LOCATION'' else None)"

definition parameterDestinations :: "string \<Rightarrow> string option" where
  "parameterDestinations = map_of
     ([(k, ''DESCRIPTION''). k \<leftarrow>
        [''ENABLE'', ''FAILOVER'', ''LOAD_BALANCE'', ''RECV_BUF_SIZE'', ''SEND_BUF_SIZE'', ''SDU'', ''SOURCE_ROUTE'',
         ''RETRY_COUNT'', ''RETRY_DELAY'', ''CONNECT_TIMEOUT'', ''TRANSPORT_CONNECT_TIMEOUT'', ''RECV_TIMEOUT'',
         ''USE_SNI'', ''COMPRESSION'', ''EXPIRE_TIME'']] @
      [(k, ''ADDRESS''). k \<leftarrow> [''HTTPS_PROXY'', ''HTTPS_PROXY_PORT'']] @
      [(k, ''CONNECT_DATA''). k \<leftarrow>
        [''POOL_CONNECTION_CLASS'', ''POOL_PURITY'', ''SERVICE_TAG'', ''CONNECTION_ID_PREFIX'', ''POOL_BOUNDARY'']] @
      [(k, ''SECURITY''). k \<leftarrow>
        [''SSL_SERVER_CERT_DN'', ''SSL_SERVER_DN_MATCH'', ''WALLET_LOCATION'', ''TOKEN_AUTH'', ''TOKEN_LOCATION'']])"

definition ez_error :: "go_error option \<Rightarrow> string \<Rightarrow> string \<Rightarrow> go_error" where
  "ez_error err what kind = NewOracleError NamingEzConnectError err [ArgStr what, ArgStr kind]"

subsection \<open>Extended parameters\<close>

definition parseExtendedParam :: "string \<Rightarrow> params \<times> params \<Rightarrow> (params \<times> params) result" where
  "parseExtendedParam p0 acc =
     (let param = TrimSpace p0 in
      if param = [] then Inr acc
      else let parts = SplitN param (CHR ''='') 2 in
           if length parts \<noteq> 2 then Inl (ez_error None param ''extended-params'')
           else let key = TrimSpace (parts ! 0);
                    v = unquote (TrimSpace (parts ! 1));
                    key = (case parameterAliases (ToLower key) of Some a \<Rightarrow> a | None \<Rightarrow> ToUpper key);
                    (rec, unrec) = acc
                in if parameterDestinations key \<noteq> None then Inr (map_assign key v rec, unrec)
                   else Inr (rec, map_assign key v unrec))"

definition parseExtendedParams :: "string \<Rightarrow> (params \<times> params) result" where
  "parseExtendedParams paramStr =
     (if paramStr = [] then Inr ([], [])
      else foldE parseExtendedParam (Split paramStr (CHR ''&'')) ([], []))"

text \<open>The position of the first question mark outside parentheses.\<close>

fun paramStart_loop :: "string \<Rightarrow> nat \<Rightarrow> int \<Rightarrow> nat option" where
  "paramStart_loop [] i depth = None"
| "paramStart_loop (ch # s) i depth =
     (if ch = CHR ''('' then paramStart_loop s (i + 1) (depth + 1)
      else if ch = CHR '')'' then paramStart_loop s (i + 1) (depth - 1)
      else if ch = CHR ''?'' \<and> depth = 0 then Some i
      else paramStart_loop s (i + 1) depth)"

definition splitAndParseExtendedParams :: "string \<Rightarrow> (string \<times> params \<times> params) result" where
  "splitAndParseExtendedParams url =
     (case paramStart_loop url 0 0 of
        None \<Rightarrow> Inr (url, [], [])
      | Some paramStart \<Rightarrow>
          (case parseExtendedParams (drop (paramStart + 1) url) of
             Inl e \<Rightarrow> Inl e
           | Inr (rec, unrec) \<Rightarrow> Inr (take paramStart url, rec, unrec)))"

subsection \<open>Hosts\<close>

record host_scan =
  hs_hosts :: "hostPort list"
  currentHost :: string
  currentPort :: string
  inBrackets :: bool
  parsingPort :: bool

definition valid_port :: "string \<Rightarrow> string result" where
  "valid_port port =
     (case Atoi port of
        Inl e \<Rightarrow> Inl (ez_error (Some e) port ''port'')
      | Inr n \<Rightarrow> if n < 1 \<or> n > 65535 then Inl (ez_error None port ''port'') else Inr port)"

definition scan_port :: "host_scan \<Rightarrow> string" where
  "scan_port st = (let port = TrimSpace (currentPort st) in if port = [] then defaultOraclePort else port)"

definition parseHostList_char :: "char \<Rightarrow> host_scan \<Rightarrow> host_scan result" where
  "parseHostList_char ch st =
     (if ch = CHR ''['' then Inr (st\<lparr>inBrackets := True, currentHost := currentHost st @ [ch]\<rparr>)
      else if ch = CHR '']'' then Inr (st\<lparr>inBrackets := False, currentHost := currentHost st @ [ch]\<rparr>)
      else if ch = CHR '':'' then
        Inr (if inBrackets st then st\<lparr>currentHost := currentHost st @ [ch]\<rparr> else st\<lparr>parsingPort := True\<rparr>)
      else if ch = CHR '','' then
        (case valid_port (scan_port st) of
           Inl e \<Rightarrow> Inl e
         | Inr port \<Rightarrow>
             Inr (st\<lparr>hs_hosts := hs_hosts st @ [\<lparr>hp_host = TrimSpace (currentHost st), hp_port = port\<rparr>],
                     currentHost := [], currentPort := [], parsingPort := False\<rparr>))
      else if parsingPort st then Inr (st\<lparr>currentPort := currentPort st @ [ch]\<rparr>)
      else Inr (st\<lparr>currentHost := currentHost st @ [ch]\<rparr>))"

definition new_scan :: host_scan where
  "new_scan = \<lparr>hs_hosts = [], currentHost = [], currentPort = [], inBrackets = False, parsingPort = False\<rparr>"

definition parseHostList :: "string \<Rightarrow> hostPort list result" where
  "parseHostList hostStr =
     (if hostStr = [] then Inl (ez_error None [] ''host'')
      else case foldE parseHostList_char hostStr new_scan of
        Inl e \<Rightarrow> Inl e
      | Inr st \<Rightarrow>
          let host = TrimSpace (currentHost st) in
          if host = [] then Inl (ez_error None [] ''host'')
          else case valid_port (scan_port st) of
                 Inl e \<Rightarrow> Inl e
               | Inr port \<Rightarrow> Inr (hs_hosts st @ [\<lparr>hp_host = host, hp_port = port\<rparr>]))"

definition parseAddressGroups_step :: "string \<Rightarrow> addressGroup list \<Rightarrow> addressGroup list result" where
  "parseAddressGroups_step g0 groups =
     (let groupStr = TrimSpace g0 in
      if groupStr = [] then Inr groups
      else case parseHostList groupStr of
             Inl e \<Rightarrow> Inl e
           | Inr hs \<Rightarrow> Inr (groups @ [\<lparr>hosts = hs\<rparr>]))"

definition parseAddressGroups :: "string \<Rightarrow> addressGroup list result" where
  "parseAddressGroups hostStr =
     (if hostStr = [] then Inl (ez_error None [] ''host'')
      else case foldE parseAddressGroups_step (Split hostStr (CHR '';'')) [] of
        Inl e \<Rightarrow> Inl e
      | Inr groups \<Rightarrow> if groups = [] then Inl (ez_error None hostStr ''host'') else Inr groups)"

subsection \<open>The URL\<close>

text \<open>\<open>protocolPattern\<close>: the scheme and what follows it, when the text starts with letters and
  digits and \<open>://\<close>.\<close>

definition is_alnum :: "char \<Rightarrow> bool" where
  "is_alnum c = (is_digit c \<or> 65 \<le> (of_char c :: nat) \<and> (of_char c :: nat) \<le> 90 \<or>
     97 \<le> (of_char c :: nat) \<and> (of_char c :: nat) \<le> 122)"

definition protocolPattern :: "string \<Rightarrow> (string \<times> string) option" where
  "protocolPattern url =
     (let scheme = takeWhile is_alnum url; rest = dropWhile is_alnum url in
      if scheme \<noteq> [] \<and> take 3 rest = ''://'' then Some (scheme, drop 3 rest) else None)"

definition parseMainURL :: "string \<Rightarrow> parsedURL result" where
  "parseMainURL url0 =
     (case (case protocolPattern url0 of
              Some (scheme, rest) \<Rightarrow>
                (case NormalizeProtocol scheme of
                   Inl e \<Rightarrow> Inl (ez_error None scheme ''protocol'')
                 | Inr p \<Rightarrow> Inr (p, rest))
            | None \<Rightarrow> Inr (ProtocolTCP, url0)) of
        Inl e \<Rightarrow> Inl e
      | Inr (protocol, url) \<Rightarrow>
          let parts = Split url (CHR ''/'') in
          case parseAddressGroups (parts ! 0) of
            Inl e \<Rightarrow> Inl e
          | Inr groups \<Rightarrow>
              let (service, mode) =
                    (if length parts > 1 \<and> parts ! 1 \<noteq> []
                     then let sm = parts ! 1; colonIdx = IndexByte sm (CHR '':'') in
                          if colonIdx \<noteq> - 1
                          then (take (nat colonIdx) sm, ToUpper (drop (nat colonIdx + 1) sm))
                          else (sm, [])
                     else ([], []));
                  inst = (if length parts > 2 \<and> parts ! 2 \<noteq> [] then parts ! 2 else [])
              in Inr \<lparr>url_protocol = protocol, addressGroups = groups, serviceName = service,
                      serverMode = mode, instanceName = inst\<rparr>)"

subsection \<open>The descriptor\<close>

definition param_text :: "string \<times> string \<Rightarrow> string" where
  "param_text p = ''('' @ fst p @ ''='' @ snd p @ '')''"

definition params_for :: "string \<Rightarrow> params \<Rightarrow> string" where
  "params_for dest ps = concat (map param_text (filter (\<lambda>p. parameterDestinations (fst p) = Some dest) ps))"

definition buildDescriptionParams :: "(nat \<Rightarrow> params \<Rightarrow> params) \<Rightarrow> parsedURL \<Rightarrow> params \<Rightarrow> string" where
  "buildDescriptionParams it parsed ps =
     (if map_of ps ''LOAD_BALANCE'' = None \<and> length (addressGroups parsed) = 1 \<and>
         length (hosts (addressGroups parsed ! 0)) > 1
      then ''(LOAD_BALANCE=ON)'' else []) @ params_for ''DESCRIPTION'' (it 0 ps)"

definition buildAddress :: "hostPort \<Rightarrow> Protocol \<Rightarrow> string \<Rightarrow> string" where
  "buildAddress hp protocol proxyInfo =
     (let host = hp_host hp;
          host = (if host \<noteq> [] \<and> hd host = CHR ''['' \<and> last host = CHR '']'' then butlast (tl host) else host)
      in ''(ADDRESS=(PROTOCOL='' @ Protocol_String protocol @ '')(HOST='' @ host @ '')(PORT='' @ hp_port hp @ '')''
         @ proxyInfo @ '')'')"

text \<open>Reading a missing key of a Go map gives the zero value.\<close>

definition map_get :: "params \<Rightarrow> string \<Rightarrow> string" where
  "map_get ps k = (case map_of ps k of None \<Rightarrow> [] | Some v \<Rightarrow> v)"

definition proxy_text :: "params \<Rightarrow> string" where
  "proxy_text ps =
     (let proxyHost = map_get ps ''HTTPS_PROXY''; proxyPort = map_get ps ''HTTPS_PROXY_PORT'' in
      if proxyHost \<noteq> []
      then (if proxyPort \<noteq> [] then ''(HTTPS_PROXY='' @ proxyHost @ '')(HTTPS_PROXY_PORT='' @ proxyPort @ '')''
            else ''(HTTPS_PROXY='' @ proxyHost @ '')'')
      else [])"

definition buildAddressList :: "addressGroup list \<Rightarrow> Protocol \<Rightarrow> params \<Rightarrow> string" where
  "buildAddressList groups protocol ps =
     (let proxyInfo = proxy_text ps in
      if length groups > 1
      then concat (map (\<lambda>group. ''(ADDRESS_LIST='' @ (if length (hosts group) > 1 then ''(LOAD_BALANCE=ON)'' else []) @
             concat (map (\<lambda>hp. buildAddress hp protocol proxyInfo) (hosts group)) @ '')'') groups)
      else concat (map (\<lambda>hp. buildAddress hp protocol proxyInfo) (hosts (groups ! 0))))"

definition buildConnectData :: "(nat \<Rightarrow> params \<Rightarrow> params) \<Rightarrow> string \<Rightarrow> string \<Rightarrow> string \<Rightarrow> params \<Rightarrow> string" where
  "buildConnectData it service mode inst ps =
     ''(CONNECT_DATA='' @
     (if service \<noteq> [] then ''(SERVICE_NAME='' @ service @ '')'' else ''(SERVICE_NAME=)'') @
     (if mode \<noteq> [] then ''(SERVER='' @ mode @ '')'' else []) @
     (if inst \<noteq> [] then ''(INSTANCE_NAME='' @ inst @ '')'' else []) @
     params_for ''CONNECT_DATA'' (it 1 ps) @ '')''"

definition buildSecurity :: "(nat \<Rightarrow> params \<Rightarrow> params) \<Rightarrow> params \<Rightarrow> string" where
  "buildSecurity it ps =
     (let security = params_for ''SECURITY'' (it 2 ps) in
      if security = [] then [] else ''(SECURITY='' @ security @ '')'')"

definition buildTNS :: "(nat \<Rightarrow> params \<Rightarrow> params) \<Rightarrow> parsedURL \<Rightarrow> params \<Rightarrow> string" where
  "buildTNS it parsed ps =
     ''(DESCRIPTION='' @ buildDescriptionParams it parsed ps @
     buildAddressList (addressGroups parsed) (url_protocol parsed) ps @
     buildConnectData it (serviceName parsed) (serverMode parsed) (instanceName parsed) ps @
     buildSecurity it ps @ '')''"

definition parseEzConnect :: "(nat \<Rightarrow> params \<Rightarrow> params) \<Rightarrow> string \<Rightarrow> conversionResult result" where
  "parseEzConnect it url =
     (case splitAndParseExtendedParams (StripSpacesOutsideQuotes url) of
        Inl e \<Rightarrow> Inl e
      | Inr (cleanURL, rec, unrec) \<Rightarrow>
          (case parseMainURL cleanURL of
             Inl e \<Rightarrow> Inl e
           | Inr parsed \<Rightarrow> Inr \<lparr>tns = buildTNS it parsed rec, unrecognizedParams = unrec\<rparr>))"

subsection \<open>Data source names\<close>

record ParsedConfig =
  ConnectString :: string
  pc_rootNode :: Node
  connectionContext :: ConnectionContext

definition resolveConnectStringURL :: "(nat \<Rightarrow> params \<Rightarrow> params) \<Rightarrow> string \<Rightarrow> conversionResult result" where
  "resolveConnectStringURL it connectStr =
     (let connStr = TrimSpace connectStr in
      if connStr \<noteq> [] \<and> hd connStr = CHR ''('' then Inr \<lparr>tns = connStr, unrecognizedParams = []\<rparr>
      else parseEzConnect it connStr)"

definition ParseDSNString :: "(nat \<Rightarrow> params \<Rightarrow> params) \<Rightarrow> string \<Rightarrow> ParsedConfig result" where
  "ParseDSNString it dsn0 =
     (let parts = SplitN dsn0 (CHR ''@'') 2 in
      if length parts = 2 \<and> length (SplitN (parts ! 0) (CHR ''/'') 2) \<noteq> 2
      then Inl (NewOracleError NamingDSNInvalid None [ArgStr ''credentials''])
      else let dsn = (if length parts = 2 then parts ! 1 else dsn0) in
        case resolveConnectStringURL it dsn of
          Inl e \<Rightarrow> Inl e
        | Inr converted \<Rightarrow>
            let cparts = SplitN (tns converted) (CHR ''?'') 2;
                connectStr = (if length cparts = 2 then cparts ! 0 else tns converted)
            in case Parse connectStr of
                 Inl e \<Rightarrow> Inl (NewOracleError NamingParseFailed (Some e) [])
               | Inr rootNode \<Rightarrow>
                   (case ExtractConnectionContext (Some rootNode) of
                      Inl e \<Rightarrow> Inl e
                    | Inr ctx \<Rightarrow> Inr \<lparr>ConnectString = connectStr, pc_rootNode = rootNode, connectionContext = ctx\<rparr>))"

subsection \<open>Ports are checked\<close>

lemma valid_port_ok: "valid_port p = Inr q \<Longrightarrow> q = p \<and> (\<exists>n. Atoi p = Inr n \<and> 1 \<le> n \<and> n \<le> 65535)"
  by (auto simp: valid_port_def split: sum.splits if_splits)

definition ports_ok :: "hostPort list \<Rightarrow> bool" where
  "ports_ok hs \<longleftrightarrow> (\<forall>hp\<in>set hs. \<exists>n. Atoi (hp_port hp) = Inr n \<and> 1 \<le> n \<and> n \<le> 65535)"

lemma parseHostList_char_ok:
  "ports_ok (hs_hosts st) \<Longrightarrow> parseHostList_char ch st = Inr st' \<Longrightarrow> ports_ok (hs_hosts st')"
  by (auto simp: parseHostList_char_def ports_ok_def split: if_splits sum.splits dest!: valid_port_ok)

lemma parseHostList_ok: "parseHostList s = Inr hs \<Longrightarrow> ports_ok hs \<and> hs \<noteq> []"
proof -
  assume "parseHostList s = Inr hs"
  then obtain st port where st: "foldE parseHostList_char s new_scan = Inr st"
    "valid_port (scan_port st) = Inr port"
    "hs = hs_hosts st @ [\<lparr>hp_host = TrimSpace (currentHost st), hp_port = port\<rparr>]"
    by (auto simp: parseHostList_def Let_def split: if_splits sum.splits)
  have "ports_ok (hs_hosts st)"
    using foldE_invariant [where P = "\<lambda>st. ports_ok (hs_hosts st)", OF parseHostList_char_ok _ st(1)]
    by (simp add: ports_ok_def new_scan_def)
  then show ?thesis using st(2,3) valid_port_ok [OF st(2)] by (auto simp: ports_ok_def)
qed



text \<open>Only the last host of a list is checked for being empty.\<close>

theorem parseHostList_empty_host:
  "parseHostList '',b'' = Inr [\<lparr>hp_host = [], hp_port = ''1521''\<rparr>, \<lparr>hp_host = ''b'', hp_port = ''1521''\<rparr>]"
  by (simp add: parseHostList_def parseHostList_char_def
      new_scan_def scan_port_def defaultOraclePort_def valid_port_def decimal_eval
      TrimSpace_def TrimLeftFunc_def TrimRightFunc_def is_space_def)

subsection \<open>A plain URL reaches the context\<close>

text \<open>Characters that mean nothing to the URL, the data source name or the descriptor.\<close>

definition url_char :: "char \<Rightarrow> bool" where
  "url_char c = (\<not> is_space c \<and> value_char c \<and> c \<notin> set '':/,;?@[]='')"

lemma strip_plain: "CHR 0x22 \<notin> set s \<Longrightarrow> CHR '' '' \<notin> set s \<Longrightarrow> strip_loop s q = s"
  by (induction s arbitrary: q) auto

lemma paramStart_absent: "CHR ''?'' \<notin> set s \<Longrightarrow> paramStart_loop s i d = None"
  by (induction s arbitrary: i d) auto

lemma Split_absent: "c \<notin> set s \<Longrightarrow> Split s c = [s]"
  by (induction s) auto

lemma Split_sep: "c \<notin> set xs \<Longrightarrow> Split (xs @ c # ys) c = xs # Split ys c"
  by (induction xs) auto

lemma scan_host:
  "list_all url_char h \<Longrightarrow> \<not> parsingPort st \<Longrightarrow>
   foldE parseHostList_char (h @ r) st = foldE parseHostList_char r (st\<lparr>currentHost := currentHost st @ h\<rparr>)"
proof (induction h arbitrary: st)
  case (Cons c h)
  have "parseHostList_char c st = Inr (st\<lparr>currentHost := currentHost st @ [c]\<rparr>)"
    using Cons.prems by (auto simp: parseHostList_char_def url_char_def)
  then show ?case using Cons by simp
qed simp

lemma scan_digits:
  "list_all is_digit h \<Longrightarrow> parsingPort st \<Longrightarrow>
   foldE parseHostList_char h st = Inr (st\<lparr>currentPort := currentPort st @ h\<rparr>)"
proof (induction h arbitrary: st)
  case (Cons c h)
  have "parseHostList_char c st = Inr (st\<lparr>currentPort := currentPort st @ [c]\<rparr>)"
    using Cons.prems by (auto simp: parseHostList_char_def is_digit_def)
  then show ?case using Cons by simp
qed simp

lemma TrimSpace_all: "list_all (\<lambda>c. \<not> is_space c) s \<Longrightarrow> TrimSpace s = s"
proof (cases "s = []")
  case False
  assume "list_all (\<lambda>c. \<not> is_space c) s"
  then have "\<not> is_space (hd s)" "\<not> is_space (last s)" using False by (simp_all add: list_all_iff)
  then show ?thesis using False by (rule TrimSpace_id [rotated])
qed (simp add: TrimSpace_def TrimLeftFunc_def TrimRightFunc_def)

lemma TrimSpace_url: "list_all url_char s \<Longrightarrow> TrimSpace s = s"
  by (rule TrimSpace_all) (erule list.pred_mono_strong, simp add: url_char_def)

lemma digit_url_char: "is_digit c \<Longrightarrow> url_char c"
  by (auto simp: url_char_def value_char_def is_digit_def is_space_def)

lemma FormatUint_url: "list_all url_char (FormatUint n)"
  by (rule list.pred_mono_strong [OF FormatUint_digits]) (rule digit_url_char)

lemma parseHostList_plain:
  assumes "list_all url_char h" "h \<noteq> []" "1 \<le> n" "n \<le> 65535"
  shows "parseHostList (h @ CHR '':'' # FormatUint n) = Inr [\<lparr>hp_host = h, hp_port = FormatUint n\<rparr>]"
proof -
  let ?st = "new_scan\<lparr>currentHost := h, parsingPort := True, currentPort := FormatUint n\<rparr>"
  have "foldE parseHostList_char (h @ CHR '':'' # FormatUint n) new_scan = Inr ?st"
    using assms(1) by (simp add: scan_host scan_digits parseHostList_char_def new_scan_def)
  moreover have "TrimSpace h = h" "TrimSpace (FormatUint n) = FormatUint n"
    using assms(1) FormatUint_url by (simp_all add: TrimSpace_url)
  moreover have "Atoi (FormatUint n) = Inr (int n)" using assms by (simp add: Atoi_def)
  ultimately show ?thesis
    using assms by (simp add: parseHostList_def new_scan_def scan_port_def valid_port_def)
qed

lemma special_not_url [simp]:
  "\<not> url_char CHR '':''" "\<not> url_char CHR ''/''" "\<not> url_char CHR '',''" "\<not> url_char CHR '';''" "\<not> url_char CHR ''?''"
  "\<not> url_char CHR ''@''" "\<not> url_char CHR ''=''" "\<not> url_char CHR '' ''" "\<not> url_char CHR ''(''" "\<not> url_char CHR '')''"
  "\<not> url_char CHR ''[''" "\<not> url_char CHR '']''" "\<not> url_char CHR 0x22"
  by code_simp+

lemma url_char_notin: "list_all url_char s \<Longrightarrow> \<not> url_char c \<Longrightarrow> c \<notin> set s"
  by (auto simp: list_all_iff)

text \<open>The descriptor tree of a URL with one host and a service.\<close>

definition ez_node :: "Protocol \<Rightarrow> string \<Rightarrow> nat \<Rightarrow> string \<Rightarrow> Node" where
  "ez_node p h n svc =
     Node ''DESCRIPTION'' []
       [Node ''ADDRESS'' [] [Node ''PROTOCOL'' (Protocol_String p) [], Node ''HOST'' h [], Node ''PORT'' (FormatUint n) []],
        Node ''CONNECT_DATA'' [] [Node ''SERVICE_NAME'' svc []]]"

lemma parseMainURL_plain:
  assumes "list_all url_char h" "h \<noteq> []" "1 \<le> n" "n \<le> 65535" "list_all url_char svc" "svc \<noteq> []"
  shows "parseMainURL (ToLower (Protocol_String p) @ ''://'' @ h @ CHR '':'' # FormatUint n @ CHR ''/'' # svc) =
    Inr \<lparr>url_protocol = p, addressGroups = [\<lparr>hosts = [\<lparr>hp_host = h, hp_port = FormatUint n\<rparr>]\<rparr>],
      serviceName = svc, serverMode = [], instanceName = []\<rparr>"
proof -
  let ?hp = "h @ CHR '':'' # FormatUint n"
  have pat: "protocolPattern (ToLower (Protocol_String p) @ ''://'' @ r) = Some (ToLower (Protocol_String p), r)" for r
    by (cases p) (simp_all add: protocolPattern_def Protocol_String_def ToLower_def lower_char_def is_alnum_def is_digit_def)
  have norm: "NormalizeProtocol (ToLower (Protocol_String p)) = Inr p"
  proof -
    have "NormalizeProtocol (ToLower (Protocol_String ProtocolTCP)) = Inr ProtocolTCP"
      "NormalizeProtocol (ToLower (Protocol_String ProtocolTCPS)) = Inr ProtocolTCPS" by code_simp+
    then show ?thesis by (cases p) simp_all
  qed
  have hp: "c \<notin> set ?hp" if "c \<noteq> CHR '':''" "\<not> url_char c" for c
    using that url_char_notin [OF assms(1)] url_char_notin [OF FormatUint_url] by simp
  have "Split (?hp @ CHR ''/'' # svc) (CHR ''/'') = [?hp, svc]"
    using hp [of "CHR ''/''"] url_char_notin [OF assms(5), of "CHR ''/''"]
    by (simp add: Split_sep [of "CHR ''/''" ?hp] Split_absent del: append_assoc)
  moreover have "TrimSpace ?hp = ?hp"
  proof (rule TrimSpace_all)
    show "list_all (\<lambda>c. \<not> is_space c) ?hp"
      using assms(1) FormatUint_url [of n] by (auto simp: list_all_iff url_char_def is_space_def)
  qed
  then have "parseAddressGroups ?hp = Inr [\<lparr>hosts = [\<lparr>hp_host = h, hp_port = FormatUint n\<rparr>]\<rparr>]"
    using hp [of "CHR '';''"] parseHostList_plain [OF assms(1-4)]
    by (simp add: parseAddressGroups_def Split_absent parseAddressGroups_step_def)
  moreover have "IndexByte svc (CHR '':'') = - 1"
    using url_char_notin [OF assms(5), of "CHR '':''"] by simp
  ultimately show ?thesis
    using assms(6) pat [of "?hp @ CHR ''/'' # svc"] norm by (simp add: parseMainURL_def)
qed

lemma ez_node_plain:
  assumes "list_all url_char h" "list_all url_char svc"
  shows "plain_node (ez_node p h n svc)"
proof -
  have v: "list_all value_char s \<and> (s \<noteq> [] \<longrightarrow> \<not> is_space (last s))" if "list_all url_char s" for s
    using that by (auto simp: list_all_iff url_char_def)
  have "list_all name_char ''DESCRIPTION'' \<and> list_all name_char ''ADDRESS'' \<and> list_all name_char ''PROTOCOL'' \<and>
      list_all name_char ''HOST'' \<and> list_all name_char ''PORT'' \<and> list_all name_char ''CONNECT_DATA'' \<and>
      list_all name_char ''SERVICE_NAME''"
    by code_simp
  moreover have "list_all url_char (Protocol_String p)"
    by (cases p) (simp_all add: Protocol_String_def url_char_def value_char_def is_space_def)
  ultimately show ?thesis
    using v [OF assms(1)] v [OF assms(2)] v [OF FormatUint_url] v [of "Protocol_String p"]
    by (simp add: ez_node_def)
qed

lemma buildTNS_plain:
  assumes "\<And>i ps. set (it i ps) = set ps" "h \<noteq> []" "list_all url_char h" "svc \<noteq> []"
  shows "buildTNS it \<lparr>url_protocol = p, addressGroups = [\<lparr>hosts = [\<lparr>hp_host = h, hp_port = FormatUint n\<rparr>]\<rparr>],
      serviceName = svc, serverMode = [], instanceName = []\<rparr> [] = ToString (ez_node p h n svc)"
proof -
  have "it i [] = []" for i using assms(1) [of i "[]"] by simp
  moreover have "hd h \<noteq> CHR ''[''" using assms(2,3) by (cases h) auto
  moreover have "Protocol_String p \<noteq> []" by (cases p) (simp_all add: Protocol_String_def)
  ultimately show ?thesis
    using assms(2,4)
    by (simp add: buildTNS_def buildDescriptionParams_def params_for_def buildAddressList_def proxy_text_def map_get_def
        buildAddress_def buildConnectData_def buildSecurity_def ez_node_def)
qed

lemma extract_ez_node:
  assumes "n \<le> 65535"
  shows "ExtractConnectionContext (Some (ez_node p h n svc)) =
    Inr (empty_context\<lparr>ctx_Description := Some (NewDescription\<lparr>
      Addresses := [NewAddress\<lparr>Protocol := p, Host := h, Port := int n\<rparr>],
      desc_ConnectData := zero_ConnectData\<lparr>ServiceName := svc\<rparr>\<rparr>)\<rparr>)"
proof -
  have up: "ToUpper ''DESCRIPTION'' = ''DESCRIPTION''" "ToUpper ''ADDRESS'' = ''ADDRESS''" "ToUpper ''PROTOCOL'' = ''PROTOCOL''"
    "ToUpper ''HOST'' = ''HOST''" "ToUpper ''PORT'' = ''PORT''" "ToUpper ''CONNECT_DATA'' = ''CONNECT_DATA''"
    "ToUpper ''SERVICE_NAME'' = ''SERVICE_NAME''" by code_simp+
  have "NormalizeProtocol (Protocol_String ProtocolTCP) = Inr ProtocolTCP"
      "NormalizeProtocol (Protocol_String ProtocolTCPS) = Inr ProtocolTCPS" by code_simp+
  then have norm: "NormalizeProtocol (Protocol_String p) = Inr p" by (cases p) simp_all
  have port: "parseUIntField (FormatUint n) = Inr (int n)" using assms by (simp add: parseUIntField_def Atoi_def)
  have "extractAddress (Node ''ADDRESS'' [] [Node ''PROTOCOL'' (Protocol_String p) [], Node ''HOST'' h [], Node ''PORT'' (FormatUint n) []])
      = Inr (NewAddress\<lparr>Protocol := p, Host := h, Port := int n\<rparr>)"
    using assms by (simp add: extractAddress_def extractAddress_child_def up norm port set_val_def uwrap_def)
  moreover have "extractConnectData (Node ''CONNECT_DATA'' [] [Node ''SERVICE_NAME'' svc []])
      = Inr (zero_ConnectData\<lparr>ServiceName := svc\<rparr>)"
    by (simp add: extractConnectData_def extractConnectData_child_def up)
  ultimately have "extractDescription (ez_node p h n svc) = Inr (NewDescription\<lparr>
      Addresses := [NewAddress\<lparr>Protocol := p, Host := h, Port := int n\<rparr>],
      desc_ConnectData := zero_ConnectData\<lparr>ServiceName := svc\<rparr>\<rparr>)"
    by (simp add: ez_node_def extractDescription_def extractDescription_child_def up set_val_def NewDescription_def)
  moreover have "Name (ez_node p h n svc) = ''DESCRIPTION''" by (simp add: ez_node_def)
  ultimately show ?thesis by (simp add: ExtractConnectionContext_def set_val_def up)
qed

text \<open>C24: From the URL to the context: for a plain host, port and service, the data source name
  \<open>tcp://host:port/service\<close> (or \<open>tcps\<close>) is converted to a descriptor, parsed and extracted to one
  address with exactly that protocol, host and port, and to that service.\<close>

theorem ParseDSNString_plain:
  assumes "\<And>i ps. set (it i ps) = set ps"
    and "h \<noteq> []" "list_all url_char h" "1 \<le> n" "n \<le> 65535" "svc \<noteq> []" "list_all url_char svc"
  shows "\<exists>pc. ParseDSNString it (ToLower (Protocol_String p) @ ''://'' @ h @ '':'' @ FormatUint n @ ''/'' @ svc) = Inr pc \<and>
    pc_rootNode pc = ez_node p h n svc \<and> ConnectString pc = ToString (ez_node p h n svc) \<and>
    connectionContext pc = empty_context\<lparr>ctx_Description := Some (NewDescription\<lparr>
      Addresses := [NewAddress\<lparr>Protocol := p, Host := h, Port := int n\<rparr>],
      desc_ConnectData := zero_ConnectData\<lparr>ServiceName := svc\<rparr>\<rparr>)\<rparr>"
proof -
  let ?s = "ToLower (Protocol_String p)"
  let ?dsn = "?s @ ''://'' @ h @ CHR '':'' # FormatUint n @ CHR ''/'' # svc"
  have scheme: "?s = ''tcp'' \<or> ?s = ''tcps''"
  proof -
    have "ToLower ''TCP'' = ''tcp''" "ToLower ''TCPS'' = ''tcps''" by code_simp+
    then show ?thesis by (cases p) (simp_all add: Protocol_String_def)
  qed
  have s: "list_all url_char ?s" "?s \<noteq> []" "hd ?s \<noteq> CHR ''(''"
    using scheme by (auto simp: url_char_def value_char_def is_space_def)
  have chars: "url_char c \<or> c = CHR '':'' \<or> c = CHR ''/''" if "c \<in> set ?dsn" for c
    using that assms(3,7) s(1) FormatUint_url [of n] by (auto simp: list_all_iff)
  have absent: "c \<notin> set ?dsn" if "\<not> url_char c" "c \<noteq> CHR '':''" "c \<noteq> CHR ''/''" for c
    using chars that by blast
  have trim: "TrimSpace ?dsn = ?dsn"
  proof (rule TrimSpace_all)
    have "\<not> is_space c" if "url_char c \<or> c = CHR '':'' \<or> c = CHR ''/''" for c
      using that by (auto simp: url_char_def is_space_def)
    then show "list_all (\<lambda>c. \<not> is_space c) ?dsn" unfolding list_all_iff using chars by blast
  qed
  have ez: "parseEzConnect it ?dsn = Inr \<lparr>tns = ToString (ez_node p h n svc), unrecognizedParams = []\<rparr>"
    using strip_plain [OF absent absent, of False] paramStart_absent [OF absent, of 0 0]
      parseMainURL_plain [of h n svc p] assms buildTNS_plain [of it h svc p n]
    by (simp add: parseEzConnect_def StripSpacesOutsideQuotes_def splitAndParseExtendedParams_def)
  have "hd ?dsn \<noteq> CHR ''(''" "?dsn \<noteq> []" using s by simp_all
  then have "resolveConnectStringURL it ?dsn = Inr \<lparr>tns = ToString (ez_node p h n svc), unrecognizedParams = []\<rparr>"
    using ez trim by (simp add: resolveConnectStringURL_def)
  moreover have "SplitN ?dsn (CHR ''@'') 2 = [?dsn]"
    using absent [of "CHR ''@''"] by (simp add: numeral_2_eq_2)
  moreover have "SplitN (ToString (ez_node p h n svc)) (CHR ''?'') 2 = [ToString (ez_node p h n svc)]"
    using url_char_notin [OF assms(3), of "CHR ''?''"] url_char_notin [OF assms(7), of "CHR ''?''"]
      url_char_notin [OF FormatUint_url, of "CHR ''?''"]
    by (cases p) (simp_all add: numeral_2_eq_2 ez_node_def Protocol_String_def)
  moreover have "Parse (ToString (ez_node p h n svc)) = Inr (ez_node p h n svc)"
    by (rule Parse_printed) (rule ez_node_plain [OF assms(3,7)])
  ultimately show ?thesis
    using extract_ez_node [OF assms(5)] by (simp add: ParseDSNString_def)
qed

theorem ParseDSNString_plain_witness:
  "\<exists>pc. ParseDSNString (\<lambda>i. id) (ToLower (Protocol_String ProtocolTCPS) @ ''://'' @ ''db'' @ '':'' @ FormatUint 1522 @ ''/'' @ ''s'')
     = Inr pc \<and> pc_rootNode pc = ez_node ProtocolTCPS ''db'' 1522 ''s''"
  using ParseDSNString_plain [of "\<lambda>i. id" "''db''" 1522 "''s''" ProtocolTCPS]
  by (auto simp: url_char_def value_char_def is_space_def)


text \<open>A descriptor is cut at its first question mark, also inside a value.\<close>

theorem ParseDSNString_question_mark:
  "ParseDSNString it ''(D=(S=a?b))'' =
     Inl (NewOracleError NamingParseFailed (Some (NewOracleError NamingParseBounds None [ArgInt 2, ArgInt 0])) [])"
proof -
  have "TrimSpace ''(D=(S=a?b))'' = ''(D=(S=a?b))''" by code_simp
  moreover have "Parse ''(D=(S=a'' = Inl (NewOracleError NamingParseBounds None [ArgInt 2, ArgInt 0])" by code_simp
  ultimately show ?thesis by (simp add: ParseDSNString_def resolveConnectStringURL_def numeral_2_eq_2)
qed

end
