(* ===== verification/Caches.thy ===== *)
theory Caches
  imports Go_Base
begin

text \<open>
  The caches of \<open>internal/common/caches.go\<close>. The interface \<open>Cache\<close> is the locale \<open>cache\<close>: what
  a lookup may return after any sequence of operations is proved there once, and
  \<open>LRUCache\<close> and \<open>TTLCache\<close> are its two interpretations.

  \<open>LRUCache\<close> keeps a map from keys to elements of a \<open>container/list\<close>; an element pointer is a
  number, the list a list of elements, front first. The specification it refines is a plain
  list of key-value pairs, most recently used first.

  \<open>TTLCache\<close> reads the clock; each reading is an argument of the operation that makes it, in
  nanoseconds since the zero \<open>time.Time\<close>. Go iterates over a map in an unspecified order: where
  it matters the order is an argument \<open>it\<close>. The mutex of \<open>SafeTTLCache\<close> and \<open>SafeLRUCache\<close>
  makes every operation atomic, so their operations are those of the unsynchronised caches.
  Log lines are not modelled.
\<close>

subsection \<open>The interface\<close>

datatype 'a cache_op =
    GetOp int int string
  | PutOp int string 'a
  | RemoveOp string
  | ClearOp

text \<open>The value and time of the last \<open>Put\<close> of \<open>k\<close> that no \<open>Remove\<close> or \<open>Clear\<close> undid.\<close>

definition stored_step :: "string \<Rightarrow> 'a cache_op \<Rightarrow> ('a \<times> int) option \<Rightarrow> ('a \<times> int) option" where
  "stored_step k op r =
     (case op of
        GetOp t t' k' \<Rightarrow> r
      | PutOp t k' v \<Rightarrow> if k' = k then Some (v, t) else r
      | RemoveOp k' \<Rightarrow> if k' = k then None else r
      | ClearOp \<Rightarrow> None)"

definition stored :: "'a cache_op list \<Rightarrow> string \<Rightarrow> ('a \<times> int) option" where
  "stored ops k = fold (stored_step k) ops None"

definition cache_step ::
  "(int \<Rightarrow> int \<Rightarrow> string \<Rightarrow> 's \<Rightarrow> 'a option \<times> 's) \<Rightarrow> (int \<Rightarrow> string \<Rightarrow> 'a \<Rightarrow> 's \<Rightarrow> 'a option \<times> 's) \<Rightarrow>
   (string \<Rightarrow> 's \<Rightarrow> bool \<times> 's) \<Rightarrow> ('s \<Rightarrow> 's) \<Rightarrow> 'a cache_op \<Rightarrow> 's \<Rightarrow> 's" where
  "cache_step get put rem clr op s =
     (case op of
        GetOp t t' k \<Rightarrow> snd (get t t' k s)
      | PutOp t k v \<Rightarrow> snd (put t k v s)
      | RemoveOp k \<Rightarrow> snd (rem k s)
      | ClearOp \<Rightarrow> clr s)"

definition op_ok :: "'a cache_op \<Rightarrow> bool" where
  "op_ok op = (case op of GetOp t t' k \<Rightarrow> t \<le> t' | PutOp t k v \<Rightarrow> 0 \<le> t | _ \<Rightarrow> True)"

text \<open>\<open>look t s k\<close> is the value that \<open>k\<close> has at time \<open>t\<close>; \<open>alive t0 t\<close> says that a value stored at
  \<open>t0\<close> is still valid at \<open>t\<close>. A \<open>Get\<close> reads the clock twice.\<close>

locale cache =
  fixes inv :: "'s \<Rightarrow> bool"
    and look :: "int \<Rightarrow> 's \<Rightarrow> string \<Rightarrow> 'a option"
    and alive :: "int \<Rightarrow> int \<Rightarrow> bool"
    and get :: "int \<Rightarrow> int \<Rightarrow> string \<Rightarrow> 's \<Rightarrow> 'a option \<times> 's"
    and put :: "int \<Rightarrow> string \<Rightarrow> 'a \<Rightarrow> 's \<Rightarrow> 'a option \<times> 's"
    and rem :: "string \<Rightarrow> 's \<Rightarrow> bool \<times> 's"
    and clr :: "'s \<Rightarrow> 's"
  assumes get_inv: "inv s \<Longrightarrow> inv (snd (get t t' k s))"
    and put_inv: "inv s \<Longrightarrow> 0 \<le> t \<Longrightarrow> inv (snd (put t k v s))"
    and rem_inv: "inv s \<Longrightarrow> inv (snd (rem k s))"
    and clr_inv: "inv s \<Longrightarrow> inv (clr s)"
    and get_sound: "inv s \<Longrightarrow> t \<le> t' \<Longrightarrow> fst (get t t' k s) = Some v \<Longrightarrow> look t s k = Some v"
    and get_complete: "inv s \<Longrightarrow> look t' s k = Some v \<Longrightarrow> fst (get t t' k s) = Some v"
    and get_look: "inv s \<Longrightarrow> look u (snd (get t t' k s)) k' = Some v \<Longrightarrow> look u s k' = Some v"
    and put_same: "inv s \<Longrightarrow> look u (snd (put t k v s)) k = (if alive t u then Some v else None)"
    and put_other: "inv s \<Longrightarrow> k' \<noteq> k \<Longrightarrow> look u (snd (put t k v s)) k' = Some w \<Longrightarrow> look u s k' = Some w"
    and rem_look: "inv s \<Longrightarrow> look u (snd (rem k s)) k' = (if k' = k then None else look u s k')"
    and clr_look: "inv s \<Longrightarrow> look u (clr s) k' = None"
begin

lemma step_inv: "inv s \<Longrightarrow> op_ok op \<Longrightarrow> inv (cache_step get put rem clr op s)"
  by (cases op) (simp_all add: cache_step_def op_ok_def get_inv put_inv rem_inv clr_inv)

lemma run_inv: "inv s \<Longrightarrow> list_all op_ok ops \<Longrightarrow> inv (fold (cache_step get put rem clr) ops s)"
  by (induction ops arbitrary: s) (simp_all add: step_inv)

lemma step_look:
  assumes "inv s" "op_ok op"
    and IH: "\<And>v. look u s k = Some v \<Longrightarrow> \<exists>t0. r = Some (v, t0) \<and> alive t0 u"
    and look: "look u (cache_step get put rem clr op s) k = Some v"
  shows "\<exists>t0. stored_step k op r = Some (v, t0) \<and> alive t0 u"
proof (cases op)
  case (GetOp t t' k')
  then show ?thesis using assms get_look by (auto simp: cache_step_def stored_step_def)
next
  case (PutOp t k' w)
  then show ?thesis
    using assms put_same [of s u t k w] put_other [of s k k' u t w v]
    by (cases "k' = k") (auto simp: cache_step_def stored_step_def split: if_splits)
next
  case (RemoveOp k')
  then show ?thesis using assms rem_look by (auto simp: cache_step_def stored_step_def split: if_splits)
next
  case ClearOp
  then show ?thesis using assms clr_look by (auto simp: cache_step_def)
qed

text \<open>A value that is found is the one stored last, and it has not expired.\<close>

lemma run_look:
  assumes "inv s" "\<And>u k. look u s k = None" "list_all op_ok ops"
    and "look u (fold (cache_step get put rem clr) ops s) k = Some v"
  shows "\<exists>t0. stored ops k = Some (v, t0) \<and> alive t0 u"
  using assms(3,4)
proof (induction ops arbitrary: v rule: rev_induct)
  case Nil
  then show ?case using assms(2) by simp
next
  case (snoc op ops)
  have "inv (fold (cache_step get put rem clr) ops s)" using run_inv assms(1) snoc.prems by simp
  then show ?case
    using step_look [of "fold (cache_step get put rem clr) ops s" op u k "stored ops k" v] snoc
    by (simp add: stored_def)
qed

lemma run_get:
  assumes "inv s" "\<And>u k. look u s k = None" "list_all op_ok ops" "t \<le> t'"
    and "fst (get t t' k (fold (cache_step get put rem clr) ops s)) = Some v"
  shows "\<exists>t0. stored ops k = Some (v, t0) \<and> alive t0 t"
  using run_look [OF assms(1-3)] run_inv [OF assms(1,3)] get_sound assms(4,5) by blast

end

subsection \<open>container/list\<close>

text \<open>A list of elements, front first; an element is its pointer and its \<open>Value\<close>.\<close>

type_synonym 'v List = "(nat \<times> 'v) list"

definition list_Value :: "'v List \<Rightarrow> nat \<Rightarrow> 'v option" where
  "list_Value l e = map_of l e"

definition list_SetValue :: "nat \<Rightarrow> 'v \<Rightarrow> 'v List \<Rightarrow> 'v List" where
  "list_SetValue e v l = map (\<lambda>(e', v'). if e' = e then (e', v) else (e', v')) l"

definition list_Remove :: "nat \<Rightarrow> 'v List \<Rightarrow> 'v List" where
  "list_Remove e l = filter (\<lambda>p. fst p \<noteq> e) l"

definition list_MoveToFront :: "nat \<Rightarrow> 'v List \<Rightarrow> 'v List" where
  "list_MoveToFront e l = (case map_of l e of None \<Rightarrow> l | Some v \<Rightarrow> (e, v) # list_Remove e l)"

text \<open>A new element has a pointer that no element of the list has.\<close>

definition list_fresh :: "'v List \<Rightarrow> nat" where
  "list_fresh l = Suc (sum_list (map fst l))"

definition list_PushFront :: "'v \<Rightarrow> 'v List \<Rightarrow> nat \<times> 'v List" where
  "list_PushFront v l = (let e = list_fresh l in (e, (e, v) # l))"

definition list_Back :: "'v List \<Rightarrow> nat option" where
  "list_Back l = (if l = [] then None else Some (fst (last l)))"

subsection \<open>LRUCache\<close>

record 'a lruCacheEntry =
  lru_key :: string
  lru_value :: 'a

record 'a LRUCache =
  lru_maxSize :: int
  lru_entries :: "string \<Rightarrow> nat option"
  lru_order :: "'a lruCacheEntry List"

definition NewLRUCache :: "int \<Rightarrow> 'a LRUCache option" where
  "NewLRUCache maxSize =
     (if maxSize \<le> 0 then None
      else Some \<lparr>lru_maxSize = maxSize, lru_entries = Map.empty, lru_order = []\<rparr>)"

text \<open>\<open>element.Value\<close>: an element the map points at is in the list, by the invariant; were it
  not, the value read would be the one it had when it was removed, which the model does not
  keep and reports as a miss.\<close>

definition LRUCache_Get :: "string \<Rightarrow> 'a LRUCache \<Rightarrow> 'a option \<times> 'a LRUCache" where
  "LRUCache_Get key c =
     (case lru_entries c key of
        None \<Rightarrow> (None, c)
      | Some element \<Rightarrow>
          (map_option lru_value (list_Value (lru_order c) element),
           c\<lparr>lru_order := list_MoveToFront element (lru_order c)\<rparr>))"

definition LRUCache_removeOldest :: "'a LRUCache \<Rightarrow> 'a LRUCache" where
  "LRUCache_removeOldest c =
     (case list_Back (lru_order c) of
        None \<Rightarrow> c
      | Some element \<Rightarrow>
          (case list_Value (lru_order c) element of
             None \<Rightarrow> c
           | Some entry \<Rightarrow>
               c\<lparr>lru_entries := (lru_entries c)(lru_key entry := None),
                 lru_order := list_Remove element (lru_order c)\<rparr>))"

definition LRUCache_Put :: "string \<Rightarrow> 'a \<Rightarrow> 'a LRUCache \<Rightarrow> 'a option \<times> 'a LRUCache" where
  "LRUCache_Put key v c =
     (case lru_entries c key of
        Some element \<Rightarrow>
          (case list_Value (lru_order c) element of
             None \<Rightarrow> (None, c)
           | Some entry \<Rightarrow>
               (Some (lru_value entry),
                c\<lparr>lru_order := list_MoveToFront element
                    (list_SetValue element (entry\<lparr>lru_value := v\<rparr>) (lru_order c))\<rparr>))
      | None \<Rightarrow>
          (let c = (if int (length (lru_order c)) = lru_maxSize c then LRUCache_removeOldest c else c);
               (element, ord) = list_PushFront \<lparr>lru_key = key, lru_value = v\<rparr> (lru_order c)
           in (None, c\<lparr>lru_order := ord, lru_entries := (lru_entries c)(key := Some element)\<rparr>)))"

definition LRUCache_Remove :: "string \<Rightarrow> 'a LRUCache \<Rightarrow> bool \<times> 'a LRUCache" where
  "LRUCache_Remove key c =
     (case lru_entries c key of
        None \<Rightarrow> (False, c)
      | Some element \<Rightarrow>
          (True, c\<lparr>lru_order := list_Remove element (lru_order c), lru_entries := (lru_entries c)(key := None)\<rparr>))"

definition LRUCache_Clear :: "'a LRUCache \<Rightarrow> 'a LRUCache" where
  "LRUCache_Clear c = c\<lparr>lru_entries := Map.empty, lru_order := []\<rparr>"

text \<open>The specification: at most \<open>n\<close> pairs with different keys, most recently used first.\<close>

definition lru_touch :: "string \<Rightarrow> 'a \<Rightarrow> (string \<times> 'a) list \<Rightarrow> (string \<times> 'a) list" where
  "lru_touch k v xs = (k, v) # filter (\<lambda>p. fst p \<noteq> k) xs"

definition spec_get :: "string \<Rightarrow> (string \<times> 'a) list \<Rightarrow> 'a option \<times> (string \<times> 'a) list" where
  "spec_get k xs = (map_of xs k, case map_of xs k of None \<Rightarrow> xs | Some v \<Rightarrow> lru_touch k v xs)"

definition spec_put :: "int \<Rightarrow> string \<Rightarrow> 'a \<Rightarrow> (string \<times> 'a) list \<Rightarrow> 'a option \<times> (string \<times> 'a) list" where
  "spec_put n k v xs =
     (map_of xs k,
      case map_of xs k of
        None \<Rightarrow> (k, v) # (if int (length xs) = n then butlast xs else xs)
      | Some w \<Rightarrow> lru_touch k v xs)"

definition spec_remove :: "string \<Rightarrow> (string \<times> 'a) list \<Rightarrow> bool \<times> (string \<times> 'a) list" where
  "spec_remove k xs = (map_of xs k \<noteq> None, filter (\<lambda>p. fst p \<noteq> k) xs)"

definition lru_pairs :: "'a lruCacheEntry List \<Rightarrow> (string \<times> 'a) list" where
  "lru_pairs l = map (\<lambda>(e, x). (lru_key x, lru_value x)) l"

definition lru_abs :: "'a LRUCache \<Rightarrow> (string \<times> 'a) list" where
  "lru_abs c = lru_pairs (lru_order c)"

definition lru_inv :: "'a LRUCache \<Rightarrow> bool" where
  "lru_inv c \<longleftrightarrow>
     distinct (map fst (lru_order c)) \<and> distinct (map fst (lru_abs c)) \<and>
     int (length (lru_order c)) \<le> lru_maxSize c \<and> 0 < lru_maxSize c \<and>
     (\<forall>k e. lru_entries c k = Some e \<longleftrightarrow> (\<exists>x. (e, x) \<in> set (lru_order c) \<and> lru_key x = k))"


lemma lru_invD:
  assumes "lru_inv c"
  shows "distinct (map fst (lru_order c))" "distinct (map fst (lru_pairs (lru_order c)))"
    "int (length (lru_order c)) \<le> lru_maxSize c" "0 < lru_maxSize c"
    "lru_entries c k = Some e \<longleftrightarrow> (\<exists>x. (e, x) \<in> set (lru_order c) \<and> lru_key x = k)"
  using assms by (simp_all add: lru_inv_def lru_abs_def)

lemma fst_lru_pairs: "fst ` set (lru_pairs l) = (\<lambda>p. lru_key (snd p)) ` set l"
  by (force simp: lru_pairs_def split_beta image_iff)

lemma lru_id_in: "(e, x) \<in> set l \<Longrightarrow> e \<in> fst ` set l"
  by (metis fst_conv image_eqI)

lemma lru_key_in: "(e, x) \<in> set l \<Longrightarrow> lru_key x \<in> fst ` set (lru_pairs l)"
  unfolding fst_lru_pairs by (metis image_eqI snd_conv)

lemma lru_pairs_Cons [simp]: "lru_pairs (p # l) = (lru_key (snd p), lru_value (snd p)) # lru_pairs l"
  by (simp add: lru_pairs_def split_beta)

lemma lru_pairs_simps [simp]:
  "lru_pairs [] = []" "length (lru_pairs l) = length l" "lru_pairs (butlast l) = butlast (lru_pairs l)"
  by (simp_all add: lru_pairs_def map_butlast)

lemma list_Value_in:
  "distinct (map fst l) \<Longrightarrow> (e, x) \<in> set l \<Longrightarrow> list_Value l e = Some x"
  by (simp add: list_Value_def)

lemma lru_pairs_Remove:
  "distinct (map fst l) \<Longrightarrow> distinct (map fst (lru_pairs l)) \<Longrightarrow> (e, x) \<in> set l \<Longrightarrow>
   lru_pairs (list_Remove e l) = filter (\<lambda>p. fst p \<noteq> lru_key x) (lru_pairs l)"
proof (induction l)
  case (Cons p l)
  show ?case
  proof (cases "p = (e, x)")
    case True
    then have "e \<notin> fst ` set l" "lru_key x \<notin> fst ` set (lru_pairs l)" using Cons.prems by auto
    then have "list_Remove e l = l" "filter (\<lambda>p. fst p \<noteq> lru_key x) (lru_pairs l) = lru_pairs l"
      by (force simp: list_Remove_def filter_id_conv)+
    then show ?thesis using True by (simp add: list_Remove_def)
  next
    case False
    then have "(e, x) \<in> set l" using Cons.prems by simp
    then have "e \<in> fst ` set l" "lru_key x \<in> fst ` set (lru_pairs l)"
      by (rule lru_id_in, rule lru_key_in)
    moreover have "fst p \<notin> fst ` set l" "lru_key (snd p) \<notin> fst ` set (lru_pairs l)"
      using Cons.prems by simp_all
    ultimately have "e \<noteq> fst p" "lru_key x \<noteq> lru_key (snd p)" by metis+
    then show ?thesis using Cons \<open>(e, x) \<in> set l\<close> by (auto simp: list_Remove_def)
  qed
qed simp

lemma map_of_lru_pairs:
  "distinct (map fst (lru_pairs l)) \<Longrightarrow> (e, x) \<in> set l \<Longrightarrow> map_of (lru_pairs l) (lru_key x) = Some (lru_value x)"
  by (rule map_of_is_SomeI) (force simp: lru_pairs_def)+

lemma map_of_lru_pairs_None:
  "map_of (lru_pairs l) k = None \<longleftrightarrow> (\<forall>p\<in>set l. lru_key (snd p) \<noteq> k)"
  by (auto simp: map_of_eq_None_iff fst_lru_pairs)

lemma set_list_MoveToFront: "distinct (map fst l) \<Longrightarrow> set (list_MoveToFront e l) = set l"
  by (auto simp: list_MoveToFront_def list_Remove_def split: option.splits
      dest: map_of_SomeD eq_key_imp_eq_value)

lemma lru_miss: "lru_inv c \<Longrightarrow> lru_entries c k = None \<longleftrightarrow> map_of (lru_abs c) k = None"
proof -
  assume "lru_inv c"
  from lru_invD(5) [OF this, of k] show ?thesis
    unfolding map_of_lru_pairs_None lru_abs_def by (metis not_None_eq prod.collapse snd_conv)
qed

lemma lru_hit:
  assumes "lru_inv c" "lru_entries c k = Some e"
  obtains x where "(e, x) \<in> set (lru_order c)" "lru_key x = k" "list_Value (lru_order c) e = Some x"
    "map_of (lru_abs c) k = Some (lru_value x)"
    "lru_pairs (list_Remove e (lru_order c)) = filter (\<lambda>p. fst p \<noteq> k) (lru_abs c)"
proof -
  obtain x where x: "(e, x) \<in> set (lru_order c)" "lru_key x = k"
    using assms lru_invD(5) by blast
  show ?thesis
    using that [OF x] list_Value_in [OF lru_invD(1) [OF assms(1)] x(1)]
      map_of_lru_pairs [OF lru_invD(2) [OF assms(1)] x(1)]
      lru_pairs_Remove [OF lru_invD(1,2) [OF assms(1)] x(1)] x(2)
    by (simp add: lru_abs_def)
qed

text \<open>The invariant, given the list an operation leaves.\<close>

lemma lru_invI:
  assumes "distinct (map fst l)" "distinct (map fst (lru_pairs l))" "int (length l) \<le> n" "0 < n"
    and "\<And>k e. m k = Some e \<longleftrightarrow> (\<exists>x. (e, x) \<in> set l \<and> lru_key x = k)"
  shows "lru_inv \<lparr>lru_maxSize = n, lru_entries = m, lru_order = l\<rparr>"
  using assms by (simp add: lru_inv_def lru_abs_def)

lemma list_fresh_above: "e \<in> fst ` set l \<Longrightarrow> e < list_fresh l"
  using member_le_sum_list [of e "map fst l"] by (simp add: list_fresh_def less_Suc_eq_le)

text \<open>Moving an element to the front, with a new value.\<close>

lemma lru_front:
  assumes "lru_inv c" "(e, x) \<in> set (lru_order c)" "lru_key y = lru_key x"
  defines "c' \<equiv> c\<lparr>lru_order := (e, y) # list_Remove e (lru_order c)\<rparr>"
  shows "lru_inv c'" "lru_abs c' = lru_touch (lru_key x) (lru_value y) (lru_abs c)"
proof -
  note D = lru_invD [OF assms(1)]
  note pairs = lru_pairs_Remove [OF D(1,2) assms(2)]
  show abs: "lru_abs c' = lru_touch (lru_key x) (lru_value y) (lru_abs c)"
    using assms(3) pairs by (simp add: c'_def lru_abs_def lru_touch_def)
  have len: "length (list_Remove e (lru_order c)) < length (lru_order c)"
    unfolding list_Remove_def using assms(2) by (intro length_filter_less [of "(e, x)"]) auto
  have ids: "distinct (map fst ((e, y) # list_Remove e (lru_order c)))"
    using D(1) by (auto simp: list_Remove_def distinct_map_filter)
  have keys: "distinct (map fst (lru_pairs ((e, y) # list_Remove e (lru_order c))))"
    using D(2) assms(3) by (auto simp: pairs distinct_map_filter)
  have same: "(\<exists>z. (e', z) \<in> set ((e, y) # list_Remove e (lru_order c)) \<and> lru_key z = k) \<longleftrightarrow>
      (\<exists>z. (e', z) \<in> set (lru_order c) \<and> lru_key z = k)" for e' k
  proof (cases "e' = e")
    case True
    have "(e, z) \<in> set (lru_order c) \<longleftrightarrow> z = x" for z
      using assms(2) eq_key_imp_eq_value [OF D(1) assms(2)] by blast
    then show ?thesis using True assms(3) by (simp add: list_Remove_def)
  qed (simp add: list_Remove_def)
  show "lru_inv c'"
    unfolding lru_inv_def c'_def
    using ids keys len D(3-5) same by (simp add: lru_abs_def)
qed

lemma list_MoveToFront_in:
  "distinct (map fst l) \<Longrightarrow> (e, x) \<in> set l \<Longrightarrow> list_MoveToFront e l = (e, x) # list_Remove e l"
  by (simp add: list_MoveToFront_def)

lemma list_SetValue_front:
  "distinct (map fst l) \<Longrightarrow> (e, x) \<in> set l \<Longrightarrow>
   list_MoveToFront e (list_SetValue e y l) = (e, y) # list_Remove e l"
proof -
  assume l: "distinct (map fst l)" "(e, x) \<in> set l"
  have "map fst (list_SetValue e y l) = map fst l" by (auto simp: list_SetValue_def)
  moreover have "(e, y) \<in> set (list_SetValue e y l)" using l(2) by (force simp: list_SetValue_def)
  moreover have "list_Remove e (list_SetValue e y l) = list_Remove e l"
    by (induction l) (auto simp: list_Remove_def list_SetValue_def split: if_splits)
  ultimately show ?thesis using l by (simp add: list_MoveToFront_in)
qed

lemma lru_evict:
  assumes "lru_inv c"
  shows "lru_inv (LRUCache_removeOldest c)"
    "lru_abs (LRUCache_removeOldest c) = butlast (lru_abs c)"
    "lru_maxSize (LRUCache_removeOldest c) = lru_maxSize c"
    "lru_entries c k = None \<Longrightarrow> lru_entries (LRUCache_removeOldest c) k = None"
proof -
  note D = lru_invD [OF assms]
  have "lru_inv (LRUCache_removeOldest c) \<and> lru_abs (LRUCache_removeOldest c) = butlast (lru_abs c) \<and>
      lru_maxSize (LRUCache_removeOldest c) = lru_maxSize c \<and>
      (lru_entries c k = None \<longrightarrow> lru_entries (LRUCache_removeOldest c) k = None)"
  proof (cases "lru_order c" rule: rev_cases)
    case Nil
    then show ?thesis using assms by (simp add: LRUCache_removeOldest_def list_Back_def lru_abs_def)
  next
    case (snoc l p)
    obtain e x where p: "p = (e, x)" by fastforce
    have "list_Value (lru_order c) e = Some x" using D(1) snoc p by (intro list_Value_in) simp_all
    moreover have rem: "list_Remove e (lru_order c) = l"
      using D(1) snoc p by (auto simp: list_Remove_def filter_id_conv)
    ultimately have c': "LRUCache_removeOldest c = c\<lparr>lru_entries := (lru_entries c)(lru_key x := None), lru_order := l\<rparr>"
      using snoc p by (simp add: LRUCache_removeOldest_def list_Back_def)
    have pairs: "lru_pairs (lru_order c) = lru_pairs l @ [(lru_key x, lru_value x)]"
      by (simp add: snoc p lru_pairs_def)
    have key: "lru_key x \<notin> fst ` set (lru_pairs l)" using D(2) pairs by simp
    have "((lru_entries c)(lru_key x := None)) k' = Some e' \<longleftrightarrow> (\<exists>z. (e', z) \<in> set l \<and> lru_key z = k')" for k' e'
    proof -
      have "lru_key z \<noteq> lru_key x" if "(e', z) \<in> set l" for z using lru_key_in [OF that] key by metis
      then show ?thesis using D(5) [of k' e'] snoc p by auto
    qed
    moreover have "distinct (map fst l)" "distinct (map fst (lru_pairs l))" "int (length l) \<le> lru_maxSize c"
      using D snoc pairs by simp_all
    ultimately have "lru_inv (LRUCache_removeOldest c)"
      using D(4) by (simp add: lru_inv_def lru_abs_def c')
    then show ?thesis by (simp add: c' lru_abs_def pairs)
  qed
  then show "lru_inv (LRUCache_removeOldest c)"
    "lru_abs (LRUCache_removeOldest c) = butlast (lru_abs c)"
    "lru_maxSize (LRUCache_removeOldest c) = lru_maxSize c"
    "lru_entries c k = None \<Longrightarrow> lru_entries (LRUCache_removeOldest c) k = None" by simp_all
qed

lemma lru_push:
  fixes v :: 'a
  assumes "lru_inv c" "lru_entries c k = None" "int (length (lru_order c)) < lru_maxSize c"
  defines "e \<equiv> list_fresh (lru_order c)"
  defines "c' \<equiv> c\<lparr>lru_order := (e, \<lparr>lru_key = k, lru_value = v\<rparr>) # lru_order c,
      lru_entries := (lru_entries c)(k := Some e)\<rparr>"
  shows "lru_inv c'" "lru_abs c' = (k, v) # lru_abs c"
proof -
  note D = lru_invD [OF assms(1)]
  show "lru_abs c' = (k, v) # lru_abs c" by (simp add: c'_def lru_abs_def)
  have e: "e \<notin> fst ` set (lru_order c)" unfolding e_def using list_fresh_above less_irrefl by metis
  have k: "k \<notin> fst ` set (lru_pairs (lru_order c))"
    using lru_miss [OF assms(1)] assms(2) by (simp add: lru_abs_def map_of_eq_None_iff)
  have "((lru_entries c)(k := Some e)) k' = Some e' \<longleftrightarrow>
      (\<exists>x. (e', x) \<in> set ((e, \<lparr>lru_key = k, lru_value = v\<rparr>) # lru_order c) \<and> lru_key x = k')" for k' e'
  proof -
    have "e' \<noteq> e \<and> lru_key z \<noteq> k" if "(e', z) \<in> set (lru_order c)" for z
      using lru_key_in [OF that] lru_id_in [OF that] e k by metis
    then show ?thesis using D(5) [of k' e'] by auto
  qed
  then show "lru_inv c'"
    using D e k assms(3) by (simp add: lru_inv_def lru_abs_def c'_def)
qed

subsubsection \<open>The list refines its specification\<close>

lemma LRUCache_Get_refines:
  assumes "lru_inv c"
  shows "lru_inv (snd (LRUCache_Get k c)) \<and>
    (fst (LRUCache_Get k c), lru_abs (snd (LRUCache_Get k c))) = spec_get k (lru_abs c)"
proof (cases "lru_entries c k")
  case None
  then have "map_of (lru_abs c) k = None" using lru_miss [OF assms] by simp
  then show ?thesis using assms None by (simp add: LRUCache_Get_def spec_get_def)
next
  case (Some e)
  obtain x where x: "(e, x) \<in> set (lru_order c)" "lru_key x = k" "list_Value (lru_order c) e = Some x"
    "map_of (lru_abs c) k = Some (lru_value x)"
    by (rule lru_hit [OF assms Some])
  then show ?thesis
    using Some lru_front [OF assms x(1) refl] list_MoveToFront_in [OF lru_invD(1) [OF assms] x(1)]
    by (simp add: LRUCache_Get_def spec_get_def)
qed

lemma LRUCache_Put_refines:
  assumes "lru_inv c"
  shows "lru_inv (snd (LRUCache_Put k v c)) \<and>
    (fst (LRUCache_Put k v c), lru_abs (snd (LRUCache_Put k v c))) = spec_put (lru_maxSize c) k v (lru_abs c)"
proof (cases "lru_entries c k")
  case None
  let ?c = "if int (length (lru_order c)) = lru_maxSize c then LRUCache_removeOldest c else c"
  note D = lru_invD [OF assms]
  have "lru_inv ?c" "lru_entries ?c k = None" using assms lru_evict [OF assms] None by simp_all
  moreover have len: "length (lru_order d) = length (lru_abs d)" for d :: "'a LRUCache"
    by (simp add: lru_abs_def)
  then have "int (length (lru_order ?c)) < lru_maxSize ?c"
    using lru_evict(2,3) [OF assms] D(3,4) by (auto simp: len)
  moreover have "map_of (lru_abs c) k = None" using lru_miss [OF assms] None by simp
  ultimately show ?thesis
    using None lru_push [of ?c k v] lru_evict(2) [OF assms]
    by (simp add: LRUCache_Put_def spec_put_def list_PushFront_def Let_def len)
next
  case (Some e)
  obtain x where x: "(e, x) \<in> set (lru_order c)" "lru_key x = k" "list_Value (lru_order c) e = Some x"
    "map_of (lru_abs c) k = Some (lru_value x)"
    by (rule lru_hit [OF assms Some])
  then show ?thesis
    using Some lru_front [OF assms x(1), of "x\<lparr>lru_value := v\<rparr>"]
      list_SetValue_front [OF lru_invD(1) [OF assms] x(1)]
    by (simp add: LRUCache_Put_def spec_put_def)
qed

lemma LRUCache_Remove_refines:
  assumes "lru_inv c"
  shows "lru_inv (snd (LRUCache_Remove k c)) \<and>
    (fst (LRUCache_Remove k c), lru_abs (snd (LRUCache_Remove k c))) = spec_remove k (lru_abs c)"
proof (cases "lru_entries c k")
  case None
  then have "map_of (lru_abs c) k = None" using lru_miss [OF assms] by simp
  moreover from this have "filter (\<lambda>p. fst p \<noteq> k) (lru_abs c) = lru_abs c"
    by (intro filter_True) (auto simp: map_of_eq_None_iff)
  ultimately show ?thesis using assms None by (simp add: LRUCache_Remove_def spec_remove_def)
next
  case (Some e)
  note D = lru_invD [OF assms]
  obtain x where x: "(e, x) \<in> set (lru_order c)" "lru_key x = k"
    "map_of (lru_abs c) k = Some (lru_value x)"
    and pairs: "lru_pairs (list_Remove e (lru_order c)) = filter (\<lambda>p. fst p \<noteq> k) (lru_abs c)"
    by (rule lru_hit [OF assms Some])
  let ?l = "list_Remove e (lru_order c)"
  have "((lru_entries c)(k := None)) k' = Some e' \<longleftrightarrow> (\<exists>z. (e', z) \<in> set ?l \<and> lru_key z = k')" for k' e'
  proof -
    have "z = x" if "(e', z) \<in> set (lru_order c)" "e' = e" for z
      using eq_key_imp_eq_value [OF D(1), of e] x(1) that by blast
    moreover have "e' = e" if "(e', z) \<in> set (lru_order c)" "lru_key z = k" for z
      using D(5) [of k e'] Some that by auto
    ultimately show ?thesis using D(5) [of k' e'] x(2) unfolding list_Remove_def by auto
  qed
  moreover have "distinct (map fst ?l)" "distinct (map fst (lru_pairs ?l))"
    using D(1,2) unfolding pairs lru_abs_def by (simp_all add: list_Remove_def distinct_map_filter)
  moreover have "int (length ?l) \<le> lru_maxSize c"
    using D(3) length_filter_le [of "\<lambda>p. fst p \<noteq> e" "lru_order c"] unfolding list_Remove_def by linarith
  ultimately show ?thesis
    using D(4) Some x(3) pairs
    by (simp add: LRUCache_Remove_def spec_remove_def lru_inv_def lru_abs_def)
qed

subsubsection \<open>LRUCache is a cache\<close>

definition lru_look :: "int \<Rightarrow> 'a LRUCache \<Rightarrow> string \<Rightarrow> 'a option" where
  "lru_look t c k = map_of (lru_abs c) k"

definition lru_alive :: "int \<Rightarrow> int \<Rightarrow> bool" where
  "lru_alive t0 t = True"

definition lru_get :: "int \<Rightarrow> int \<Rightarrow> string \<Rightarrow> 'a LRUCache \<Rightarrow> 'a option \<times> 'a LRUCache" where
  "lru_get t t' k c = LRUCache_Get k c"

definition lru_put :: "int \<Rightarrow> string \<Rightarrow> 'a \<Rightarrow> 'a LRUCache \<Rightarrow> 'a option \<times> 'a LRUCache" where
  "lru_put t k v c = LRUCache_Put k v c"

lemma lru_abs_distinct: "lru_inv c \<Longrightarrow> distinct (map fst (lru_abs c))"
  by (simp add: lru_inv_def)

lemma map_of_lru_touch: "map_of (lru_touch k v xs) = (map_of xs)(k := Some v)"
  by (auto simp: lru_touch_def map_of_filter_key fun_eq_iff)

lemma map_of_butlast: "distinct (map fst xs) \<Longrightarrow> map_of (butlast xs) k = Some v \<Longrightarrow> map_of xs k = Some v"
  by (cases xs rule: rev_cases) (auto simp: map_add_Some_iff dest!: map_of_SomeD dest: weak_map_of_SomeI intro: map_of_is_SomeI)

interpretation lru: cache lru_inv lru_look lru_alive lru_get lru_put LRUCache_Remove LRUCache_Clear
proof
  fix c :: "'a LRUCache" and t t' u k k' v w
  assume inv: "lru_inv c"
  note get = LRUCache_Get_refines [OF inv, of k] and put = LRUCache_Put_refines [OF inv, of k v]
    and rem = LRUCache_Remove_refines [OF inv, of k]
  note defs = lru_get_def lru_put_def lru_look_def lru_alive_def
  show "lru_inv (snd (lru_get t t' k c))" "lru_inv (snd (lru_put t k v c))" "lru_inv (snd (LRUCache_Remove k c))"
    using get put rem by (simp_all add: defs)
  show "lru_inv (LRUCache_Clear c)"
    using inv by (simp add: LRUCache_Clear_def lru_inv_def lru_abs_def)
  show "lru_look t c k = Some v" if "fst (lru_get t t' k c) = Some v"
    using get that by (simp add: defs spec_get_def)
  show "fst (lru_get t t' k c) = Some v" if "lru_look t' c k = Some v"
    using get that by (simp add: defs spec_get_def)
  show "lru_look u c k' = Some v" if "lru_look u (snd (lru_get t t' k c)) k' = Some v"
    using get that by (auto simp: defs spec_get_def map_of_lru_touch split: option.splits if_splits)
  show "lru_look u (snd (lru_put t k v c)) k = (if lru_alive t u then Some v else None)"
    using put by (auto simp: defs spec_put_def map_of_lru_touch split: option.splits)
  show "lru_look u c k' = Some w" if "k' \<noteq> k" "lru_look u (snd (lru_put t k v c)) k' = Some w"
    using put that map_of_butlast [OF lru_abs_distinct [OF inv]]
    by (auto simp: defs spec_put_def map_of_lru_touch split: option.splits if_splits)
  show "lru_look u (snd (LRUCache_Remove k c)) k' = (if k' = k then None else lru_look u c k')"
    using rem by (simp add: defs spec_remove_def map_of_filter_key)
  show "lru_look u (LRUCache_Clear c) k' = None"
    by (simp add: defs LRUCache_Clear_def lru_abs_def)
qed

subsection \<open>TTLCache\<close>

text \<open>\<open>entries\<close> is a list of the map's pairs, with different keys. The zero \<open>time.Time\<close> is \<open>0\<close>.\<close>

record 'a ttlCacheEntry =
  ttl_value :: 'a
  ttl_ctime :: int

record 'a TTLCache =
  ttl_maxSize :: int
  ttl_ttl :: int
  ttl_nextExpiration :: int
  ttl_entries :: "(string \<times> 'a ttlCacheEntry) list"

definition NewTTLCache :: "int \<Rightarrow> int \<Rightarrow> 'a TTLCache option" where
  "NewTTLCache maxSize ttl =
     (if maxSize \<le> 0 then None else if ttl \<le> 0 then None
      else Some \<lparr>ttl_maxSize = maxSize, ttl_ttl = ttl, ttl_nextExpiration = 0, ttl_entries = []\<rparr>)"

definition shouldRemoveExpired :: "int \<Rightarrow> 'a TTLCache \<Rightarrow> bool" where
  "shouldRemoveExpired now c =
     (if ttl_nextExpiration c = 0 then False else \<not> now < ttl_nextExpiration c)"

text \<open>The loop of \<open>removeExpired\<close>: it deletes from the map it ranges over.\<close>

definition expire_step ::
  "int \<Rightarrow> int \<Rightarrow> string \<times> 'a ttlCacheEntry \<Rightarrow> (string \<times> 'a ttlCacheEntry) list \<times> bool \<times> int \<Rightarrow>
   (string \<times> 'a ttlCacheEntry) list \<times> bool \<times> int" where
  "expire_step now ttl p acc =
     (let (es, first, next) = acc; expiresAt = ttl_ctime (snd p) + ttl in
      if \<not> now < expiresAt then (map_delete (fst p) es, first, next)
      else if first \<or> expiresAt < next then (es, False, expiresAt) else acc)"

definition removeExpired :: "int \<Rightarrow> 'a TTLCache \<Rightarrow> 'a TTLCache" where
  "removeExpired now c =
     (let (es, first, next) = fold (expire_step now (ttl_ttl c)) (ttl_entries c) (ttl_entries c, True, 0) in
      c\<lparr>ttl_entries := es, ttl_nextExpiration := (if first then 0 else next)\<rparr>)"

definition next_step :: "int \<Rightarrow> string \<times> 'a ttlCacheEntry \<Rightarrow> bool \<times> int \<Rightarrow> bool \<times> int" where
  "next_step ttl p acc =
     (let expiresAt = ttl_ctime (snd p) + ttl in
      if fst acc \<or> expiresAt < snd acc then (False, expiresAt) else acc)"

definition recomputeNextExpiration :: "'a TTLCache \<Rightarrow> 'a TTLCache" where
  "recomputeNextExpiration c =
     (if ttl_entries c = [] then c\<lparr>ttl_nextExpiration := 0\<rparr>
      else c\<lparr>ttl_nextExpiration := snd (fold (next_step (ttl_ttl c)) (ttl_entries c) (True, 0))\<rparr>)"

definition oldest_step :: "string \<times> 'a ttlCacheEntry \<Rightarrow> bool \<times> string \<times> int \<Rightarrow> bool \<times> string \<times> int" where
  "oldest_step p acc =
     (let (first, oldestKey, oldestTime) = acc in
      if first \<or> ttl_ctime (snd p) < oldestTime then (False, fst p, ttl_ctime (snd p)) else acc)"

definition TTLCache_removeOldest ::
  "((string \<times> 'a ttlCacheEntry) list \<Rightarrow> (string \<times> 'a ttlCacheEntry) list) \<Rightarrow> 'a TTLCache \<Rightarrow> 'a TTLCache" where
  "TTLCache_removeOldest it c =
     (let (first, oldestKey, oldestTime) = fold oldest_step (it (ttl_entries c)) (True, [], 0) in
      if \<not> first
      then recomputeNextExpiration (c\<lparr>ttl_entries := map_delete oldestKey (ttl_entries c)\<rparr>)
      else c)"

definition TTLCache_Get :: "int \<Rightarrow> int \<Rightarrow> string \<Rightarrow> 'a TTLCache \<Rightarrow> 'a option \<times> 'a TTLCache" where
  "TTLCache_Get now now' key c =
     (let c = (if shouldRemoveExpired now c then removeExpired now' c else c) in
      (map_option ttl_value (map_of (ttl_entries c) key), c))"

definition TTLCache_Put ::
  "((string \<times> 'a ttlCacheEntry) list \<Rightarrow> (string \<times> 'a ttlCacheEntry) list) \<Rightarrow>
   int \<Rightarrow> string \<Rightarrow> 'a \<Rightarrow> 'a TTLCache \<Rightarrow> 'a option \<times> 'a TTLCache" where
  "TTLCache_Put it now key v c =
     (let previous = map_option ttl_value (map_of (ttl_entries c) key);
          c = (if int (length (ttl_entries c)) = ttl_maxSize c then TTLCache_removeOldest it c else c);
          c = c\<lparr>ttl_entries := map_assign key \<lparr>ttl_value = v, ttl_ctime = now\<rparr> (ttl_entries c)\<rparr>;
          expiresAt = now + ttl_ttl c;
          c = (if ttl_nextExpiration c = 0 \<or> expiresAt < ttl_nextExpiration c
               then c\<lparr>ttl_nextExpiration := expiresAt\<rparr> else c)
      in (previous, c))"

definition TTLCache_Remove :: "string \<Rightarrow> 'a TTLCache \<Rightarrow> bool \<times> 'a TTLCache" where
  "TTLCache_Remove key c =
     (if map_of (ttl_entries c) key \<noteq> None
      then (True, recomputeNextExpiration (c\<lparr>ttl_entries := map_delete key (ttl_entries c)\<rparr>))
      else (False, c))"

definition TTLCache_Clear :: "'a TTLCache \<Rightarrow> 'a TTLCache" where
  "TTLCache_Clear c = c\<lparr>ttl_entries := [], ttl_nextExpiration := 0\<rparr>"

subsubsection \<open>Its invariant\<close>

definition ttl_keys_ok :: "(string \<times> 'a ttlCacheEntry) list \<Rightarrow> bool" where
  "ttl_keys_ok es \<longleftrightarrow> distinct (map fst es) \<and> (\<forall>p\<in>set es. 0 \<le> ttl_ctime (snd p))"

text \<open>No entry expires before \<open>nextExpiration\<close>.\<close>

definition ttl_inv :: "int \<Rightarrow> 'a TTLCache \<Rightarrow> bool" where
  "ttl_inv ttl c \<longleftrightarrow>
     0 < ttl \<and> ttl_ttl c = ttl \<and> ttl_keys_ok (ttl_entries c) \<and>
     (\<forall>p\<in>set (ttl_entries c). ttl_nextExpiration c \<noteq> 0 \<and> ttl_nextExpiration c \<le> ttl_ctime (snd p) + ttl)"

definition ttl_look :: "int \<Rightarrow> int \<Rightarrow> 'a TTLCache \<Rightarrow> string \<Rightarrow> 'a option" where
  "ttl_look ttl t c k =
     (case map_of (ttl_entries c) k of
        None \<Rightarrow> None
      | Some e \<Rightarrow> if t < ttl_ctime e + ttl then Some (ttl_value e) else None)"

definition ttl_alive :: "int \<Rightarrow> int \<Rightarrow> int \<Rightarrow> bool" where
  "ttl_alive ttl t0 t = (t < t0 + ttl)"

lemma ttl_keys_ok_delete: "ttl_keys_ok es \<Longrightarrow> ttl_keys_ok (map_delete k es)"
  by (auto simp: ttl_keys_ok_def map_delete_def distinct_map_filter)

lemma next_step_apply:
  "next_step ttl p (b, n) = (if b \<or> ttl_ctime (snd p) + ttl < n then (False, ttl_ctime (snd p) + ttl) else (b, n))"
  by (simp add: next_step_def Let_def)

lemma fold_next_step:
  assumes "es \<noteq> []"
  shows "\<exists>n. fold (next_step ttl) es (True, 0) = (False, n) \<and> (\<forall>p\<in>set es. n \<le> ttl_ctime (snd p) + ttl)
    \<and> (\<exists>p\<in>set es. n = ttl_ctime (snd p) + ttl)"
  using assms
proof (induction es rule: rev_induct)
  case (snoc p es)
  show ?case
  proof (cases "es = []")
    case False
    then obtain n q where "fold (next_step ttl) es (True, 0) = (False, n)"
      "\<forall>p\<in>set es. n \<le> ttl_ctime (snd p) + ttl" "q \<in> set es" "n = ttl_ctime (snd q) + ttl"
      using snoc.IH by blast
    then show ?thesis
      by (cases "ttl_ctime (snd p) + ttl < n") (force simp: next_step_apply)+
  qed (simp add: next_step_apply)
qed simp

lemma ttl_inv_recompute:
  assumes "0 < ttl" "ttl_ttl c = ttl" "ttl_keys_ok (ttl_entries c)"
  shows "ttl_inv ttl (recomputeNextExpiration c)"
proof (cases "ttl_entries c = []")
  case True
  then show ?thesis using assms by (simp add: ttl_inv_def recomputeNextExpiration_def)
next
  case False
  obtain n p where "fold (next_step ttl) (ttl_entries c) (True, 0) = (False, n)"
    "\<forall>p\<in>set (ttl_entries c). n \<le> ttl_ctime (snd p) + ttl" "p \<in> set (ttl_entries c)" "n = ttl_ctime (snd p) + ttl"
    using fold_next_step [OF False] by blast
  then show ?thesis
    using assms False by (force simp: ttl_inv_def recomputeNextExpiration_def ttl_keys_ok_def)
qed

lemma recompute_simps [simp]:
  "ttl_entries (recomputeNextExpiration c) = ttl_entries c" "ttl_ttl (recomputeNextExpiration c) = ttl_ttl c"
  "ttl_maxSize (recomputeNextExpiration c) = ttl_maxSize c"
  by (simp_all add: recomputeNextExpiration_def)

text \<open>\<open>removeExpired\<close> keeps the entries that are still valid.\<close>

lemma expire_step_apply:
  "expire_step now ttl p (es, first, next) =
     (if \<not> now < ttl_ctime (snd p) + ttl then (map_delete (fst p) es, first, next)
      else if first \<or> ttl_ctime (snd p) + ttl < next then (es, False, ttl_ctime (snd p) + ttl) else (es, first, next))"
  by (simp add: expire_step_def Let_def)

lemma fold_expire_step:
  assumes "distinct (map fst (xs @ rest))"
  shows "\<exists>first n. fold (expire_step now ttl) xs (xs @ rest, True, 0)
      = (filter (\<lambda>p. now < ttl_ctime (snd p) + ttl) xs @ rest, first, n) \<and>
      (first \<longleftrightarrow> filter (\<lambda>p. now < ttl_ctime (snd p) + ttl) xs = []) \<and>
      (\<not> first \<longrightarrow> (\<forall>p\<in>set xs. now < ttl_ctime (snd p) + ttl \<longrightarrow> n \<le> ttl_ctime (snd p) + ttl) \<and>
        (\<exists>p\<in>set xs. n = ttl_ctime (snd p) + ttl))"
  using assms
proof (induction xs arbitrary: rest rule: rev_induct)
  case (snoc p xs)
  obtain first n where IH: "fold (expire_step now ttl) xs (xs @ p # rest, True, 0)
      = (filter (\<lambda>p. now < ttl_ctime (snd p) + ttl) xs @ p # rest, first, n)"
    "first \<longleftrightarrow> filter (\<lambda>p. now < ttl_ctime (snd p) + ttl) xs = []"
    "\<not> first \<longrightarrow> (\<forall>p\<in>set xs. now < ttl_ctime (snd p) + ttl \<longrightarrow> n \<le> ttl_ctime (snd p) + ttl) \<and>
        (\<exists>p\<in>set xs. n = ttl_ctime (snd p) + ttl)"
    using snoc.IH [of "p # rest"] snoc.prems by auto
  have del: "map_delete (fst p) (filter (\<lambda>p. now < ttl_ctime (snd p) + ttl) xs @ p # rest)
      = filter (\<lambda>p. now < ttl_ctime (snd p) + ttl) xs @ rest"
  proof -
    have "map_delete (fst p) ys = ys" if "fst p \<notin> fst ` set ys" for ys :: "(string \<times> 'a ttlCacheEntry) list"
      unfolding map_delete_def by (rule filter_True) (use that in \<open>metis image_eqI\<close>)
    moreover have "map_delete (fst p) (ys @ p # zs) = map_delete (fst p) ys @ map_delete (fst p) zs" for ys zs
      by (simp add: map_delete_def)
    moreover have "fst p \<notin> fst ` set (filter (\<lambda>p. now < ttl_ctime (snd p) + ttl) xs)" "fst p \<notin> fst ` set rest"
      using snoc.prems by auto
    ultimately show ?thesis by simp
  qed
  show ?case
  proof (cases "now < ttl_ctime (snd p) + ttl")
    case True
    note alive = this
    show ?thesis
    proof (cases "first \<or> ttl_ctime (snd p) + ttl < n")
      case True
      have "\<forall>q\<in>set xs. now < ttl_ctime (snd q) + ttl \<longrightarrow> ttl_ctime (snd p) + ttl \<le> ttl_ctime (snd q) + ttl"
        using True IH(2,3) by (cases first) (auto simp: filter_empty_conv)
      then show ?thesis using alive True IH(1) by (simp add: expire_step_apply) blast
    next
      case False
      then show ?thesis using alive IH by (simp add: expire_step_apply) blast
    qed
  next
    case False
    then show ?thesis using IH del by (simp add: expire_step_apply)
  qed
qed (simp, blast)

lemma removeExpired_props:
  assumes "ttl_inv ttl c"
  shows "ttl_entries (removeExpired now c) = filter (\<lambda>p. now < ttl_ctime (snd p) + ttl) (ttl_entries c)"
    "ttl_inv ttl (removeExpired now c)"
proof -
  have ttl: "ttl_ttl c = ttl" "0 < ttl" "ttl_keys_ok (ttl_entries c)" using assms by (simp_all add: ttl_inv_def)
  let ?f = "filter (\<lambda>p. now < ttl_ctime (snd p) + ttl) (ttl_entries c)"
  obtain first n where f: "fold (expire_step now ttl) (ttl_entries c) (ttl_entries c, True, 0) = (?f, first, n)"
    "first \<longleftrightarrow> ?f = []"
    "\<not> first \<longrightarrow> (\<forall>p\<in>set (ttl_entries c). now < ttl_ctime (snd p) + ttl \<longrightarrow> n \<le> ttl_ctime (snd p) + ttl) \<and>
      (\<exists>p\<in>set (ttl_entries c). n = ttl_ctime (snd p) + ttl)"
    using fold_expire_step [of "ttl_entries c" "[]" now ttl] ttl by (auto simp: ttl_keys_ok_def)
  show es: "ttl_entries (removeExpired now c) = ?f" by (simp add: removeExpired_def ttl f)
  have "ttl_keys_ok ?f" using ttl(3) by (auto simp: ttl_keys_ok_def distinct_map_filter)
  moreover have "n \<noteq> 0" if "\<not> first" using f(3) that ttl by (force simp: ttl_keys_ok_def)
  moreover have "ttl_nextExpiration (removeExpired now c) = (if first then 0 else n)"
    "ttl_ttl (removeExpired now c) = ttl"
    by (simp_all add: removeExpired_def ttl f)
  ultimately show "ttl_inv ttl (removeExpired now c)"
    using ttl f(2,3) unfolding ttl_inv_def es by (auto simp: filter_empty_conv)
qed

subsubsection \<open>TTLCache is a cache\<close>

lemma removeOldest_cases:
  "TTLCache_removeOldest it c = c \<or>
   (\<exists>k. TTLCache_removeOldest it c = recomputeNextExpiration (c\<lparr>ttl_entries := map_delete k (ttl_entries c)\<rparr>))"
  by (auto simp: TTLCache_removeOldest_def Let_def split: prod.splits if_splits)

lemma ttl_inv_delete:
  "ttl_inv ttl c \<Longrightarrow> ttl_inv ttl (recomputeNextExpiration (c\<lparr>ttl_entries := map_delete k (ttl_entries c)\<rparr>))"
  by (rule ttl_inv_recompute) (simp_all add: ttl_inv_def ttl_keys_ok_delete)

lemma ttl_inv_removeOldest: "ttl_inv ttl c \<Longrightarrow> ttl_inv ttl (TTLCache_removeOldest it c)"
  using removeOldest_cases [of it c] ttl_inv_delete by metis

lemma removeOldest_entries:
  "map_of (ttl_entries (TTLCache_removeOldest it c)) k = Some e \<Longrightarrow> map_of (ttl_entries c) k = Some e"
  using removeOldest_cases [of it c] by (auto simp: map_of_map_delete split: if_splits)

lemma ttl_inv_assign:
  assumes "ttl_inv ttl c" "0 \<le> now"
  shows "ttl_inv ttl
    (let c = c\<lparr>ttl_entries := map_assign key \<lparr>ttl_value = v, ttl_ctime = now\<rparr> (ttl_entries c)\<rparr> in
     if ttl_nextExpiration c = 0 \<or> now + ttl_ttl c < ttl_nextExpiration c
     then c\<lparr>ttl_nextExpiration := now + ttl_ttl c\<rparr> else c)"
proof -
  have "ttl_keys_ok (map_assign key \<lparr>ttl_value = v, ttl_ctime = now\<rparr> (ttl_entries c))"
    using assms ttl_keys_ok_delete [of "ttl_entries c" key]
    by (auto simp: ttl_inv_def ttl_keys_ok_def map_assign_def map_delete_def)
  moreover have "ttl_nextExpiration c \<noteq> 0 \<and> ttl_nextExpiration c \<le> ttl_ctime (snd p) + ttl"
    if "p \<in> set (map_delete key (ttl_entries c))" for p
    using that assms(1) by (auto simp: map_delete_def ttl_inv_def)
  ultimately show ?thesis
    using assms by (fastforce simp: ttl_inv_def Let_def map_assign_def)
qed

lemma TTLCache_Put_inv:
  assumes "ttl_inv ttl c" "0 \<le> now"
  shows "ttl_inv ttl (snd (TTLCache_Put it now key v c))"
proof -
  let ?c = "if int (length (ttl_entries c)) = ttl_maxSize c then TTLCache_removeOldest it c else c"
  have "ttl_inv ttl ?c" using assms ttl_inv_removeOldest [OF assms(1)] by simp
  from ttl_inv_assign [OF this assms(2), of key v] show ?thesis
    unfolding TTLCache_Put_def Let_def snd_conv .
qed

lemma TTLCache_Put_entries:
  "\<exists>c'. c' \<in> {c, TTLCache_removeOldest it c} \<and>
     ttl_entries (snd (TTLCache_Put it now key v c))
       = map_assign key \<lparr>ttl_value = v, ttl_ctime = now\<rparr> (ttl_entries c')"
  by (auto simp: TTLCache_Put_def Let_def)

lemma TTLCache_Get_entries:
  assumes "ttl_inv ttl c"
  shows "ttl_entries (snd (TTLCache_Get t t' k c)) =
      (if shouldRemoveExpired t c then filter (\<lambda>p. t' < ttl_ctime (snd p) + ttl) (ttl_entries c) else ttl_entries c)"
  using removeExpired_props [OF assms] by (simp add: TTLCache_Get_def Let_def)

lemma map_of_filter_alive:
  "distinct (map fst es) \<Longrightarrow>
   map_of (filter (\<lambda>p. t < ttl_ctime (snd p) + ttl) es) k =
     (case map_of es k of None \<Rightarrow> None | Some e \<Rightarrow> if t < ttl_ctime e + ttl then Some e else None)"
  by (induction es) (auto simp: map_of_eq_None_iff split: option.splits)

lemma not_due_alive:
  assumes "ttl_inv ttl c" "\<not> shouldRemoveExpired t c" "map_of (ttl_entries c) k = Some e"
  shows "t < ttl_ctime e + ttl"
  using assms map_of_SomeD [OF assms(3)] by (force simp: ttl_inv_def shouldRemoveExpired_def split: if_splits)

lemma ttl_inv_distinct: "ttl_inv ttl c \<Longrightarrow> distinct (map fst (ttl_entries c))"
  by (simp add: ttl_inv_def ttl_keys_ok_def)

lemma TTLCache_Get_value:
  assumes "ttl_inv ttl c"
  shows "fst (TTLCache_Get t t' k c) = (if shouldRemoveExpired t c then ttl_look ttl t' c k else ttl_look ttl t c k)"
  using removeExpired_props(1) [OF assms] not_due_alive [OF assms]
  by (auto simp: TTLCache_Get_def Let_def ttl_look_def map_of_filter_alive [OF ttl_inv_distinct [OF assms]]
      split: option.splits)

lemma ttl_look_mono: "t \<le> t' \<Longrightarrow> ttl_look ttl t' c k = Some v \<Longrightarrow> ttl_look ttl t c k = Some v"
  by (auto simp: ttl_look_def split: option.splits if_splits)

interpretation ttl: cache "ttl_inv ttl" "ttl_look ttl" "ttl_alive ttl" TTLCache_Get "TTLCache_Put it"
  TTLCache_Remove TTLCache_Clear for ttl it
proof
  fix c :: "'a TTLCache" and t t' u k k' v w
  assume inv: "ttl_inv ttl c"
  note d = ttl_inv_distinct [OF inv]
  obtain c' where c': "c' \<in> {c, TTLCache_removeOldest it c}"
    "ttl_entries (snd (TTLCache_Put it t k v c)) = map_assign k \<lparr>ttl_value = v, ttl_ctime = t\<rparr> (ttl_entries c')"
    using TTLCache_Put_entries [of c it t k v] by blast
  show "ttl_inv ttl (snd (TTLCache_Get t t' k c))"
    using inv removeExpired_props(2) [OF inv] by (simp add: TTLCache_Get_def Let_def)
  show "ttl_inv ttl (snd (TTLCache_Put it t k v c))" if "0 \<le> t"
    using TTLCache_Put_inv [OF inv that] .
  show "ttl_inv ttl (snd (TTLCache_Remove k c))"
    using inv ttl_inv_delete [OF inv] by (simp add: TTLCache_Remove_def)
  show "ttl_inv ttl (TTLCache_Clear c)"
    using inv by (simp add: TTLCache_Clear_def ttl_inv_def ttl_keys_ok_def)
  show "ttl_look ttl t c k = Some v" if "t \<le> t'" "fst (TTLCache_Get t t' k c) = Some v"
    using that ttl_look_mono [OF that(1)] by (auto simp: TTLCache_Get_value [OF inv] split: if_splits)
  show "fst (TTLCache_Get t t' k c) = Some v" if "ttl_look ttl t' c k = Some v"
    using that not_due_alive [OF inv, of t k]
    by (auto simp: TTLCache_Get_value [OF inv] ttl_look_def split: option.splits if_splits)
  show "ttl_look ttl u c k' = Some v" if "ttl_look ttl u (snd (TTLCache_Get t t' k c)) k' = Some v"
    using that
    by (auto simp: TTLCache_Get_entries [OF inv] ttl_look_def map_of_filter_alive [OF d] split: option.splits if_splits)
  show "ttl_look ttl u (snd (TTLCache_Put it t k v c)) k = (if ttl_alive ttl t u then Some v else None)"
    using c' by (simp add: ttl_look_def ttl_alive_def map_assign_def)
  show "ttl_look ttl u c k' = Some w" if "k' \<noteq> k" "ttl_look ttl u (snd (TTLCache_Put it t k v c)) k' = Some w"
    using that c' removeOldest_entries [of it c k']
    by (auto simp: ttl_look_def map_assign_def map_of_map_delete split: option.splits if_splits)
  show "ttl_look ttl u (snd (TTLCache_Remove k c)) k' = (if k' = k then None else ttl_look ttl u c k')"
    by (auto simp: TTLCache_Remove_def ttl_look_def map_of_map_delete)
  show "ttl_look ttl u (TTLCache_Clear c) k' = None"
    by (simp add: TTLCache_Clear_def ttl_look_def)
qed

subsection \<open>Properties\<close>

text \<open>C21: \<open>LRUCache\<close>, a map into a linked list, refines the list of pairs ordered by recency: every
  operation returns what the specification returns, leaves the list the specification
  leaves and keeps the invariant, which bounds the size.\<close>

theorem LRUCache_refines_spec:
  assumes "lru_inv c"
  shows "(fst (LRUCache_Get k c), lru_abs (snd (LRUCache_Get k c))) = spec_get k (lru_abs c) \<and>
    (fst (LRUCache_Put k v c), lru_abs (snd (LRUCache_Put k v c))) = spec_put (lru_maxSize c) k v (lru_abs c) \<and>
    (fst (LRUCache_Remove k c), lru_abs (snd (LRUCache_Remove k c))) = spec_remove k (lru_abs c) \<and>
    lru_abs (LRUCache_Clear c) = [] \<and>
    lru_inv (snd (LRUCache_Get k c)) \<and> lru_inv (snd (LRUCache_Put k v c)) \<and>
    lru_inv (snd (LRUCache_Remove k c)) \<and> lru_inv (LRUCache_Clear c)"
  using LRUCache_Get_refines [OF assms, of k] LRUCache_Put_refines [OF assms, of k v]
    LRUCache_Remove_refines [OF assms, of k] lru.clr_inv [OF assms] lru.clr_look [OF assms]
  by (simp add: LRUCache_Clear_def lru_abs_def)

theorem LRUCache_refines_spec_witness:
  "lru_inv (snd (LRUCache_Put ''a'' (1::int) \<lparr>lru_maxSize = 2, lru_entries = Map.empty, lru_order = []\<rparr>))"
proof -
  have "lru_inv \<lparr>lru_maxSize = 2, lru_entries = Map.empty, lru_order = [] :: int lruCacheEntry List\<rparr>"
    by (rule lru_invI) simp_all
  then show ?thesis using LRUCache_refines_spec [of _ "''a''" "1::int"] by simp
qed

lemma NewLRUCache_inv: "NewLRUCache n = Some c \<Longrightarrow> lru_inv c \<and> lru_look u c k = None"
  by (auto simp: NewLRUCache_def lru_inv_def lru_abs_def lru_look_def split: if_splits)

text \<open>Whatever operations ran before, a value found in an \<open>LRUCache\<close> is the one stored last under
  that key, with no \<open>Remove\<close> or \<open>Clear\<close> since.\<close>

theorem LRUCache_found_is_stored:
  assumes "NewLRUCache n = Some c" "list_all op_ok ops"
    and "fst (LRUCache_Get k (fold (cache_step lru_get lru_put LRUCache_Remove LRUCache_Clear) ops c)) = Some v"
  shows "\<exists>t. stored ops k = Some (v, t)"
  using lru.run_get [of c ops 0 0 k v] NewLRUCache_inv [OF assms(1)] assms(2,3)
  by (auto simp: lru_get_def)

theorem LRUCache_found_is_stored_witness:
  "\<exists>t. stored [PutOp 0 ''a'' (1::int), PutOp 0 ''b'' 2, PutOp 0 ''a'' 3] ''a'' = Some (3, t)"
proof -
  let ?ops = "[PutOp 0 ''a'' (1::int), PutOp 0 ''b'' 2, PutOp 0 ''a'' 3]"
  let ?c = "\<lparr>lru_maxSize = 2, lru_entries = Map.empty, lru_order = [] :: int lruCacheEntry List\<rparr>"
  have "NewLRUCache 2 = Some ?c" by (simp add: NewLRUCache_def)
  moreover have "list_all op_ok ?ops" by (simp add: op_ok_def)
  moreover have "fst (LRUCache_Get ''a'' (fold (cache_step lru_get lru_put LRUCache_Remove LRUCache_Clear) ?ops ?c)) = Some 3"
    by (simp add: cache_step_def lru_put_def LRUCache_Put_def list_PushFront_def list_fresh_def list_Value_def
        list_SetValue_def list_MoveToFront_def list_Remove_def LRUCache_Get_def)
  ultimately show ?thesis by (rule LRUCache_found_is_stored)
qed

text \<open>C22: A value found in a \<open>TTLCache\<close> is the one stored last under that key, and less than the
  time to live has passed since it was stored.\<close>

theorem TTLCache_found_is_fresh:
  assumes "NewTTLCache n ttl = Some c" "list_all op_ok ops" "now \<le> now'"
    and "fst (TTLCache_Get now now' k
      (fold (cache_step TTLCache_Get (TTLCache_Put it) TTLCache_Remove TTLCache_Clear) ops c)) = Some v"
  shows "\<exists>t. stored ops k = Some (v, t) \<and> now < t + ttl"
proof -
  have "ttl_inv ttl c \<and> (\<forall>u k. ttl_look ttl u c k = None)"
    using assms(1) by (auto simp: NewTTLCache_def ttl_inv_def ttl_look_def ttl_keys_ok_def split: if_splits)
  then show ?thesis
    using ttl.run_get [of ttl c ops now now' k it v] assms(2-4) by (auto simp: ttl_alive_def)
qed

theorem TTLCache_found_is_fresh_witness:
  "\<exists>t. stored [PutOp 5 ''a'' True] ''a'' = Some (True, t) \<and> 12 < t + 10"
proof -
  let ?c = "\<lparr>ttl_maxSize = 2, ttl_ttl = 10, ttl_nextExpiration = 0, ttl_entries = []\<rparr>"
  have "NewTTLCache 2 10 = Some ?c" by (simp add: NewTTLCache_def)
  moreover have "list_all op_ok [PutOp 5 ''a'' True]" by (simp add: op_ok_def)
  moreover have "fst (TTLCache_Get 12 13 ''a''
      (fold (cache_step TTLCache_Get (TTLCache_Put id) TTLCache_Remove TTLCache_Clear) [PutOp 5 ''a'' True] ?c)) = Some True"
    by (simp add: cache_step_def TTLCache_Put_def TTLCache_Get_def shouldRemoveExpired_def map_assign_def map_delete_def)
  ultimately show ?thesis
    using TTLCache_found_is_fresh [of 2 10 ?c "[PutOp 5 ''a'' True]" 12 13 "''a''" id True] by simp
qed

lemma fold_oldest_step:
  assumes "es \<noteq> []"
  shows "\<exists>k t. fold oldest_step es (True, [], 0) = (False, k, t) \<and> k \<in> fst ` set es"
  using assms
proof (induction es rule: rev_induct)
  case (snoc p es)
  have "oldest_step p (b, k, t) = (if b \<or> ttl_ctime (snd p) < t then (False, fst p, ttl_ctime (snd p)) else (b, k, t))"
    for b k t by (simp add: oldest_step_def)
  note step = this
  show ?case
  proof (cases "es = []")
    case False
    then obtain k t where "fold oldest_step es (True, [], 0) = (False, k, t)" "k \<in> fst ` set es"
      using snoc.IH by blast
    then show ?thesis by (cases "ttl_ctime (snd p) < t") (simp_all add: step)
  qed (simp add: step)
qed simp

text \<open>The size never exceeds the maximum, in whatever order Go ranges over the map.\<close>

theorem TTLCache_bounded:
  assumes "0 < ttl_maxSize c" "int (length (ttl_entries c)) \<le> ttl_maxSize c"
    and "\<And>es. set (it es) = set es"
  shows "int (length (ttl_entries (snd (TTLCache_Put it now k v c)))) \<le> ttl_maxSize c"
proof (cases "int (length (ttl_entries c)) = ttl_maxSize c")
  case True
  then have "it (ttl_entries c) \<noteq> []" using assms(1) assms(3) [of "ttl_entries c"] by auto
  then obtain k' t where k': "fold oldest_step (it (ttl_entries c)) (True, [], 0) = (False, k', t)"
    "k' \<in> fst ` set (ttl_entries c)"
    using fold_oldest_step assms(3) by metis
  then obtain p where p: "p \<in> set (ttl_entries c)" "fst p = k'" by blast
  have "length (map_delete k' (ttl_entries c)) < length (ttl_entries c)"
    unfolding map_delete_def using p by (intro length_filter_less [of p]) auto
  then have "int (length (ttl_entries (TTLCache_removeOldest it c))) < ttl_maxSize c"
    using True k'(1) by (simp add: TTLCache_removeOldest_def)
  moreover have "length (map_delete k (ttl_entries (TTLCache_removeOldest it c)))
      \<le> length (ttl_entries (TTLCache_removeOldest it c))"
    by (simp add: map_delete_def)
  ultimately show ?thesis using True by (auto simp: TTLCache_Put_def Let_def map_assign_def)
next
  case False
  have "length (map_delete k (ttl_entries c)) \<le> length (ttl_entries c)" by (simp add: map_delete_def)
  then show ?thesis using False assms(2) by (auto simp: TTLCache_Put_def Let_def map_assign_def)
qed

theorem TTLCache_bounded_witness:
  "int (length (ttl_entries (snd (TTLCache_Put id 7 ''b'' False
     \<lparr>ttl_maxSize = 1, ttl_ttl = 10, ttl_nextExpiration = 15,
      ttl_entries = [(''a'', \<lparr>ttl_value = True, ttl_ctime = 5\<rparr>)]\<rparr>)))) \<le> 1"
  using TTLCache_bounded [of "\<lparr>ttl_maxSize = 1, ttl_ttl = 10, ttl_nextExpiration = 15,
      ttl_entries = [(''a'', \<lparr>ttl_value = True, ttl_ctime = 5\<rparr>)]\<rparr>" id 7 "''b''" False] by simp

text \<open>Replacing the value of a key of a full \<open>TTLCache\<close> evicts the oldest entry all the same,
  though no room is needed: here \<open>Put\<close> of \<open>b\<close>, which is present, drops \<open>a\<close>.\<close>

theorem TTLCache_Put_replace_evicts:
  "map fst (ttl_entries (snd (TTLCache_Put id 9 ''b'' (3::int)
     \<lparr>ttl_maxSize = 2, ttl_ttl = 100, ttl_nextExpiration = 101,
      ttl_entries = [(''a'', \<lparr>ttl_value = 1, ttl_ctime = 1\<rparr>), (''b'', \<lparr>ttl_value = 2, ttl_ctime = 2\<rparr>)]\<rparr>))) = [''b'']"
  by (simp add: TTLCache_Put_def TTLCache_removeOldest_def oldest_step_def map_delete_def map_assign_def
      recomputeNextExpiration_def next_step_def Let_def)

end
