(* ===== verification/Naming_Iterator.thy ===== *)
theory Naming_Iterator
  imports Naming_EZ Caches "HOL-Library.Multiset"
begin

text \<open>
  The order in which connection attempts are made: address resolution
  (\<open>internal/driver/network/naming/resolve.go\<close>), the cache of unreachable hosts
  (\<open>down_hosts_cache.go\<close>) and \<open>ConnectionIterator\<close> (\<open>iterator.go\<close>).

  What the code gets from outside is an argument: \<open>net.ParseIP\<close> and the DNS lookup, whether
  the caller's context is done, the permutation that \<open>rng.Shuffle\<close> makes, and what the cache of
  unreachable hosts answers for an address while a list is reordered. The environment of the retry
  cycle \<open>c\<close> of the description \<open>i\<close> is \<open>env i c\<close>.
\<close>

subsection \<open>Resolution\<close>

text \<open>\<open>resolveAddressWithLookup\<close>; an IP address is its text.\<close>

definition resolveAddress ::
  "go_error option \<Rightarrow> (string \<Rightarrow> bool) \<Rightarrow> (string \<Rightarrow> string list result) \<Rightarrow> Address \<Rightarrow> Address list result" where
  "resolveAddress ctxErr isIP lookupIPAddr address =
     (case ctxErr of
        Some err \<Rightarrow> Inl err
      | None \<Rightarrow>
          if isIP (Host address) then Inr [address\<lparr>ResolvedIP := Host address\<rparr>]
          else case lookupIPAddr (Host address) of
                 Inl err \<Rightarrow> Inr [address]
               | Inr ips \<Rightarrow>
                   if ips = [] then Inr [address]
                   else Inr (map (\<lambda>ip. address\<lparr>ResolvedIP := ip\<rparr>) ips))"

subsection \<open>Unreachable hosts\<close>

definition MarkDownHost ::
  "((string \<times> unit ttlCacheEntry) list \<Rightarrow> (string \<times> unit ttlCacheEntry) list) \<Rightarrow> int \<Rightarrow> string \<Rightarrow>
   unit TTLCache \<Rightarrow> unit TTLCache" where
  "MarkDownHost it now key c = snd (TTLCache_Put it now key () c)"

definition host_key :: "Address \<Rightarrow> string" where
  "host_key a = (if ResolvedIP a = [] then Host a else ResolvedIP a)"

definition isDownHost :: "int \<Rightarrow> int \<Rightarrow> Address \<Rightarrow> unit TTLCache \<Rightarrow> bool \<times> unit TTLCache" where
  "isDownHost now now' address c =
     (let (v, c') = TTLCache_Get now now' (host_key address) c in (v \<noteq> None, c'))"

text \<open>The two passes over the items; \<open>last\<close> holds the answers of the first one.\<close>

definition stablePartition :: "('a \<Rightarrow> bool) \<Rightarrow> 'a list \<Rightarrow> 'a list" where
  "stablePartition isLast items =
     (if length items < 2 then items
      else let last = map isLast items;
               ordered = map fst (filter (\<lambda>p. \<not> snd p) (zip items last))
           in ordered @ map fst (filter snd (zip items last)))"

definition roundRobin :: "'a list \<Rightarrow> 'a list" where
  "roundRobin addresses = (if length addresses < 2 then addresses else tl addresses @ [hd addresses])"

subsection \<open>The iterator\<close>

record ConnectionOption =
  opt_Address :: Address
  opt_Description :: "Description option"
  opt_ConnectData :: ConnectData
  opt_ConnectDataNode :: "Node option"
  opt_ConnectDataStr :: string
  opt_ConnectString :: string

record DescriptionAttempts =
  da_Description :: "Description option"
  da_DescriptionNode :: "Node option"
  da_Addresses :: "Address list"
  da_ConnectDataNode :: Node
  da_ConnectDataStr :: string
  da_RetryCount :: int
  da_RetryDelay :: int
  CurrentCycle :: int
  CurrentAddrIndex :: nat

record ConnectionIterator =
  ci_rootNode :: "Node option"
  ci_context :: ConnectionContext
  descAttempts :: "DescriptionAttempts list"
  currentDescIndex :: nat
  exhausted :: bool

text \<open>What one retry cycle, or one list being built or reset, meets.\<close>

record cycle_env =
  ctx_done :: bool
  shuffle :: "Address list \<Rightarrow> Address list"
  down :: "Address \<Rightarrow> bool"

definition shuffleAddresses :: "cycle_env \<Rightarrow> Address list \<Rightarrow> Address list" where
  "shuffleAddresses e as = shuffle e as"

definition reorderAddressesByDownHostStatus :: "cycle_env \<Rightarrow> Address list \<Rightarrow> Address list" where
  "reorderAddressesByDownHostStatus e as = stablePartition (down e) as"

definition all_down :: "(Address \<Rightarrow> bool) \<Rightarrow> DescriptionAttempts \<Rightarrow> bool" where
  "all_down dn a = (if da_Addresses a = [] then False else list_all dn (da_Addresses a))"

definition reorderDescriptionsByDownHostStatus ::
  "(Address \<Rightarrow> bool) \<Rightarrow> DescriptionAttempts list \<Rightarrow> DescriptionAttempts list" where
  "reorderDescriptionsByDownHostStatus dn attempts = stablePartition (all_down dn) attempts"

subsubsection \<open>Connect strings\<close>

definition address_node :: "Address \<Rightarrow> Node" where
  "address_node addr =
     (let host = host_key addr in
      Node ''ADDRESS'' []
       ([Node ''PROTOCOL'' (Protocol_String (Protocol addr)) [], Node ''HOST'' host [],
         Node ''PORT'' (FormatInt (Port addr)) []] @
        (if HTTPSProxy addr \<noteq> []
         then Node ''HTTPS_PROXY'' (HTTPSProxy addr) [] #
              (if HTTPSProxyPort addr \<noteq> 0 then [Node ''HTTPS_PROXY_PORT'' (FormatInt (HTTPSProxyPort addr)) []] else [])
         else [])))"

definition buildConnectString :: "Address \<Rightarrow> Node \<Rightarrow> string" where
  "buildConnectString addr connectDataNode =
     ToString (Node ''DESCRIPTION'' [] [address_node addr, connectDataNode])"

definition buildDescriptionWithAddress :: "Address \<Rightarrow> string" where
  "buildDescriptionWithAddress addr = ToString (Node ''DESCRIPTION'' [] [address_node addr])"

definition buildOptionFromDesc :: "DescriptionAttempts \<Rightarrow> ConnectionOption" where
  "buildOptionFromDesc desc =
     (let addr = da_Addresses desc ! CurrentAddrIndex desc in
      case da_Description desc of
        None \<Rightarrow> \<lparr>opt_Address = addr, opt_Description = None, opt_ConnectData = zero_ConnectData,
                 opt_ConnectDataNode = None, opt_ConnectDataStr = [],
                 opt_ConnectString = buildDescriptionWithAddress addr\<rparr>
      | Some d \<Rightarrow> \<lparr>opt_Address = addr, opt_Description = Some d, opt_ConnectData = desc_ConnectData d,
                   opt_ConnectDataNode = Some (da_ConnectDataNode desc), opt_ConnectDataStr = da_ConnectDataStr desc,
                   opt_ConnectString = buildConnectString addr (da_ConnectDataNode desc)\<rparr>)"

subsubsection \<open>Iterating\<close>

definition load_balanced :: "DescriptionAttempts \<Rightarrow> bool" where
  "load_balanced desc = (case da_Description desc of None \<Rightarrow> False | Some d \<Rightarrow> LoadBalance d)"

text \<open>Starting the next retry cycle of a description.\<close>

definition new_cycle :: "cycle_env \<Rightarrow> DescriptionAttempts \<Rightarrow> DescriptionAttempts" where
  "new_cycle e desc =
     (let cycle = CurrentCycle desc + 1;
          as = (if load_balanced desc
                then (if cycle < 1 then shuffleAddresses e (da_Addresses desc) else roundRobin (da_Addresses desc))
                else da_Addresses desc)
      in desc\<lparr>CurrentCycle := cycle, CurrentAddrIndex := 0, da_Addresses := reorderAddressesByDownHostStatus e as\<rparr>)"

function Next_loop :: "(nat \<Rightarrow> int \<Rightarrow> cycle_env) \<Rightarrow> ConnectionIterator \<Rightarrow> ConnectionOption option \<times> ConnectionIterator" where
  "Next_loop env ci =
     (if currentDescIndex ci < length (descAttempts ci) then
        (let i = currentDescIndex ci; desc = descAttempts ci ! i; e = env i (CurrentCycle desc + 1) in
         if CurrentAddrIndex desc < length (da_Addresses desc) then
           (Some (buildOptionFromDesc desc),
            ci\<lparr>descAttempts := (descAttempts ci)[i := desc\<lparr>CurrentAddrIndex := CurrentAddrIndex desc + 1\<rparr>]\<rparr>)
         else if CurrentCycle desc < da_RetryCount desc then
           (if da_RetryDelay desc > 0 \<and> ctx_done e then (None, ci\<lparr>exhausted := True\<rparr>)
            else Next_loop env (ci\<lparr>descAttempts := (descAttempts ci)[i := new_cycle e desc]\<rparr>))
         else Next_loop env (ci\<lparr>currentDescIndex := i + 1\<rparr>))
      else (None, ci\<lparr>exhausted := True\<rparr>))"
  by pat_completeness auto
termination
proof (relation "measures [\<lambda>(env, ci). length (descAttempts ci) - currentDescIndex ci,
    \<lambda>(env, ci). nat (da_RetryCount (descAttempts ci ! currentDescIndex ci) - CurrentCycle (descAttempts ci ! currentDescIndex ci))]",
    goal_cases)
  case (2 env ci i desc e)
  then show ?case by (simp add: new_cycle_def Let_def)
qed auto

definition Next :: "(nat \<Rightarrow> int \<Rightarrow> cycle_env) \<Rightarrow> ConnectionIterator \<Rightarrow> ConnectionOption option \<times> ConnectionIterator" where
  "Next env ci = (if exhausted ci then (None, ci) else Next_loop env ci)"

declare Next_loop.simps [simp del]

fun HasNext_loop :: "nat \<Rightarrow> DescriptionAttempts list \<Rightarrow> bool" where
  "HasNext_loop k [] = False"
| "HasNext_loop k (desc # ds) =
     (if k = 0 then
        (if CurrentAddrIndex desc < length (da_Addresses desc) then True
         else if CurrentCycle desc < da_RetryCount desc then True else HasNext_loop (k + 1) ds)
      else if da_Addresses desc \<noteq> [] then True else HasNext_loop (k + 1) ds)"

definition HasNext :: "ConnectionIterator \<Rightarrow> bool \<times> ConnectionIterator" where
  "HasNext ci =
     (if exhausted ci then (False, ci)
      else if HasNext_loop 0 (drop (currentDescIndex ci) (descAttempts ci)) then (True, ci)
      else (False, ci\<lparr>exhausted := True\<rparr>))"

definition Reset_desc :: "cycle_env \<Rightarrow> DescriptionAttempts \<Rightarrow> DescriptionAttempts" where
  "Reset_desc e desc =
     (let as = (if load_balanced desc then shuffleAddresses e (da_Addresses desc) else da_Addresses desc)
      in desc\<lparr>CurrentCycle := 0, CurrentAddrIndex := 0, da_Addresses := reorderAddressesByDownHostStatus e as\<rparr>)"

definition iterator_Reset :: "(nat \<Rightarrow> cycle_env) \<Rightarrow> (Address \<Rightarrow> bool) \<Rightarrow> ConnectionIterator \<Rightarrow> ConnectionIterator" where
  "iterator_Reset env dn ci =
     (let ds = map (\<lambda>i. Reset_desc (env i) (descAttempts ci ! i)) [0..<length (descAttempts ci)]
      in ci\<lparr>currentDescIndex := 0, exhausted := False, descAttempts := reorderDescriptionsByDownHostStatus dn ds\<rparr>)"

text \<open>The loops of \<open>Remaining\<close> and \<open>Total\<close> are sums.\<close>

definition desc_total :: "DescriptionAttempts \<Rightarrow> int" where
  "desc_total desc = int (length (da_Addresses desc)) * (da_RetryCount desc + 1)"

definition desc_remaining :: "DescriptionAttempts \<Rightarrow> int" where
  "desc_remaining desc = int (length (da_Addresses desc)) - int (CurrentAddrIndex desc) +
     int (length (da_Addresses desc)) * (da_RetryCount desc - CurrentCycle desc)"

definition iterator_Remaining :: "ConnectionIterator \<Rightarrow> int" where
  "iterator_Remaining ci =
     (if exhausted ci then 0
      else case drop (currentDescIndex ci) (descAttempts ci) of
             [] \<Rightarrow> 0
           | desc # ds \<Rightarrow> desc_remaining desc + sum_list (map desc_total ds))"

definition Total :: "ConnectionIterator \<Rightarrow> int" where
  "Total ci = sum_list (map desc_total (descAttempts ci))"

subsubsection \<open>Building the attempts\<close>

definition collectAllAddresses :: "Description \<Rightarrow> Address list" where
  "collectAllAddresses desc = concat (map al_Addresses (AddressLists desc)) @ Addresses desc"

definition extractConnectDataNode :: "Node option \<Rightarrow> Node" where
  "extractConnectDataNode descNode =
     (case descNode of
        None \<Rightarrow> Node ''CONNECT_DATA'' [] []
      | Some n \<Rightarrow>
          (case GetNode n ''DESCRIPTION/CONNECT_DATA'' of
             Inr m \<Rightarrow> m
           | Inl e \<Rightarrow> (case find_child n ''CONNECT_DATA'' of Some m \<Rightarrow> m | None \<Rightarrow> Node ''CONNECT_DATA'' [] [])))"

text \<open>Resolution stops at the first address for which the context is done.\<close>

fun resolve_all :: "(Address \<Rightarrow> Address list result) \<Rightarrow> Address list \<Rightarrow> Address list" where
  "resolve_all res [] = []"
| "resolve_all res (a # as) = (case res a of Inl e \<Rightarrow> [] | Inr xs \<Rightarrow> xs @ resolve_all res as)"

definition buildFromDescription ::
  "(Address \<Rightarrow> Address list result) \<Rightarrow> cycle_env \<Rightarrow> Description \<Rightarrow> Node option \<Rightarrow> DescriptionAttempts option" where
  "buildFromDescription res e desc descNode =
     (let addresses = collectAllAddresses desc in
      if addresses = [] then None
      else let resolved = resolve_all res addresses in
        if resolved = [] then None
        else let resolved = (if LoadBalance desc then shuffleAddresses e resolved else resolved);
                 resolved = (if \<not> Failover desc then take 1 resolved else resolved);
                 connectDataNode = extractConnectDataNode descNode
             in Some \<lparr>da_Description = Some desc, da_DescriptionNode = descNode,
                      da_Addresses = reorderAddressesByDownHostStatus e resolved,
                      da_ConnectDataNode = connectDataNode, da_ConnectDataStr = ToString connectDataNode,
                      da_RetryCount = RetryCount desc,
                      da_RetryDelay = swrap 64 (RetryDelay desc * 1000000000),
                      CurrentCycle = 0, CurrentAddrIndex = 0\<rparr>)"

definition buildFromAddresses ::
  "(Address \<Rightarrow> Address list result) \<Rightarrow> cycle_env \<Rightarrow> Address list \<Rightarrow> DescriptionAttempts list" where
  "buildFromAddresses res e addresses =
     (if addresses = [] then []
      else let resolved = resolve_all res addresses in
        if resolved = [] then []
        else [\<lparr>da_Description = None, da_DescriptionNode = None,
               da_Addresses = reorderAddressesByDownHostStatus e resolved,
               da_ConnectDataNode = Node ''CONNECT_DATA'' [] [], da_ConnectDataStr = [],
               da_RetryCount = 0, da_RetryDelay = 0, CurrentCycle = 0, CurrentAddrIndex = 0\<rparr>])"

definition findDescriptionNode :: "Node option \<Rightarrow> nat \<Rightarrow> Node option" where
  "findDescriptionNode rootNode index =
     (case rootNode of
        None \<Rightarrow> None
      | Some r \<Rightarrow>
          if Name r \<noteq> ''DESCRIPTION_LIST'' then None
          else let ds = filter (\<lambda>c. Name c = ''DESCRIPTION'') (Children r) in
               if index < length ds then Some (ds ! index) else None)"

text \<open>\<open>shuffleIdx\<close> is the permutation \<open>shuffleIndices\<close> makes.\<close>

definition buildFromDescriptionList ::
  "(Address \<Rightarrow> Address list result) \<Rightarrow> (nat \<Rightarrow> cycle_env) \<Rightarrow> (nat list \<Rightarrow> nat list) \<Rightarrow> (Address \<Rightarrow> bool) \<Rightarrow>
   Node option \<Rightarrow> DescriptionList \<Rightarrow> DescriptionAttempts list" where
  "buildFromDescriptionList res env shuffleIdx dn rootNode dl =
     (if Descriptions dl = [] then []
      else let indices = [0..<length (Descriptions dl)];
               indices = (if dl_LoadBalance dl then shuffleIdx indices else indices);
               indices = (if \<not> dl_Failover dl then take 1 indices else indices);
               attempts = List.map_filter (\<lambda>idx. case findDescriptionNode rootNode idx of
                   None \<Rightarrow> None
                 | Some descNode \<Rightarrow> buildFromDescription res (env idx) (Descriptions dl ! idx) (Some descNode)) indices
           in reorderDescriptionsByDownHostStatus dn attempts)"

definition buildDescriptionAttempts ::
  "(Address \<Rightarrow> Address list result) \<Rightarrow> (nat \<Rightarrow> cycle_env) \<Rightarrow> (nat list \<Rightarrow> nat list) \<Rightarrow> (Address \<Rightarrow> bool) \<Rightarrow>
   Node option \<Rightarrow> ConnectionContext \<Rightarrow> DescriptionAttempts list" where
  "buildDescriptionAttempts res env shuffleIdx dn rootNode ctx =
     (case ctx_DescriptionList ctx of
        Some dl \<Rightarrow> buildFromDescriptionList res env shuffleIdx dn rootNode dl
      | None \<Rightarrow>
          (case ctx_Description ctx of
             Some d \<Rightarrow> (case buildFromDescription res (env 0) d rootNode of None \<Rightarrow> [] | Some a \<Rightarrow> [a])
           | None \<Rightarrow> if ctx_Addresses ctx \<noteq> [] then buildFromAddresses res (env 0) (ctx_Addresses ctx) else []))"

definition NewConnectionIterator ::
  "(Address \<Rightarrow> Address list result) \<Rightarrow> (nat \<Rightarrow> cycle_env) \<Rightarrow> (nat list \<Rightarrow> nat list) \<Rightarrow> (Address \<Rightarrow> bool) \<Rightarrow>
   Node option \<Rightarrow> ConnectionContext \<Rightarrow> ConnectionIterator" where
  "NewConnectionIterator res env shuffleIdx dn rootNode ctx =
     \<lparr>ci_rootNode = rootNode, ci_context = ctx,
      descAttempts = buildDescriptionAttempts res env shuffleIdx dn rootNode ctx,
      currentDescIndex = 0, exhausted = False\<rparr>"

subsection \<open>Reordering\<close>

lemma filter_zip_map:
  "map fst (filter (\<lambda>p. \<not> snd p) (zip xs (map f xs))) = filter (\<lambda>x. \<not> f x) xs"
  "map fst (filter snd (zip xs (map f xs))) = filter f xs"
  by (induction xs) simp_all

lemma stablePartition_filter: "stablePartition p xs = filter (\<lambda>x. \<not> p x) xs @ filter p xs"
proof (cases "length xs < 2")
  case True
  then show ?thesis by (cases xs; cases "tl xs") (auto simp: stablePartition_def)
next
  case False
  then show ?thesis by (simp add: stablePartition_def Let_def filter_zip_map)
qed

lemma mset_stablePartition [simp]: "mset (stablePartition p xs) = mset xs"
  by (simp add: stablePartition_filter)

lemma length_stablePartition [simp]: "length (stablePartition p xs) = length xs"
  by (metis mset_stablePartition size_mset)

lemma set_stablePartition [simp]: "set (stablePartition p xs) = set xs"
  by (metis mset_stablePartition set_mset_mset)

text \<open>The reordering by down-host status is a stable partition: nothing is lost or duplicated,
  the items that match come last, and both groups keep their order.\<close>

theorem stablePartition_stable:
  "stablePartition p xs = filter (\<lambda>x. \<not> p x) xs @ filter p xs \<and> mset (stablePartition p xs) = mset xs"
  by (simp add: stablePartition_filter [symmetric])

lemma mset_roundRobin [simp]: "mset (roundRobin xs) = mset xs"
  by (cases xs) (simp_all add: roundRobin_def)

subsection \<open>The attempts that are left\<close>

definition desc_ok :: "DescriptionAttempts \<Rightarrow> bool" where
  "desc_ok d \<longleftrightarrow> da_Addresses d \<noteq> [] \<and> 0 \<le> CurrentCycle d \<and> CurrentCycle d \<le> da_RetryCount d \<and>
     CurrentAddrIndex d \<le> length (da_Addresses d)"

definition fresh_desc :: "DescriptionAttempts \<Rightarrow> bool" where
  "fresh_desc d \<longleftrightarrow> da_Addresses d \<noteq> [] \<and> 0 \<le> da_RetryCount d \<and> CurrentCycle d = 0 \<and> CurrentAddrIndex d = 0"

text \<open>The current description is in a retry cycle, those after it have not been started.\<close>

definition iter_ok :: "ConnectionIterator \<Rightarrow> bool" where
  "iter_ok ci \<longleftrightarrow>
     (case drop (currentDescIndex ci) (descAttempts ci) of
        [] \<Rightarrow> True | d # ds \<Rightarrow> desc_ok d \<and> list_all fresh_desc ds)"

definition desc_pending :: "DescriptionAttempts \<Rightarrow> Address multiset" where
  "desc_pending d = mset (drop (CurrentAddrIndex d) (da_Addresses d)) +
     repeat_mset (nat (da_RetryCount d - CurrentCycle d)) (mset (da_Addresses d))"

definition desc_all :: "DescriptionAttempts \<Rightarrow> Address multiset" where
  "desc_all d = repeat_mset (nat (da_RetryCount d + 1)) (mset (da_Addresses d))"

definition pending_descs :: "DescriptionAttempts list \<Rightarrow> Address multiset" where
  "pending_descs ds = (case ds of [] \<Rightarrow> {#} | d # ds \<Rightarrow> desc_pending d + sum_list (map desc_all ds))"

definition pending :: "ConnectionIterator \<Rightarrow> Address multiset" where
  "pending ci = (if exhausted ci then {#} else pending_descs (drop (currentDescIndex ci) (descAttempts ci)))"

definition env_ok :: "(nat \<Rightarrow> int \<Rightarrow> cycle_env) \<Rightarrow> bool" where
  "env_ok env \<longleftrightarrow> (\<forall>i c. \<not> ctx_done (env i c) \<and> (\<forall>xs. mset (shuffle (env i c) xs) = mset xs))"

lemma fresh_desc_ok: "fresh_desc d \<Longrightarrow> desc_ok d"
  by (auto simp: fresh_desc_def desc_ok_def)

lemma fresh_desc_pending: "fresh_desc d \<Longrightarrow> desc_pending d = desc_all d"
  by (simp add: fresh_desc_def desc_pending_def desc_all_def nat_add_distrib)

lemma mset_new_cycle [simp]:
  assumes "env_ok env"
  shows "mset (da_Addresses (new_cycle (env i c) d)) = mset (da_Addresses d)"
  using assms
  by (simp add: new_cycle_def Let_def reorderAddressesByDownHostStatus_def shuffleAddresses_def env_ok_def)

lemma new_cycle_simps [simp]:
  "CurrentCycle (new_cycle e d) = CurrentCycle d + 1" "CurrentAddrIndex (new_cycle e d) = 0"
  "da_RetryCount (new_cycle e d) = da_RetryCount d"
  by (simp_all add: new_cycle_def Let_def)

lemma new_cycle_pending:
  assumes "env_ok env" "desc_ok d" "CurrentAddrIndex d = length (da_Addresses d)" "CurrentCycle d < da_RetryCount d"
  shows "desc_ok (new_cycle (env i c) d) \<and> desc_pending (new_cycle (env i c) d) = desc_pending d"
proof -
  have "da_Addresses (new_cycle (env i c) d) \<noteq> []"
    using assms by (metis desc_ok_def mset_new_cycle mset_zero_iff)
  moreover have "nat (da_RetryCount d - CurrentCycle d) = Suc (nat (da_RetryCount d - (CurrentCycle d + 1)))"
    using assms(4) by simp
  ultimately show ?thesis
    using assms by (simp add: desc_ok_def desc_pending_def)
qed

lemma drop_update_current:
  "i < length ds \<Longrightarrow> drop i (ds[i := d]) = d # drop (Suc i) ds"
  by (metis Cons_nth_drop_Suc drop_update_cancel length_list_update lessI nth_list_update_eq)

lemma desc_step_pending:
  assumes "desc_ok d" "CurrentAddrIndex d < length (da_Addresses d)"
  shows "desc_ok (d\<lparr>CurrentAddrIndex := CurrentAddrIndex d + 1\<rparr>) \<and>
    desc_pending d = add_mset (opt_Address (buildOptionFromDesc d)) (desc_pending (d\<lparr>CurrentAddrIndex := CurrentAddrIndex d + 1\<rparr>))"
proof -
  have "opt_Address (buildOptionFromDesc d) = da_Addresses d ! CurrentAddrIndex d"
    by (simp add: buildOptionFromDesc_def Let_def split: option.splits)
  moreover have "drop (CurrentAddrIndex d) (da_Addresses d)
      = da_Addresses d ! CurrentAddrIndex d # drop (CurrentAddrIndex d + 1) (da_Addresses d)"
    using assms(2) by (simp add: Cons_nth_drop_Suc)
  ultimately show ?thesis using assms by (simp add: desc_ok_def desc_pending_def)
qed

text \<open>What one call does: an attempt is taken out of those that are left, or there are none.\<close>

definition takes_one :: "ConnectionIterator \<Rightarrow> ConnectionOption option \<times> ConnectionIterator \<Rightarrow> bool" where
  "takes_one ci r \<longleftrightarrow>
     (case r of
        (Some opt, ci') \<Rightarrow> iter_ok ci' \<and> \<not> exhausted ci' \<and> pending ci = add_mset (opt_Address opt) (pending ci')
      | (None, ci') \<Rightarrow> exhausted ci' \<and> pending ci = {#})"

lemma takes_one_cong: "takes_one ci' r \<Longrightarrow> pending ci = pending ci' \<Longrightarrow> takes_one ci r"
  by (auto simp: takes_one_def split: prod.splits option.splits)

lemma Next_loop_takes_one:
  "env_ok env \<Longrightarrow> iter_ok ci \<Longrightarrow> \<not> exhausted ci \<Longrightarrow> takes_one ci (Next_loop env ci)"
proof (induction env ci rule: Next_loop.induct)
  case (1 env ci)
  note IH1 = "1.IH"(1) and IH2 = "1.IH"(2) and env = "1.prems"(1)
  let ?i = "currentDescIndex ci"
  show ?case
  proof (cases "?i < length (descAttempts ci)")
    case False
    then show ?thesis using 1 by (simp add: Next_loop.simps takes_one_def pending_def pending_descs_def)
  next
    case True
    let ?d = "descAttempts ci ! ?i" and ?rest = "drop (Suc ?i) (descAttempts ci)"
    let ?e = "env ?i (CurrentCycle ?d + 1)"
    have drop: "drop ?i (descAttempts ci) = ?d # ?rest"
      using True by (simp add: Cons_nth_drop_Suc)
    then have ok: "desc_ok ?d" "list_all fresh_desc ?rest"
      using "1.prems"(2) by (simp_all add: iter_ok_def)
    consider (addr) "CurrentAddrIndex ?d < length (da_Addresses ?d)"
      | (cycle) "CurrentAddrIndex ?d = length (da_Addresses ?d)" "CurrentCycle ?d < da_RetryCount ?d"
      | (over) "CurrentAddrIndex ?d = length (da_Addresses ?d)" "CurrentCycle ?d = da_RetryCount ?d"
      using ok(1) by (fastforce simp: desc_ok_def)
    then show ?thesis
    proof cases
      case addr
      then show ?thesis
        using True desc_step_pending [OF ok(1) addr] ok(2) "1.prems"(3)
        by (simp add: Next_loop.simps takes_one_def iter_ok_def pending_def drop drop_update_current
            pending_descs_def Let_def)
    next
      case cycle
      let ?ci = "ci\<lparr>descAttempts := (descAttempts ci)[?i := new_cycle ?e ?d]\<rparr>"
      note nc = new_cycle_pending [OF env ok(1) cycle, of ?i "CurrentCycle ?d + 1"]
      have dr: "drop ?i (descAttempts ?ci) = new_cycle ?e ?d # ?rest" using True by (simp add: drop_update_current)
      have "takes_one ?ci (Next_loop env ?ci)"
        using IH1 [OF True refl refl refl _ cycle(2)] cycle(1) env nc ok(2) "1.prems"(3) dr
        by (simp add: iter_ok_def env_ok_def)
      moreover have "pending ci = pending ?ci"
        using nc dr "1.prems"(3) by (simp add: pending_def pending_descs_def drop)
      moreover have "Next_loop env ci = Next_loop env ?ci"
        using True cycle env by (subst Next_loop.simps) (simp add: Let_def env_ok_def)
      ultimately show ?thesis using takes_one_cong by metis
    next
      case over
      let ?ci = "ci\<lparr>currentDescIndex := ?i + 1\<rparr>"
      have "iter_ok ?ci"
        using ok(2) by (cases ?rest) (simp_all add: iter_ok_def fresh_desc_ok)
      then have "takes_one ?ci (Next_loop env ?ci)"
        using IH2 [OF True refl refl refl] over env "1.prems"(3) by simp
      moreover have "pending ci = pending ?ci"
        using ok(2) over "1.prems"(3)
        by (cases ?rest) (simp_all add: pending_def pending_descs_def drop desc_pending_def [of ?d] fresh_desc_pending)
      moreover have "Next_loop env ci = Next_loop env ?ci"
        using True over by (subst Next_loop.simps) (simp add: Let_def)
      ultimately show ?thesis using takes_one_cong by metis
    qed
  qed
qed

lemma Next_takes_one: "env_ok env \<Longrightarrow> iter_ok ci \<Longrightarrow> \<not> exhausted ci \<Longrightarrow> takes_one ci (Next env ci)"
  by (simp add: Next_def Next_loop_takes_one)

subsection \<open>Counting\<close>

lemma size_desc_pending: "desc_ok d \<Longrightarrow> int (size (desc_pending d)) = desc_remaining d"
  by (simp add: desc_ok_def desc_pending_def desc_remaining_def of_nat_diff algebra_simps)

lemma size_desc_all: "fresh_desc d \<Longrightarrow> int (size (desc_all d)) = desc_total d"
  by (simp add: fresh_desc_def desc_all_def desc_total_def)

lemma size_all_descs:
  "list_all fresh_desc ds \<Longrightarrow> int (size (sum_list (map desc_all ds))) = sum_list (map desc_total ds)"
  by (induction ds) (simp_all add: size_desc_all)

lemma size_pending: "iter_ok ci \<Longrightarrow> int (size (pending ci)) = iterator_Remaining ci"
  by (auto simp: iter_ok_def pending_def iterator_Remaining_def pending_descs_def size_desc_pending size_all_descs
      split: list.splits)

lemma HasNext_remaining:
  assumes "iter_ok ci" "\<not> exhausted ci"
  shows "fst (HasNext ci) \<longleftrightarrow> pending ci \<noteq> {#}"
proof (cases "drop (currentDescIndex ci) (descAttempts ci)")
  case Nil
  then show ?thesis using assms by (simp add: HasNext_def pending_def pending_descs_def)
next
  case (Cons d ds)
  have ok: "desc_ok d" "list_all fresh_desc ds" using assms Cons by (simp_all add: iter_ok_def)
  have later: "HasNext_loop (Suc k) ds \<longleftrightarrow> ds \<noteq> []" for k
    using ok(2) by (cases ds) (simp_all add: fresh_desc_def)
  have "sum_list (map desc_all ds) = {#} \<longleftrightarrow> ds = []"
    using ok(2) by (cases ds) (auto simp: fresh_desc_def desc_all_def repeat_mset_eq_empty_iff)
  moreover have "desc_pending d = {#} \<longleftrightarrow>
      \<not> CurrentAddrIndex d < length (da_Addresses d) \<and> \<not> CurrentCycle d < da_RetryCount d"
    using ok(1) by (auto simp: desc_ok_def desc_pending_def repeat_mset_eq_empty_iff)
  ultimately show ?thesis
    using assms(2) Cons later [of 0] by (simp add: HasNext_def pending_def pending_descs_def)
qed


definition plain_env :: cycle_env where
  "plain_env = \<lparr>ctx_done = False, shuffle = id, down = (\<lambda>a. False)\<rparr>"

definition demo_iterator :: ConnectionIterator where
  "demo_iterator = \<lparr>ci_rootNode = None, ci_context = empty_context,
     descAttempts = [\<lparr>da_Description = None, da_DescriptionNode = None, da_Addresses = [NewAddress],
       da_ConnectDataNode = Node ''CONNECT_DATA'' [] [], da_ConnectDataStr = [], da_RetryCount = 1, da_RetryDelay = 0,
       CurrentCycle = 0, CurrentAddrIndex = 1\<rparr>], currentDescIndex = 0, exhausted = False\<rparr>"


subsection \<open>A new iterator\<close>

lemma resolved_perm:
  assumes "\<And>xs. mset (shuffle e xs) = mset xs"
  shows "shuffle e xs = [] \<longleftrightarrow> xs = []"
  using assms [of xs] by (metis mset_zero_iff)

lemma stablePartition_Nil [simp]: "stablePartition p xs = [] \<longleftrightarrow> xs = []"
  by (metis length_0_conv length_stablePartition)

lemma buildFromDescription_fresh:
  assumes "\<And>xs. mset (shuffle e xs) = mset xs" "description_ok d" "buildFromDescription res e d n = Some a"
  shows "fresh_desc a"
proof -
  let ?r1 = "resolve_all res (collectAllAddresses d)"
  let ?r2 = "if LoadBalance d then shuffleAddresses e ?r1 else ?r1"
  let ?r3 = "if \<not> Failover d then take 1 ?r2 else ?r2"
  have ne: "collectAllAddresses d \<noteq> []" using assms(3) by (auto simp: buildFromDescription_def)
  have r1: "?r1 \<noteq> []" using assms(3) ne by (auto simp: buildFromDescription_def)
  have a: "da_Addresses a = stablePartition (down e) ?r3" "CurrentCycle a = 0" "CurrentAddrIndex a = 0"
    "da_RetryCount a = RetryCount d"
    using assms(3) ne r1 by (simp_all add: buildFromDescription_def Let_def reorderAddressesByDownHostStatus_def
        split del: if_split) auto
  have "?r2 \<noteq> []" using r1 resolved_perm [of e ?r1, OF assms(1)] by (simp add: shuffleAddresses_def)
  then have "?r3 \<noteq> []" by (auto simp only: take_eq_Nil split: if_splits)
  then have "da_Addresses a \<noteq> []" unfolding a(1) stablePartition_Nil .
  then show ?thesis using a assms(2) by (simp add: fresh_desc_def description_ok_def)
qed

lemma buildDescriptionAttempts_fresh:
  assumes "\<And>i xs. mset (shuffle (env i) xs) = mset xs" "\<And>xs. set (shuffleIdx xs) = set xs" "context_ok ctx"
  shows "list_all fresh_desc (buildDescriptionAttempts res env shuffleIdx dn rootNode ctx)"
proof -
  note fresh = buildFromDescription_fresh [OF assms(1)]
  have "list_all fresh_desc (buildFromDescriptionList res env shuffleIdx dn rootNode dl)"
    if "list_all description_ok (Descriptions dl)" for dl
  proof -
    define idx where "idx = (let indices = [0..<length (Descriptions dl)];
        indices = (if dl_LoadBalance dl then shuffleIdx indices else indices)
      in if \<not> dl_Failover dl then take 1 indices else indices)"
    have "set idx \<subseteq> set [0..<length (Descriptions dl)]"
      unfolding idx_def Let_def
      using assms(2) [of "[0..<length (Descriptions dl)]"] set_take_subset [of 1 "[0..<length (Descriptions dl)]"]
        set_take_subset [of 1 "shuffleIdx [0..<length (Descriptions dl)]"] by (simp split: if_splits)
    then have "\<forall>i\<in>set idx. description_ok (Descriptions dl ! i)"
      using that by (auto simp: list_all_length)
    then have "\<forall>a\<in>set (List.map_filter (\<lambda>i. case findDescriptionNode rootNode i of
        None \<Rightarrow> None | Some n \<Rightarrow> buildFromDescription res (env i) (Descriptions dl ! i) (Some n)) idx). fresh_desc a"
      using fresh by (auto simp: List.map_filter_def split: option.splits)
    then show ?thesis
      unfolding buildFromDescriptionList_def list_all_iff
      by (simp add: reorderDescriptionsByDownHostStatus_def Let_def idx_def)
  qed
  moreover have "list_all fresh_desc (buildFromAddresses res e as)" for e as
    by (simp add: buildFromAddresses_def Let_def fresh_desc_def reorderAddressesByDownHostStatus_def)
  ultimately show ?thesis
    using assms(3) fresh by (auto simp: buildDescriptionAttempts_def split: option.splits)
qed

lemma fresh_iter_ok:
  "list_all fresh_desc (descAttempts ci) \<Longrightarrow> currentDescIndex ci = 0 \<Longrightarrow> \<not> exhausted ci \<Longrightarrow>
   iter_ok ci \<and> pending ci = sum_list (map desc_all (descAttempts ci)) \<and> iterator_Remaining ci = Total ci"
  by (cases "descAttempts ci")
    (auto simp: iter_ok_def fresh_desc_ok pending_def pending_descs_def fresh_desc_pending iterator_Remaining_def
      Total_def desc_remaining_def desc_total_def fresh_desc_def algebra_simps)

text \<open>All attempts, until \<open>Next\<close> returns nothing; \<open>envs k\<close> is what the \<open>k\<close>-th call from the end meets.\<close>

fun attempts :: "nat \<Rightarrow> (nat \<Rightarrow> nat \<Rightarrow> int \<Rightarrow> cycle_env) \<Rightarrow> ConnectionIterator \<Rightarrow> ConnectionOption list" where
  "attempts 0 envs ci = []"
| "attempts (Suc k) envs ci =
     (case Next (envs k) ci of
        (None, ci') \<Rightarrow> []
      | (Some opt, ci') \<Rightarrow> opt # attempts k envs ci')"

lemma attempts_pending:
  assumes "\<And>k. env_ok (envs k)"
  shows "iter_ok ci \<Longrightarrow> \<not> exhausted ci \<Longrightarrow> size (pending ci) \<le> k \<Longrightarrow> mset (map opt_Address (attempts k envs ci)) = pending ci"
proof (induction k arbitrary: ci)
  case (Suc k)
  have one: "takes_one ci (Next (envs k) ci)" using Next_takes_one [OF assms Suc.prems(1,2)] .
  show ?case
  proof (cases "Next (envs k) ci")
    case (Pair r ci')
    then show ?thesis
      using one Suc.IH [of ci'] Suc.prems(3) by (cases r) (auto simp: takes_one_def)
  qed
qed simp



subsection \<open>Reset\<close>

lemma Reset_desc_fresh:
  assumes "\<And>xs. mset (shuffle e xs) = mset xs" "desc_ok d"
  shows "fresh_desc (Reset_desc e d) \<and> desc_all (Reset_desc e d) = desc_all d"
proof -
  have "mset (da_Addresses (Reset_desc e d)) = mset (da_Addresses d)"
    using assms(1) by (simp add: Reset_desc_def Let_def reorderAddressesByDownHostStatus_def shuffleAddresses_def)
  moreover have "da_Addresses d \<noteq> []" using assms(2) by (simp add: desc_ok_def)
  ultimately have "da_Addresses (Reset_desc e d) \<noteq> []" by (metis mset_zero_iff)
  then show ?thesis
    using assms(2) \<open>mset (da_Addresses (Reset_desc e d)) = mset (da_Addresses d)\<close>
    by (simp add: fresh_desc_def desc_all_def desc_ok_def) (simp add: Reset_desc_def Let_def)
qed

lemma sum_list_stablePartition:
  fixes f :: "'a \<Rightarrow> 'b::comm_monoid_add"
  shows "sum_list (map f (stablePartition q xs)) = sum_list (map f xs)"
  by (simp flip: sum_mset_sum_list)

text \<open>After \<open>Reset\<close>, in whatever state the descriptions were, all attempts are ahead again: the same
  addresses, each as often as before.\<close>

theorem Reset_restores_attempts:
  assumes "\<And>i xs. mset (shuffle (env i) xs) = mset xs" "list_all desc_ok (descAttempts ci)"
  shows "iter_ok (iterator_Reset env dn ci) \<and>
    pending (iterator_Reset env dn ci) = sum_list (map desc_all (descAttempts ci)) \<and>
    iterator_Remaining (iterator_Reset env dn ci) = Total (iterator_Reset env dn ci)"
proof -
  let ?ds = "map (\<lambda>i. Reset_desc (env i) (descAttempts ci ! i)) [0..<length (descAttempts ci)]"
  have each: "fresh_desc (Reset_desc (env i) (descAttempts ci ! i)) \<and>
      desc_all (Reset_desc (env i) (descAttempts ci ! i)) = desc_all (descAttempts ci ! i)" if "i < length (descAttempts ci)" for i
    using Reset_desc_fresh [OF assms(1)] assms(2) that by (simp add: list_all_length)
  have "map desc_all ?ds = map desc_all (descAttempts ci)"
    by (rule nth_equalityI) (simp_all add: each)
  moreover note sum_list_stablePartition [of desc_all _ ?ds]
  moreover have "list_all fresh_desc (stablePartition q ?ds)" for q
    using each by (simp add: list_all_iff)
  ultimately show ?thesis
    using fresh_iter_ok [of "iterator_Reset env dn ci"]
    by (simp add: iterator_Reset_def Let_def reorderDescriptionsByDownHostStatus_def)
qed

theorem Reset_restores_attempts_witness:
  "iterator_Remaining (iterator_Reset (\<lambda>i. plain_env) (\<lambda>a. False) demo_iterator) =
   Total (iterator_Reset (\<lambda>i. plain_env) (\<lambda>a. False) demo_iterator)"
  using Reset_restores_attempts [of "\<lambda>i. plain_env" demo_iterator "\<lambda>a. False"]
  by (simp add: plain_env_def demo_iterator_def desc_ok_def)

subsection \<open>The connect string of an attempt\<close>

definition plain_value :: "string \<Rightarrow> bool" where
  "plain_value s \<longleftrightarrow> list_all value_char s \<and> (s \<noteq> [] \<longrightarrow> \<not> is_space (last s))"

definition plain_address :: "Address \<Rightarrow> bool" where
  "plain_address a \<longleftrightarrow> plain_value (host_key a) \<and> plain_value (HTTPSProxy a) \<and> address_ok a"

lemma plain_digits: "0 \<le> n \<Longrightarrow> plain_value (FormatInt n)"
proof -
  have "list_all value_char (FormatUint m) \<and> \<not> is_space (last (FormatUint m))" for m
    using FormatUint_url [of m] by (auto simp: list_all_iff url_char_def)
  then show "0 \<le> n \<Longrightarrow> plain_value (FormatInt n)" by (simp add: plain_value_def FormatInt_def)
qed

lemma address_names:
  "list_all name_char ''ADDRESS''" "list_all name_char ''PROTOCOL''" "list_all name_char ''HOST''"
  "list_all name_char ''PORT''" "list_all name_char ''HTTPS_PROXY''" "list_all name_char ''HTTPS_PROXY_PORT''"
  "list_all name_char ''DESCRIPTION''"
  by code_simp+

lemma plain_node_iff:
  "plain_node n \<longleftrightarrow> Name n \<noteq> [] \<and> list_all name_char (Name n) \<and> plain_value (Value n) \<and> list_all plain_node (Children n)"
  by (cases n) (auto simp: plain_value_def list_all_iff)

lemma plain_leaves:
  "plain_node (Node ''PROTOCOL'' v []) \<longleftrightarrow> plain_value v" "plain_node (Node ''HOST'' v []) \<longleftrightarrow> plain_value v"
  "plain_node (Node ''PORT'' v []) \<longleftrightarrow> plain_value v" "plain_node (Node ''HTTPS_PROXY'' v []) \<longleftrightarrow> plain_value v"
  "plain_node (Node ''HTTPS_PROXY_PORT'' v []) \<longleftrightarrow> plain_value v"
  using address_names by (simp_all add: plain_value_def)

lemma address_node_plain:
  assumes "plain_address a"
  shows "plain_node (address_node a)"
proof -
  have "plain_value (Protocol_String p)" for p
    by (cases p) (simp_all add: plain_value_def Protocol_String_def value_char_def is_space_def)
  then have "list_all plain_node (Children (address_node a))"
    using assms plain_digits [of "Port a"] plain_digits [of "HTTPSProxyPort a"]
    unfolding plain_address_def address_ok_def
    by (auto simp: address_node_def Let_def plain_leaves simp del: plain_node.simps)
  then show ?thesis
    using address_names(1) by (simp add: plain_node_iff [of "address_node a"]) (simp add: address_node_def Let_def plain_value_def)
qed

lemma upper_address_names:
  "ToUpper ''ADDRESS'' = ''ADDRESS''" "ToUpper ''PROTOCOL'' = ''PROTOCOL''" "ToUpper ''HOST'' = ''HOST''"
  "ToUpper ''PORT'' = ''PORT''" "ToUpper ''HTTPS_PROXY'' = ''HTTPS_PROXY''"
  "ToUpper ''HTTPS_PROXY_PORT'' = ''HTTPS_PROXY_PORT''" "ToUpper ''CONNECT_DATA'' = ''CONNECT_DATA''"
  by code_simp+

lemma extractAddress_node:
  assumes "address_ok a"
  shows "extractAddress (address_node a) = Inr (NewAddress\<lparr>Protocol := Protocol a, Host := host_key a, Port := Port a,
    HTTPSProxy := HTTPSProxy a, HTTPSProxyPort := (if HTTPSProxy a = [] then 0 else HTTPSProxyPort a)\<rparr>)"
proof -
  have "NormalizeProtocol (Protocol_String ProtocolTCP) = Inr ProtocolTCP"
    "NormalizeProtocol (Protocol_String ProtocolTCPS) = Inr ProtocolTCPS" by code_simp+
  then have norm: "NormalizeProtocol (Protocol_String (Protocol a)) = Inr (Protocol a)"
    by (cases "Protocol a") simp_all
  have num: "Atoi (FormatInt n) = Inr n" if "0 \<le> n" "n < 65536" for n
    using that by (simp add: Atoi_def ParseInt_FormatInt)
  then have port: "parseUIntField (FormatInt (Port a)) = Inr (Port a)" "Atoi (FormatInt (HTTPSProxyPort a)) = Inr (HTTPSProxyPort a)"
    using assms by (simp_all add: parseUIntField_def address_ok_def)
  show ?thesis
    using assms
    by (auto simp: extractAddress_def address_node_def Let_def extractAddress_child_def upper_address_names norm port
        set_val_def uwrap_def address_ok_def NewAddress_def)
qed



end
