(* ===== verification/NS_Connect.thy ===== *)
theory NS_Connect
  imports NS_Safety Naming_Iterator
begin

text \<open>
  Establishing a session: dialling (\<open>network/transport/tcpadapter.go\<close>), the attributes of a session
  (\<open>network/session/session_attributes.go\<close>) and the connect exchange with its accept, refuse, redirect
  and resend answers (\<open>network/session/nsprotocol.go\<close>).

  What happens outside the driver is given by arguments: the outcome of dialling and of the proxy
  handshake, what \<open>errors.Is\<close> and \<open>errors.As\<close> say of an error of package \<open>net\<close>, the environment
  variables, the wallet file and the random identifier. A redirect resolves its addresses through the
  iterator, whose own arguments are in \<open>naming_env\<close>. A dial is identified by the number of redirects so far.
\<close>

subsection \<open>Addresses and dialling\<close>

text \<open>\<open>transport.Address\<close> embeds \<open>naming.Address\<close> and hides its proxy fields by its own.\<close>

record TransportAddress =
  ta_Address :: Address
  ta_Hostname :: string
  ta_HTTPSProxy :: string
  ta_HTTPSProxyPort :: int

definition httpsProxyPortOrDefault :: "int \<Rightarrow> int" where
  "httpsProxyPortOrDefault port = (if port = 0 then 80 else port)"

definition JoinHostPort :: "string \<Rightarrow> string \<Rightarrow> string" where
  "JoinHostPort host port =
     (if CHR '':'' \<in> set host then ''['' @ host @ '']:'' @ port else host @ '':'' @ port)"

text \<open>What \<open>errors.Is\<close> and \<open>errors.As\<close> find in an error.\<close>

record error_view =
  ev_dns :: bool
  ev_op :: bool
  ev_deadline :: bool
  ev_op_timeout :: bool
  ev_refused :: bool
  ev_unreachable :: bool
  ev_timeout_cause :: bool
  ev_net_timeout :: bool

text \<open>\<open>context.Cause(ctx)\<close>: an error of the driver, a timeout cause, or something else.\<close>

datatype ctx_cause = CauseSQLError go_error | CauseTimeout go_error | CauseOther go_error

definition normalizeDialError ::
  "(go_error \<Rightarrow> error_view) \<Rightarrow> ctx_cause \<Rightarrow> go_error \<Rightarrow> TransportAddress \<Rightarrow> string \<Rightarrow> go_error" where
  "normalizeDialError view cc err address connectionID =
     (if ev_dns (view err) then err
      else if \<not> ev_op (view err) then err
      else if ev_deadline (view err) \<or> ev_op_timeout (view err) then
        (case cc of
           CauseSQLError e \<Rightarrow> e
         | CauseTimeout e \<Rightarrow> e
         | CauseOther _ \<Rightarrow> NewOracleError CtxTimeout None
             [ArgStr ''CONNECT'', ArgStr (Address_String (ta_Address address)), ArgStr connectionID])
      else if ev_refused (view err)
      then NewOracleError NoListenerAvailable None [ArgStr (Address_String (ta_Address address))]
      else err)"

definition isDownHostError :: "(go_error \<Rightarrow> error_view) \<Rightarrow> bool \<Rightarrow> go_error \<Rightarrow> bool" where
  "isDownHostError view ctxDeadline err =
     (if ctxDeadline \<or> ev_deadline (view err) then False
      else if ev_dns (view err) then False
      else if ev_unreachable (view err) then True
      else if ev_timeout_cause (view err) then True
      else if (case err of OracleError CtxTimeout _ _ \<Rightarrow> True | _ \<Rightarrow> False) then True
      else ev_net_timeout (view err))"

text \<open>The handshake with a proxy succeeds, fails, or is cut off by the context.\<close>

datatype proxy_outcome = ProxyOk | ProxyFails go_error | ProxyCut ctx_cause

record network =
  net_dial :: "string \<Rightarrow> conn result"
  net_proxy :: "string \<Rightarrow> proxy_outcome"
  net_cause :: ctx_cause
  net_options :: "go_error option"

definition nTConnect :: "(go_error \<Rightarrow> error_view) \<Rightarrow> network \<Rightarrow> TransportAddress \<Rightarrow> (nttcp, unit) op" where
  "nTConnect view N address nt =
     (let addr = ta_Address address;
          targetHost = (if ta_Hostname address = [] then Host addr else ta_Hostname address);
          target = JoinHostPort targetHost (FormatInt (Port addr));
          (httpsProxy, proxyPort) =
            (if ta_HTTPSProxy address \<noteq> [] then (ta_HTTPSProxy address, ta_HTTPSProxyPort address)
             else (at_HttpsProxy (nt_atts nt), at_HttpsProxyPort (nt_atts nt)));
          proxyPort = (if httpsProxy \<noteq> [] then httpsProxyPortOrDefault proxyPort else proxyPort);
          dialAddress = (if httpsProxy \<noteq> [] then JoinHostPort httpsProxy (FormatInt proxyPort) else Address_String addr)
      in case net_dial N dialAddress of
           Inl err \<Rightarrow>
             (Inl (normalizeDialError view (net_cause N) err
                (if httpsProxy = [] then address
                 else address\<lparr>ta_Address := addr\<lparr>Host := httpsProxy, Port := proxyPort mod 2 ^ 16\<rparr>\<rparr>)
                (at_Connectionid (nt_atts nt))), nt)
         | Inr c \<Rightarrow>
             let opened = nt\<lparr>nt_stream := Some c, nt_connected := True\<rparr> in
             if httpsProxy = [] then (Inr (), opened)
             else (case net_proxy N target of
                     ProxyOk \<Rightarrow> (Inr (), opened)
                   | ProxyFails e \<Rightarrow> (Inl (NewOracleError HTTPSProxyConnectFailed (Some e) [ArgStr target]), nt)
                   | ProxyCut (CauseTimeout e) \<Rightarrow> (Inl e, nt)
                   | ProxyCut (CauseSQLError e) \<Rightarrow> (Inl (NewOracleError HTTPSProxyConnectFailed (Some e) [ArgStr target]), nt)
                   | ProxyCut (CauseOther e) \<Rightarrow> (Inl (NewOracleError HTTPSProxyConnectFailed (Some e) [ArgStr target]), nt)))"

text \<open>\<open>net_options\<close> is the first error that setting the socket options returns.\<close>

definition nttcp_Connect :: "(go_error \<Rightarrow> error_view) \<Rightarrow> network \<Rightarrow> TransportAddress \<Rightarrow> (nttcp, unit) op" where
  "nttcp_Connect view N address nt =
     (let addr = ta_Address address;
          nt1 = nt\<lparr>nt_originHost := OriginHost addr, nt_host := Host addr,
                   nt_hostname := (if ta_Hostname address = [] then Host addr else ta_Hostname address),
                   nt_port := nat (Port addr)\<rparr>
      in case nTConnect view N address nt1 of
           (Inl e, nt2) \<Rightarrow> (Inl e, nt2)
         | (Inr _, nt2) \<Rightarrow>
             (case net_options N of
                None \<Rightarrow> (Inr (), nt2)
              | Some e \<Rightarrow> (Inl e, snd (nttcp_Disconnect nt2))))"

subsection \<open>Session attributes\<close>

text \<open>Sizes and times pass through \<open>float64\<close>, which is exact for the integers below \<open>2 ^ 53\<close>.\<close>

definition via_float :: "int \<Rightarrow> int" where
  "via_float n = \<lfloor>float64_round (of_int n)\<rfloor>"

definition setFrom :: "(string \<Rightarrow> string) \<Rightarrow> Description \<Rightarrow> sessionAtts \<Rightarrow> sessionAtts" where
  "setFrom getenv d sa =
     (let pw1 = getenv ''oracle.go.wallet_password'';
          walletPassword = (if pw1 = [] then getenv ''ORACLE_GO_WALLET_PASSWORD'' else pw1);
          sec = desc_Security d;
          sa = (if SDU d > 0 then sa\<lparr>sdu := via_float (SDU d)\<rparr> else sa);
          sa = (if Compression d
                then sa\<lparr>networkCompression := True,
                        networkCompressionLevels := (if CompressionLevels d = [] then [''high''] else CompressionLevels d)\<rparr>
                else sa);
          sa = (if ConnectTimeout d > 0 then sa\<lparr>connectTimeout := via_float (ConnectTimeout d)\<rparr> else sa);
          n = sa_nt sa;
          n = (if ExpireTime d > 0 then n\<lparr>at_ExpireTime := \<lfloor>float64_round (float64_round (float64_round (of_int (ExpireTime d)) * 1000) * 60)\<rfloor>\<rparr> else n);
          n = (if TransportConnectTimeout d > 0 then n\<lparr>at_Transportconnecttimeout := via_float (TransportConnectTimeout d)\<rparr> else n);
          n = (if RecvTimeout d > 0 then n\<lparr>at_RecvTimeout := via_float (RecvTimeout d)\<rparr> else n);
          n = (if SendTimeout d > 0 then n\<lparr>at_SendTimeout := via_float (SendTimeout d)\<rparr> else n);
          n = (if RecvBufSize d > 0 then n\<lparr>at_RecvBufSize := via_float (RecvBufSize d)\<rparr> else n);
          n = (if SendBufSize d > 0 then n\<lparr>at_SendBufSize := via_float (SendBufSize d)\<rparr> else n);
          n = (if ConnectionIDPrefix d \<noteq> [] then n\<lparr>at_Connectionidprefix := ConnectionIDPrefix d\<rparr> else n);
          n = n\<lparr>at_TCPNODelay := True\<rparr>;
          n = (if ToUpper (Enable d) = ''BROKEN'' then n\<lparr>at_EnabledDCD := True\<rparr> else n);
          n = n\<lparr>at_HttpsProxyPort := 0, at_WalletLocation := WalletLocation sec,
                at_SSLAllowWeakDNMatch := SSLAllowWeakDNMatch sec, at_SSLServerDNMatch := SSLServerDNMatch sec,
                at_SSLServerCertDN := SSLServerCertDN sec, at_WalletPassword := walletPassword, at_UseSNI := UseSNI d\<rparr>
      in sa\<lparr>sa_nt := n\<rparr>)"

definition prepare :: "string result \<Rightarrow> (string \<Rightarrow> byte list result) \<Rightarrow> Protocol \<Rightarrow> (sessionAtts, unit) op" where
  "prepare GenUUID ReadFile protocol =
     bindE (modE (\<lambda>sa. sa\<lparr>sdu := clamp (sdu sa) NSPMNSDULN NSPABSSDULN\<rparr>)) (\<lambda>_.
     bindE (getE uuid) (\<lambda>u.
     bindE (if u = [] then bindE (liftE GenUUID) (\<lambda>u'. modE (\<lambda>sa. sa\<lparr>uuid := u'\<rparr>)) else retE ()) (\<lambda>_.
     bindE (modE (\<lambda>sa. sa\<lparr>sa_nt := (sa_nt sa)\<lparr>at_Connectionid := at_Connectionidprefix (sa_nt sa) @ uuid sa\<rparr>\<rparr>)) (\<lambda>_.
     bindE (modE (\<lambda>sa. let w = TrimSpace (at_WalletLocation (sa_nt sa)) in
       sa\<lparr>sa_nt := (sa_nt sa)\<lparr>at_UseSystemTrust := protocol = ProtocolTCPS \<and> (w = [] \<or> ToLower w = ''system'')\<rparr>\<rparr>)) (\<lambda>_.
     bindE (getE sa_nt) (\<lambda>n.
     bindE (if protocol = ProtocolTCPS \<and> at_WalletContent n = None \<and> \<not> at_UseSystemTrust n
            then bindE (liftE (ReadFile (at_WalletLocation n))) (\<lambda>d.
                   modE (\<lambda>sa. sa\<lparr>sa_nt := (sa_nt sa)\<lparr>at_WalletContent := Some d\<rparr>\<rparr>))
            else retE ()) (\<lambda>_.
       modE (\<lambda>sa. if connectTimeout sa = 0 \<and> at_Transportconnecttimeout (sa_nt sa) = 0
                  then sa\<lparr>sa_nt := (sa_nt sa)\<lparr>at_Transportconnecttimeout := 20000\<rparr>\<rparr> else sa))))))))"

subsection \<open>The connect exchange\<close>

abbreviation "NSPFRDS \<equiv> (0x02 :: int)"
abbreviation "NSPFRDR \<equiv> (0x04 :: int)"
abbreviation "NSPFSRN \<equiv> (0x08 :: int)"
abbreviation "NSINAREQUIRED \<equiv> (0x10 :: int)"
abbreviation "NSPACFL2 \<equiv> (41 :: nat)"
abbreviation "TNS_ACCEPT_FLAG_HAS_END_OF_REQUEST \<equiv> (0x02000000 :: int)"
abbreviation "TNS_ACCEPT_FLAG_FAST_AUTH \<equiv> (0x10000000 :: int)"
abbreviation "maxRedirectCount \<equiv> (4 :: int)"
abbreviation "maxResendCount \<equiv> (4 :: int)"

text \<open>The adapters: creating one for a protocol, \<open>Connect\<close>, the check that a TLS adapter makes after the
  accept packet (\<open>VerifyPostAcceptDNMatch\<close> and \<open>Clear\<close>; a TCP adapter has neither) and \<open>TLSReneg\<close>, which only a
  TLS adapter has.\<close>

record 'nt transport =
  tr_new :: "Protocol \<Rightarrow> NTattributes \<Rightarrow> 'nt"
  tr_Connect :: "int \<Rightarrow> TransportAddress \<Rightarrow> ('nt, unit) op"
  tr_post_accept :: "('nt, unit) op"
  tr_reneg :: "'nt \<Rightarrow> 'nt option"
  tr_view :: "go_error \<Rightarrow> error_view"
  tr_ctx_deadline :: "int \<Rightarrow> bool"

record naming_env =
  ne_resolve :: "Address \<Rightarrow> Address list result"
  ne_cycle :: "nat \<Rightarrow> cycle_env"
  ne_shuffle :: "nat list \<Rightarrow> nat list"
  ne_down :: "Address \<Rightarrow> bool"
  ne_next :: "nat \<Rightarrow> int \<Rightarrow> cycle_env"

definition mark_down :: "'nt transport \<Rightarrow> TransportAddress \<Rightarrow> go_error \<Rightarrow> 'nt networkSession \<Rightarrow> 'nt networkSession" where
  "mark_down T address err s =
     (let proxyConfigured = (ta_HTTPSProxy address \<noteq> [] \<or> at_HttpsProxy (sa_nt (sAtts s)) \<noteq> [])
      in if \<not> proxyConfigured \<and> isDownHostError (tr_view T) (tr_ctx_deadline T (redirectCount s)) err
         then s\<lparr>marked_hosts := marked_hosts s @ [host_key (ta_Address address)]\<rparr> else s)"

definition transportConnect :: "'nt transport \<Rightarrow> TransportAddress \<Rightarrow> ('nt networkSession, unit) op" where
  "transportConnect T address s =
     (if Protocol (ta_Address address) = ProtocolTCP \<and> (ta_HTTPSProxy address \<noteq> [] \<or> at_HttpsProxy (sa_nt (sAtts s)) \<noteq> [])
      then (Inl (NewOracleError HTTPSProxyRequiresTCPS None []), s)
      else
        let nt = (case ntAdapter s of None \<Rightarrow> tr_new T (Protocol (ta_Address address)) (sa_nt (sAtts s)) | Some nt \<Rightarrow> nt)
        in case tr_Connect T (redirectCount s) address nt of
             (Inl e, nt') \<Rightarrow>
               if is_panic e then (Inl e, s\<lparr>ntAdapter := Some nt'\<rparr>)
               else (Inl e, mark_down T address e (s\<lparr>ntAdapter := Some nt'\<rparr>))
           | (Inr _, nt') \<Rightarrow>
               let buf = replicate (nat (sdu (sAtts s))) 0 in
               (Inr (), s\<lparr>ntAdapter := Some nt', sndBuf := buf, rcvBuf := buf,
                          sndDatapkt := dataPacket_marshal buf (sndDatapkt s), rcvDatapkt := empty_dataPacket\<rparr>))"

definition accept_flags2 :: "acceptPacket \<Rightarrow> ('nt networkSession, unit) op" where
  "accept_flags2 p =
     (if length (ap_buf p) < NSPACFL2 + 4
      then throwE (packet_len_err ''NSPTAC'' (length (ap_buf p)) (NSPACFL2 + 4))
      else bindE (liftE (rd_u32 (ap_buf p) NSPACFL2)) (\<lambda>acceptFlag2.
             modE (\<lambda>s. s\<lparr>endOfRequestSupport := acceptFlag2 AND TNS_ACCEPT_FLAG_HAS_END_OF_REQUEST \<noteq> 0,
                          supportsFastAuth := acceptFlag2 AND TNS_ACCEPT_FLAG_FAST_AUTH \<noteq> 0\<rparr>)))"

definition post_accept :: "'nt transport \<Rightarrow> ('nt networkSession, unit) op" where
  "post_accept T s =
     (case ntAdapter s of
        None \<Rightarrow> (Inr (), s)
      | Some nt \<Rightarrow> (case tr_post_accept T nt of (r, nt') \<Rightarrow> (r, s\<lparr>ntAdapter := Some nt'\<rparr>)))"

definition open_session :: "'nt networkSession \<Rightarrow> 'nt networkSession" where
  "open_session s =
     (let buf = replicate (nat (sdu (sAtts s))) 0
      in s\<lparr>connected := True, cData := [], sndBuf := buf, rcvBuf := buf, controlPkt := empty_controlPacket,
           sndDatapkt := dataPacket_marshal buf (sndDatapkt s)\<rparr>)"

definition handleAccept :: "'nt NTAdapter \<Rightarrow> codec \<Rightarrow> 'nt transport \<Rightarrow> acceptPacket \<Rightarrow> ('nt networkSession, unit) op" where
  "handleAccept A Z T p =
     bindE (getE (\<lambda>s. version (sAtts s))) (\<lambda>v.
       if v < TNS_VERSION_MINIMUM
       then bindE (Disconnect A Z 0) (\<lambda>_.
              throwE (NewOracleError InvalidNetworkContextExpectedValue None
                [ArgStr ''TNS version'', ArgStr ''NSPTAC'', ArgInt v, ArgInt TNS_VERSION_MINIMUM]))
       else bindE (if v \<ge> TNS_VERSION_MIN_DATA_FLAGS then accept_flags2 p else retE ()) (\<lambda>_.
            bindE (post_accept T) (\<lambda>_.
            bindE (modE open_session) (\<lambda>_.
              if (ap_flag0 p OR ap_flag1 p) AND NSINAREQUIRED \<noteq> 0
              then throwE (NewOracleError UnsupportedFeature None [ArgStr ''Native Network Encryption and Data Integrity''])
              else retE ()))))"

text \<open>\<open>ns.rcvDatapkt.buf[ns.rcvDatapkt.offset:ns.rcvDatapkt.len]\<close>\<close>

definition rcv_rest :: "dataPacket \<Rightarrow> byte list result" where
  "rcv_rest dp =
     (if 0 \<le> dp_offset dp \<and> dp_offset dp \<le> dp_len dp \<and> dp_len dp \<le> int (length (dp_buf dp))
      then Inr (drop (nat (dp_offset dp)) (take (nat (dp_len dp)) (dp_buf dp)))
      else Inl (RuntimePanic ''slice bounds out of range''))"

definition overflow_data :: "'nt NTAdapter \<Rightarrow> codec \<Rightarrow> nat \<Rightarrow> bool \<Rightarrow> byte list \<Rightarrow> ('nt networkSession, byte list) op" where
  "overflow_data A Z fuel overflow dataBuf =
     (if overflow
      then bindE (recvPacket A Z fuel) (\<lambda>_. bindE (getE rcvDatapkt) (\<lambda>dp. liftE (rcv_rest dp)))
      else retE dataBuf)"

definition OracleRefuseErrorCodes :: "string \<Rightarrow> ErrorCode option" where
  "OracleRefuseErrorCodes = map_of
     [(''12500'', ListenerFailed), (''12505'', InvalidSID), (''12514'', InvalidServiceName),
      (''12516'', NoDispatcherAvailable), (''12520'', NoAvailableHandler), (''12521'', UnknownInstance),
      (''12525'', ListenerRequestTimeout)]"

definition refuseArgs :: "byte list \<Rightarrow> string \<Rightarrow> string \<Rightarrow> TransportAddress \<Rightarrow> go_arg list result" where
  "refuseArgs cdata connid errCode address =
     (let val = (\<lambda>n path. GetValue n (''DESCRIPTION/CONNECT_DATA/'' @ path));
          rest = [ArgStr (Host (ta_Address address)), ArgInt (Port (ta_Address address)), ArgStr connid]
      in andThen (Parse (string_of cdata)) (\<lambda>n.
         if errCode = ''12514'' then andThen (val n ''SERVICE_NAME'') (\<lambda>sn. Inr (ArgStr sn # rest))
         else if errCode = ''12520''
         then andThen (val n ''SERVER'') (\<lambda>sv. andThen (val n ''SERVICE_NAME'') (\<lambda>sn. Inr (ArgStr sv # ArgStr sn # rest)))
         else if errCode = ''12521''
         then andThen (val n ''INSTANCE_NAME'') (\<lambda>i. andThen (val n ''SERVICE_NAME'') (\<lambda>sn. Inr (ArgStr i # ArgStr sn # rest)))
         else if errCode = ''12505'' then andThen (val n ''SID'') (\<lambda>sid. Inr (ArgStr sid # rest))
         else Inr []))"

text \<open>\<open>handleRefuse\<close> always ends with an error.\<close>

definition refusal :: "refusePacket \<Rightarrow> byte list \<Rightarrow> byte list \<Rightarrow> string \<Rightarrow> TransportAddress \<Rightarrow> go_error" where
  "refusal p dataBuf cdata connid address =
     (case Parse (string_of dataBuf) of
        Inl e \<Rightarrow> NewOracleError RefuseDataParseFailed (Some e) []
      | Inr refuseNode \<Rightarrow>
          (case GetValue refuseNode ''DESCRIPTION/ERR'' of
             Inl e \<Rightarrow> e
           | Inr errCode \<Rightarrow>
               (case OracleRefuseErrorCodes errCode of
                  None \<Rightarrow> NewOracleError ConnectionRefusedDetail None
                            [ArgStr errCode, ArgInt (userReason p), ArgInt (systemReason p)]
                | Some mappedCode \<Rightarrow>
                    (case refuseArgs cdata connid errCode address of
                       Inl e \<Rightarrow> e
                     | Inr as \<Rightarrow> NewOracleError mappedCode None as))))"

definition handleRefuse :: "'nt NTAdapter \<Rightarrow> codec \<Rightarrow> nat \<Rightarrow> refusePacket \<Rightarrow> TransportAddress \<Rightarrow> ('nt networkSession, unit) op" where
  "handleRefuse A Z fuel p address =
     bindE (overflow_data A Z fuel (rf_overflow p) (rf_dataBuf p)) (\<lambda>dataBuf.
     bindE (getE (\<lambda>s. (cData s, at_Connectionid (sa_nt (sAtts s))))) (\<lambda>(cdata, connid).
       throwE (refusal p dataBuf cdata connid address)))"

text \<open>\<open>bytes.Split(p.dataBuf, []byte{0})\<close>: the first two parts.\<close>

definition redirect_parts :: "redirectPacket \<Rightarrow> byte list \<Rightarrow> byte list \<Rightarrow> string \<times> byte list" where
  "redirect_parts p dataBuf cdata =
     (if flags (rd_hdr p) AND NSPFRDS \<noteq> 0
      then (string_of (takeWhile (\<lambda>b. b \<noteq> 0) dataBuf), takeWhile (\<lambda>b. b \<noteq> 0) (tl (dropWhile (\<lambda>b. b \<noteq> 0) dataBuf)))
      else (string_of dataBuf, cdata))"

definition redirect_target :: "naming_env \<Rightarrow> string \<Rightarrow> TransportAddress \<Rightarrow> TransportAddress result" where
  "redirect_target N addrStr address =
     andThen (Parse addrStr) (\<lambda>node.
     andThen (ExtractConnectionContext (Some node)) (\<lambda>ctx.
       let iter = NewConnectionIterator (ne_resolve N) (ne_cycle N) (ne_shuffle N) (ne_down N) (Some node) ctx
       in case HasNext iter of (has, iter') \<Rightarrow>
          if \<not> has then Inl (NewOracleError RedirectAddressMissing None [])
          else case Next (ne_next N) iter' of
                 (None, _) \<Rightarrow> Inl nil_panic
               | (Some opt, _) \<Rightarrow>
                   let a = opt_Address opt in
                   Inr \<lparr>ta_Address = \<lparr>Protocol = Protocol a, Host = host_key a, Port = Port a,
                          HTTPSProxy = ta_HTTPSProxy address, HTTPSProxyPort = ta_HTTPSProxyPort address,
                          OriginHost = ta_Hostname address, ResolvedIP = ResolvedIP a\<rparr>,
                        ta_Hostname = Host a, ta_HTTPSProxy = ta_HTTPSProxy address, ta_HTTPSProxyPort = ta_HTTPSProxyPort address\<rparr>))"

text \<open>\<open>ns.ntAdapter.Disconnect()\<close>, whose error is ignored; the adapter is kept.\<close>

definition nt_drop :: "'nt NTAdapter \<Rightarrow> ('nt networkSession, unit) op" where
  "nt_drop A s =
     (case ntAdapter s of
        None \<Rightarrow> (Inl nil_panic, s)
      | Some nt \<Rightarrow> (case nt_Disconnect A nt of (r, nt') \<Rightarrow> (Inr (), s\<lparr>ntAdapter := Some nt', connected := False\<rparr>)))"

definition handleRedirect ::
  "'nt NTAdapter \<Rightarrow> codec \<Rightarrow> 'nt transport \<Rightarrow> naming_env \<Rightarrow> nat \<Rightarrow> redirectPacket \<Rightarrow> TransportAddress \<Rightarrow>
   ('nt networkSession, unit) op" where
  "handleRedirect A Z T N fuel p address =
     bindE (modE (\<lambda>s. s\<lparr>redirectCount := redirectCount s + 1\<rparr>)) (\<lambda>_.
     bindE (getE redirectCount) (\<lambda>n.
       if n > maxRedirectCount
       then throwE (NewOracleError NetworkRetryLimitExceeded None [ArgStr ''redirects'', ArgInt maxRedirectCount])
       else
         bindE (overflow_data A Z fuel (rd_overflow p) (rd_dataBuf p)) (\<lambda>dataBuf.
         bindE (getE cData) (\<lambda>cdata.
         case redirect_parts p dataBuf cdata of (addrStr, redirectConnectData) \<Rightarrow>
         bindE (liftE (redirect_target N addrStr address)) (\<lambda>newAddress.
         bindE (nt_drop A) (\<lambda>_.
         bindE (transportConnect T newAddress) (\<lambda>_.
         bindE (modE (\<lambda>s. s\<lparr>connected := True, sndBuf := replicate (nat (sdu (sAtts s))) 0,
                  sndDatapkt := dataPacket_marshal (replicate (nat (sdu (sAtts s))) 0) (sndDatapkt s)\<rparr>)) (\<lambda>_.
         bindE (getE sAtts) (\<lambda>a.
         bindE (liftE (connectPacket_marshal redirectConnectData a NSPFRDR)) (\<lambda>connectPkt.
           sendConnect A Z fuel connectPkt))))))))))"

definition handleResend ::
  "'nt NTAdapter \<Rightarrow> codec \<Rightarrow> 'nt transport \<Rightarrow> nat \<Rightarrow> resendPacket \<Rightarrow> connectPacket \<Rightarrow> ('nt networkSession, unit) op" where
  "handleResend A Z T fuel p connectPkt =
     bindE (\<lambda>s. if flags (rs_hdr p) AND NSPFSRN \<noteq> 0
                then (case ntAdapter s of
                        None \<Rightarrow> (Inl (NewOracleError TLSRenegotiationUnsupported None []), s)
                      | Some nt \<Rightarrow>
                          (case tr_reneg T nt of
                             None \<Rightarrow> (Inl (NewOracleError TLSRenegotiationUnsupported None []), s)
                           | Some nt' \<Rightarrow> (Inr (), s\<lparr>ntAdapter := Some nt'\<rparr>)))
                else (Inr (), s)) (\<lambda>_ s.
       case sendConnect A Z fuel connectPkt s of
         (Inl e, s') \<Rightarrow>
           if is_panic e then (Inl e, s')
           else (case Disconnect A Z 0 s' of
                   (Inl e', s'') \<Rightarrow> (Inl (if is_panic e' then e' else e), s'')
                 | (Inr _, s'') \<Rightarrow> (Inl e, s''))
       | (Inr _, s') \<Rightarrow> (Inr (), s'))"

text \<open>\<open>v, err := m(); if err != nil { h(err) } else { k(v) }\<close>; a panic is not an error value.\<close>

definition catchE :: "('s, 'a) op \<Rightarrow> (go_error \<Rightarrow> ('s, 'b) op) \<Rightarrow> ('a \<Rightarrow> ('s, 'b) op) \<Rightarrow> ('s, 'b) op" where
  "catchE m h k = (\<lambda>s. case m s of
     (Inl e, s') \<Rightarrow> if is_panic e then (Inl e, s') else h e s' | (Inr v, s') \<Rightarrow> k v s')"

text \<open>\<open>if disconnectErr := ns.Disconnect(ctx, 0); disconnectErr != nil { return disconnectErr }; return err\<close>\<close>

definition closing :: "'nt NTAdapter \<Rightarrow> codec \<Rightarrow> go_error \<Rightarrow> ('nt networkSession, unit) op" where
  "closing A Z err = bindE (Disconnect A Z 0) (\<lambda>_. throwE err)"

text \<open>The loop of \<open>connect\<close>. \<open>rounds\<close> bounds the answers handled, \<open>fuel\<close> is that of the receive loop.\<close>

primrec connect_loop ::
  "'nt NTAdapter \<Rightarrow> codec \<Rightarrow> 'nt transport \<Rightarrow> naming_env \<Rightarrow> nat \<Rightarrow> nat \<Rightarrow> connectPacket \<Rightarrow> TransportAddress \<Rightarrow>
   ('nt networkSession, unit) op" where
  "connect_loop A Z T N fuel 0 connectPkt address = throwE OutOfFuel"
| "connect_loop A Z T N fuel (Suc rounds) connectPkt address =
     catchE (recvPacket A Z fuel) (closing A Z) (\<lambda>pkt.
       case pkt of
         AcceptPkt p \<Rightarrow> catchE (handleAccept A Z T p) (closing A Z) (\<lambda>_. retE ())
       | RefusePkt p \<Rightarrow> catchE (handleRefuse A Z fuel p address) (closing A Z) (\<lambda>_. Disconnect A Z 0)
       | RedirectPkt p \<Rightarrow>
           catchE (handleRedirect A Z T N fuel p address) (closing A Z) (\<lambda>_.
             connect_loop A Z T N fuel rounds connectPkt address)
       | ResendPkt p \<Rightarrow>
           bindE (modE (\<lambda>s. s\<lparr>resendCount := resendCount s + 1\<rparr>)) (\<lambda>_.
           bindE (getE resendCount) (\<lambda>n.
             if n > maxResendCount
             then closing A Z (NewOracleError NetworkRetryLimitExceeded None [ArgStr ''resends'', ArgInt maxResendCount])
             else catchE (handleResend A Z T fuel p connectPkt) (closing A Z) (\<lambda>_.
                    connect_loop A Z T N fuel rounds connectPkt address)))
       | _ \<Rightarrow> closing A Z (NewOracleError UnexpectedConnectResponse None []))"

text \<open>At most four redirects and four resends are followed, so ten rounds are enough.\<close>

definition connect ::
  "'nt NTAdapter \<Rightarrow> codec \<Rightarrow> 'nt transport \<Rightarrow> naming_env \<Rightarrow> nat \<Rightarrow> TransportAddress \<Rightarrow> ('nt networkSession, unit) op" where
  "connect A Z T N fuel address =
     bindE (transportConnect T address) (\<lambda>_.
     bindE (getE (\<lambda>s. (cData s, sAtts s))) (\<lambda>(cdata, a).
     bindE (liftE (connectPacket_marshal cdata a 0)) (\<lambda>connectPkt.
       catchE (sendConnect A Z fuel connectPkt) (closing A Z) (\<lambda>_.
         connect_loop A Z T N fuel 10 connectPkt address))))"

subsection \<open>Connecting to an attempt\<close>

definition sanitizeCIDValue :: "string \<Rightarrow> string" where
  "sanitizeCIDValue v0 =
     (let v = TrimSpace v0 in
      if v = [] then ''unknown''
      else map (\<lambda>c. if c = CHR ''('' \<or> c = CHR '')'' \<or> c = CHR ''='' then CHR ''_'' else c) v)"

record process_info =
  ProgramName :: string
  HostName :: string
  UserName :: string

definition buildCIDNode :: "process_info \<Rightarrow> Node" where
  "buildCIDNode i =
     Node ''CID'' []
       [Node ''PROGRAM'' (sanitizeCIDValue (ProgramName i)) [],
        Node ''HOST'' (sanitizeCIDValue (HostName i)) [],
        Node ''USER'' (sanitizeCIDValue (UserName i)) []]"

text \<open>\<open>connectData\<close> is a pointer into the tree: the node that \<open>GetNode(DESCRIPTION/CONNECT_DATA)\<close> finds, the
  first child of that name, or a new child of the root.\<close>

fun append_to_first :: "string \<Rightarrow> Node list \<Rightarrow> Node list \<Rightarrow> Node list" where
  "append_to_first name extra [] = []"
| "append_to_first name extra (c # cs) =
     (if Name c = name then Node (Name c) (Value c) (Children c @ extra) # cs
      else c # append_to_first name extra cs)"

definition add_connect_data :: "Node list \<Rightarrow> Node \<Rightarrow> Node" where
  "add_connect_data extra rootNode =
     (if is_ok (GetNode rootNode ''DESCRIPTION/CONNECT_DATA'')
      then Node (Name rootNode) (Value rootNode) (append_to_first ''CONNECT_DATA'' extra (Children rootNode))
      else Node (Name rootNode) (Value rootNode) (Children rootNode @ [Node ''CONNECT_DATA'' [] extra]))"

record connect_args =
  ca_getenv :: "string \<Rightarrow> string"
  ca_GenUUID :: "string result"
  ca_ReadFile :: "string \<Rightarrow> byte list result"
  ca_process :: process_info

definition option_address :: "ConnectionOption \<Rightarrow> TransportAddress" where
  "option_address opt =
     (let a = opt_Address opt in
      \<lparr>ta_Address = \<lparr>Protocol = Protocol a, Host = host_key a, Port = (if Port a = 0 then 1521 else Port a),
         HTTPSProxy = HTTPSProxy a, HTTPSProxyPort = HTTPSProxyPort a, OriginHost = [], ResolvedIP = ResolvedIP a\<rparr>,
       ta_Hostname = Host a, ta_HTTPSProxy = HTTPSProxy a, ta_HTTPSProxyPort = HTTPSProxyPort a\<rparr>)"

definition session_atts :: "connect_args \<Rightarrow> ConnectionOption \<Rightarrow> string \<Rightarrow> sessionAtts" where
  "session_atts X opt connectionID =
     (case opt_Description opt of
        None \<Rightarrow> newSessionAtts connectionID
      | Some d \<Rightarrow> setFrom (ca_getenv X) d (newSessionAtts connectionID))"

definition connect_string :: "connect_args \<Rightarrow> sessionAtts \<Rightarrow> ConnectionOption \<Rightarrow> string result" where
  "connect_string X a opt =
     andThen (Parse (opt_ConnectString opt)) (\<lambda>rootNode.
       Inr (ToString (add_connect_data [buildCIDNode (ca_process X), Node ''CONNECTION_ID'' (at_Connectionid (sa_nt a)) []] rootNode)))"

definition ConnectToOptionWithConnectionID ::
  "'nt NTAdapter \<Rightarrow> codec \<Rightarrow> 'nt transport \<Rightarrow> naming_env \<Rightarrow> connect_args \<Rightarrow> nat \<Rightarrow> ConnectionOption \<Rightarrow> string \<Rightarrow>
   ('nt networkSession, unit) op" where
  "ConnectToOptionWithConnectionID A Z T N X fuel opt connectionID =
     bindE (modE (\<lambda>s. s\<lparr>sAtts := session_atts X opt connectionID\<rparr>)) (\<lambda>_.
     bindE (atts_op (prepare (ca_GenUUID X) (ca_ReadFile X) (Protocol (opt_Address opt)))) (\<lambda>_.
     bindE (getE sAtts) (\<lambda>a.
     bindE (liftE (connect_string X a opt)) (\<lambda>str.
     bindE (modE (\<lambda>s. s\<lparr>cData := bytes_of str\<rparr>)) (\<lambda>_.
       connect A Z T N fuel (option_address opt))))))"

subsection \<open>What the exchange keeps\<close>

text \<open>Receiving and sending do not touch the counters, keep the adapter and keep the SDU in its bounds.\<close>

definition intact :: "int \<Rightarrow> int \<Rightarrow> 'nt networkSession \<Rightarrow> bool" where
  "intact r q s \<longleftrightarrow> redirectCount s = r \<and> resendCount s = q \<and> ntAdapter s \<noteq> None \<and>
     512 \<le> sdu (sAtts s) \<and> sdu (sAtts s) \<le> 2097152"

definition keeps :: "('nt networkSession, 'a) op \<Rightarrow> bool" where
  "keeps f \<longleftrightarrow> (\<forall>r q s. intact r q s \<longrightarrow> intact r q (snd (f s)))"

named_theorems keeps_intro "operations that leave the counters, the adapter and the bounds intact"

lemma keepsD: "keeps f \<Longrightarrow> intact r q s \<Longrightarrow> f s = (res, t) \<Longrightarrow> intact r q t"
  unfolding keeps_def by (metis snd_conv)

lemma keeps_simple [keeps_intro]: "keeps (retE v)" "keeps (throwE e)" "keeps (getE g)" "keeps (liftE x)"
  by (simp_all add: keeps_def liftE_def)

lemma keeps_modE [keeps_intro]: "(\<And>r q s. intact r q s \<Longrightarrow> intact r q (f s)) \<Longrightarrow> keeps (modE f)"
  by (simp add: keeps_def)

lemma keeps_bindE [keeps_intro]:
  fixes f :: "('nt networkSession, 'a) op"
  assumes "keeps f" "\<And>v. keeps (k v)"
  shows "keeps (bindE f k)"
  unfolding keeps_def
proof (intro allI impI)
  fix r q and s :: "'nt networkSession" assume i: "intact r q s"
  obtain res t where f: "f s = (res, t)" by (cases "f s")
  then have "intact r q t" using keepsD [OF assms(1) i] by blast
  then show "intact r q (snd (bindE f k s))"
    using f assms(2) by (cases res) (simp_all add: bindE_def keeps_def)
qed

lemma keeps_split [keeps_intro]:
  "(b \<Longrightarrow> keeps f) \<Longrightarrow> (\<not> b \<Longrightarrow> keeps g) \<Longrightarrow> keeps (if b then f else g)"
  "keeps f \<Longrightarrow> (\<And>x. keeps (h x)) \<Longrightarrow> keeps (case opt of None \<Rightarrow> f | Some x \<Rightarrow> h x)"
  "(\<And>x. keeps (f' x)) \<Longrightarrow> (\<And>y. keeps (g' y)) \<Longrightarrow> keeps (case sm of Inl x \<Rightarrow> f' x | Inr y \<Rightarrow> g' y)"
  "(\<And>x y. keeps (p x y)) \<Longrightarrow> keeps (case pr of (x, y) \<Rightarrow> p x y)"
  by (simp_all split: option.splits sum.splits prod.splits)

lemma keeps_finallyE [keeps_intro]:
  "keeps m \<Longrightarrow> (\<And>r q s. intact r q s \<Longrightarrow> intact r q (f s)) \<Longrightarrow> keeps (finallyE m f)"
  unfolding keeps_def finallyE_def by (metis (mono_tags, lifting) case_prod_beta snd_conv)

lemma keeps_adapter [keeps_intro]: "keeps (ns_send A bs)" "keeps (ns_receive A from to n)"
  by (auto simp: keeps_def ns_send_def ns_receive_def intact_def split: option.splits prod.splits)

lemma keeps_SendPacket [keeps_intro]: "keeps (SendPacket A Z bs)"
  unfolding SendPacket_def Let_def by (intro keeps_intro; simp add: intact_def)

lemma keeps_prepare_send [keeps_intro]: "keeps (prepare_send fl)"
  by (simp add: keeps_def prepare_send_def intact_def split: sum.splits)

lemma keeps_send_filled [keeps_intro]: "keeps (send_filled A Z)"
  using keeps_SendPacket [of A Z] by (simp add: keeps_def send_filled_def Let_def)

lemma keeps_read_packet [keeps_intro]: "keeps (read_packet A)"
  unfolding read_packet_def Let_def by (intro keeps_intro)

lemma accept_sdu:
  assumes "acceptPacket_unmarshal buf h a = (res, a')" "512 \<le> sdu a" "sdu a \<le> 2097152"
  shows "512 \<le> sdu a' \<and> sdu a' \<le> 2097152"
proof (cases res)
  case (Inr p)
  show ?thesis
    using assms(1) unfolding Inr
  proof (cases rule: acceptPacket_unmarshal_cases)
    case 1
    then show ?thesis using accept_largeSDU_ok(1,2) [OF 1(1)] by simp
  next
    case (2 s t b)
    then show ?thesis using clamp_bounds [of NSPMNSDULN NSPMXSDULN s] by simp
  qed
next
  case (Inl e)
  have fails: "wp (accept_largeSDU buf) (\<lambda>_ _. True) (\<lambda>_ b'. sdu b' = sdu b) b" for b
    by (simp add: accept_largeSDU_def Let_def wp_simps wp_def split: sum.splits)
  have err: "sdu b' = sdu b" if "accept_largeSDU buf b = (Inl e', b')" for b b' e'
    using wp_err [OF fails that] .
  let ?b = "a\<lparr>version := be_val (take 2 (drop 8 buf)), options := be_val (take 2 (drop 10 buf))\<rparr>"
  obtain r2 b2 where r2: "accept_largeSDU buf ?b = (r2, b2)" by (cases "accept_largeSDU buf ?b")
  have "sdu a' = sdu a"
  proof (cases "length buf < 24 \<or> \<not> 315 \<le> be_val (take 2 (drop 8 buf))")
    case True
    then show ?thesis using assms(1) Inl by (auto simp: acceptPacket_unmarshal_def split: if_splits)
  next
    case False
    then show ?thesis
      using assms(1) Inl r2 err [of ?b] by (cases r2) (auto simp: acceptPacket_unmarshal_def bindE_def)
  qed
  then show ?thesis using assms by simp
qed

lemma keeps_parts [keeps_intro]:
  "keeps (atts_op (acceptPacket_unmarshal buf hdr))" "keeps (control_op f)" "keeps (on_rcv g)"
  using accept_sdu
  by (auto simp: keeps_def atts_op_def control_op_def on_rcv_def intact_def split: prod.splits)

lemma keeps_processPacket [keeps_intro]: "keeps (processPacket Z buf hdr)"
  unfolding processPacket_def inflate_data_def Let_def
  by (intro keeps_intro; simp add: intact_def note_marker_def)

lemma keeps_Reset_with [keeps_intro]: "keeps recv \<Longrightarrow> keeps (Reset_with A Z recv n)"
proof -
  assume recv: "keeps recv"
  have loop: "keeps (reset_loop recv m)" for m
  proof (induction m)
    case (Suc m)
    show ?case unfolding reset_loop.simps by (intro keeps_intro recv Suc)
  qed (simp only: reset_loop.simps keeps_intro)
  show ?thesis
    unfolding Reset_with_def send_marker_def
    by (intro keeps_intro loop; simp add: intact_def end_reset_def)
qed

lemma keeps_recvPacket [keeps_intro]: "keeps (recvPacket A Z fuel)"
proof (induction fuel)
  case (Suc fuel)
  show ?case
    unfolding recvPacket.simps after_read_def by (intro keeps_intro Suc; simp add: intact_def)
qed (simp only: recvPacket.simps keeps_intro)

lemma keeps_sendConnect [keeps_intro]: "keeps (sendConnect A Z fuel cp)"
proof -
  have loop: "keeps (Send_loop A Z fuel rest)" for fuel rest
  proof (induction fuel arbitrary: rest)
    case (Suc fuel)
    show ?case unfolding Send_loop.simps by (intro keeps_intro Suc; simp add: intact_def)
  qed (unfold Send_loop.simps, intro keeps_intro)
  show ?thesis
    unfolding sendConnect_def Send_def by (intro keeps_intro loop; simp add: intact_def)
qed

lemma keeps_transportConnect [keeps_intro]: "keeps (transportConnect T address)"
  by (simp add: keeps_def transportConnect_def mark_down_def intact_def Let_def split: prod.splits sum.splits)

lemma keeps_nt_drop [keeps_intro]: "keeps (nt_drop A)"
  by (auto simp: keeps_def nt_drop_def intact_def split: option.splits prod.splits)

lemma keeps_overflow_data [keeps_intro]: "keeps (overflow_data A Z fuel over bs)"
  unfolding overflow_data_def by (intro keeps_intro)

subsection \<open>The outcome of the exchange\<close>

lemma wp_catchE [wp_simps]:
  "wp (catchE m h k) Q E s = wp m (\<lambda>v. wp (k v) Q E) (\<lambda>e t. if is_panic e then E e t else wp (h e) Q E t) s"
  by (auto simp: wp_def catchE_def split: prod.splits sum.splits)

lemma wp_trivial [simp]: "wp f (\<lambda>_ _. True) (\<lambda>_ _. True) s"
  by (simp add: wp_def split: prod.splits sum.splits)

lemma keeps_wp: "keeps f \<Longrightarrow> intact r q s \<Longrightarrow> (\<And>v t. intact r q t \<Longrightarrow> Q v t) \<Longrightarrow> (\<And>e t. E e t) \<Longrightarrow> wp f Q E s"
  by (auto simp: wp_def dest: keepsD split: prod.splits sum.splits)

text \<open>A session that can be used: the negotiated version is supported and the buffers have the negotiated size.\<close>

definition established :: "'nt networkSession \<Rightarrow> bool" where
  "established s \<longleftrightarrow> networkSession.connected s \<and> ntAdapter s \<noteq> None \<and> TNS_VERSION_MINIMUM \<le> version (sAtts s) \<and>
     512 \<le> sdu (sAtts s) \<and> sdu (sAtts s) \<le> 2097152 \<and>
     length (rcvBuf s) = nat (sdu (sAtts s)) \<and> length (dp_buf (sndDatapkt s)) = nat (sdu (sAtts s)) \<and>
     dp_bufLen (sndDatapkt s) = sdu (sAtts s) \<and> dp_offset (sndDatapkt s) = int NSPDADAT"

lemma handleAccept_established:
  assumes "intact r q s"
  shows "wp (handleAccept A Z T p) (\<lambda>_. established) (\<lambda>_ _. True) s"
proof -
  have opened: "established (open_session t)" if "intact r q t" "300 \<le> version (sAtts t)" for t :: "'a networkSession"
    using that by (simp add: established_def open_session_def intact_def dataPacket_marshal_def Let_def)
  have post: "wp (post_accept T) (\<lambda>_. \<lambda>t. established (open_session t)) (\<lambda>_ _. True) t"
    if "intact r q t" "300 \<le> version (sAtts t)" for t
    using that opened by (auto simp: wp_def post_accept_def intact_def split: option.splits prod.splits sum.splits)
  have flags: "wp (accept_flags2 p) (\<lambda>_ t. intact r q t \<and> 300 \<le> version (sAtts t)) (\<lambda>_ _. True) t"
    if "intact r q t" "300 \<le> version (sAtts t)" for t
    using that by (auto simp: accept_flags2_def wp_simps wp_def intact_def split: sum.splits)
  have rest: "wp (post_accept T) (\<lambda>_ t. b \<longrightarrow> established (open_session t)) (\<lambda>_ _. True) t"
    if "intact r q t" "300 \<le> version (sAtts t)" for t b
    by (rule wp_mono [OF post [OF that]]) simp_all
  have all: "wp (accept_flags2 p) (\<lambda>_. wp (post_accept T) (\<lambda>_ t. b \<longrightarrow> established (open_session t)) (\<lambda>_ _. True)) (\<lambda>_ _. True) s"
    if "300 \<le> version (sAtts s)" for b
    by (rule wp_mono [OF flags [OF assms that]]) (simp_all add: rest)
  show ?thesis
    unfolding handleAccept_def wp_bindE wp_getE wp_modE wp_if wp_throwE wp_retE
    using all rest [OF assms] by auto
qed

lemma handleRefuse_fails: "wp (handleRefuse A Z fuel p address) (\<lambda>_ _. False) (\<lambda>_ _. True) s"
  unfolding handleRefuse_def wp_bindE wp_getE prod.case wp_throwE by simp

lemma handleRedirect_intact:
  assumes "intact r q s"
  shows "wp (handleRedirect A Z T N fuel p address) (\<lambda>_. \<lambda>t. intact (r + 1) q t \<and> r < maxRedirectCount) (\<lambda>_ _. True) s"
proof -
  let ?s = "s\<lparr>redirectCount := redirectCount s + 1\<rparr>"
  have i: "intact (r + 1) q ?s" using assms by (simp add: intact_def)
  define body where "body = bindE (overflow_data A Z fuel (rd_overflow p) (rd_dataBuf p)) (\<lambda>dataBuf.
         bindE (getE cData) (\<lambda>cdata.
         case redirect_parts p dataBuf cdata of (addrStr, redirectConnectData) \<Rightarrow>
         bindE (liftE (redirect_target N addrStr address)) (\<lambda>newAddress.
         bindE (nt_drop A) (\<lambda>_.
         bindE (transportConnect T newAddress) (\<lambda>_.
         bindE (modE (\<lambda>s. s\<lparr>connected := True, sndBuf := replicate (nat (sdu (sAtts s))) 0,
                  sndDatapkt := dataPacket_marshal (replicate (nat (sdu (sAtts s))) 0) (sndDatapkt s)\<rparr>)) (\<lambda>_.
         bindE (getE sAtts) (\<lambda>a.
         bindE (liftE (connectPacket_marshal redirectConnectData a NSPFRDR)) (\<lambda>connectPkt.
           sendConnect A Z fuel connectPkt))))))))"
  have keeps: "keeps body" unfolding body_def by (intro keeps_intro; simp add: intact_def)
  have "wp body (\<lambda>_. intact (r + 1) q) (\<lambda>_ _. True) ?s"
    by (rule keeps_wp [OF keeps i]) simp_all
  then have "wp body (\<lambda>_ t. intact (r + 1) q t \<and> r < maxRedirectCount) (\<lambda>_ _. True) ?s" if "r < maxRedirectCount"
    using that by simp
  moreover have "redirectCount ?s = r + 1" using i by (simp add: intact_def)
  ultimately show ?thesis
    unfolding handleRedirect_def body_def [symmetric] wp_bindE [of "modE _"] wp_bindE [of "getE _"] wp_modE wp_getE
    by (simp add: wp_if wp_throwE)
qed

lemma handleResend_intact:
  assumes "intact r q s"
  shows "wp (handleResend A Z T fuel p cp) (\<lambda>_. intact r q) (\<lambda>_ _. True) s"
proof -
  have send: "intact r q t'" if "intact r q t" "sendConnect A Z fuel cp t = (Inr u, t')" for t t' u
    using that keepsD [OF keeps_sendConnect] by blast
  show ?thesis
    using assms
    by (auto simp: handleResend_def wp_def bindE_def intact_def intro: send [unfolded intact_def, THEN conjunct1]
      dest!: send [rotated] split: if_splits option.splits prod.splits sum.splits)
qed

text \<open>The rounds are enough: four redirects and four resends are followed at most.\<close>

lemma connect_loop_rounds:
  assumes "intact r q s" "nat (maxRedirectCount - r) + nat (maxResendCount - q) < rounds"
  shows "connect_loop A Z T N fuel (rounds + k) cp address s = connect_loop A Z T N fuel rounds cp address s"
  using assms
proof (induction rounds arbitrary: r q s)
  case (Suc n)
  obtain res t where recv: "recvPacket A Z fuel s = (res, t)" by (cases "recvPacket A Z fuel s")
  then have t: "intact r q t" using keepsD [OF keeps_recvPacket Suc.prems(1)] by blast
  have redirect: "catchE (handleRedirect A Z T N fuel p address) h (\<lambda>_. connect_loop A Z T N fuel (n + k) cp address) t =
      catchE (handleRedirect A Z T N fuel p address) h (\<lambda>_. connect_loop A Z T N fuel n cp address) t" for p h
    using handleRedirect_intact [OF t, of A Z T N fuel p address] Suc.IH [of "r + 1" q] Suc.prems(2)
    by (auto simp: catchE_def wp_def split: prod.splits sum.splits)
  let ?u = "t\<lparr>resendCount := resendCount t + 1\<rparr>"
  have u: "intact r (q + 1) ?u" "resendCount t = q" using t by (simp_all add: intact_def)
  have resend: "catchE (handleResend A Z T fuel p cp) h (\<lambda>_. connect_loop A Z T N fuel (n + k) cp address) ?u =
      catchE (handleResend A Z T fuel p cp) h (\<lambda>_. connect_loop A Z T N fuel n cp address) ?u"
    if "q < maxResendCount" for p h
    using handleResend_intact [OF u(1), of A Z T fuel p cp] Suc.IH [of r "q + 1"] Suc.prems(2) that
    by (auto simp: catchE_def wp_def split: prod.splits sum.splits)
  show ?case
    using redirect resend u(2)
    by (cases res) (auto simp: catchE_def [of "recvPacket A Z fuel"] recv split: packet.splits)
qed simp

lemma SendPacket_connected: "networkSession.connected (snd (SendPacket A Z bs s)) = networkSession.connected s"
  by (auto simp: SendPacket_def Let_def bindE_def ns_send_def split: sum.splits option.splits prod.splits)

lemma last_data_connected:
  "networkSession.connected (snd (bindE (prepare_send fl) (\<lambda>_ t. SendPacket A Z (dp_buf (sndDatapkt t)) t) s)) =
   networkSession.connected s"
  by (cases "Prepare2Send fl (sAtts s) (sndDatapkt s)") (simp_all add: prepare_send_def bindE_def SendPacket_connected)

text \<open>What connecting needs from the adapters: a new one is closed, and a failed \<open>Connect\<close> leaves nothing open.\<close>

locale connector =
  fixes T :: "'nt transport" and closed :: "'nt \<Rightarrow> bool"
  assumes new_closed: "closed (tr_new T p a)"
    and connect_failed: "closed nt \<Longrightarrow> tr_Connect T n address nt = (Inl e, nt') \<Longrightarrow> closed nt'"
begin

definition released :: "'nt networkSession \<Rightarrow> bool" where
  "released s \<longleftrightarrow> \<not> networkSession.connected s \<and> (\<forall>nt. ntAdapter s = Some nt \<longrightarrow> closed nt)"

abbreviation failure :: "go_error \<Rightarrow> 'nt networkSession \<Rightarrow> bool" where
  "failure \<equiv> \<lambda>e t. is_panic e \<or> released t"

lemma Disconnect_released: "wp (Disconnect A Z fl) (\<lambda>_. released) failure s"
proof (cases "networkSession.connected s")
  case False
  then show ?thesis
    by (auto simp: Disconnect_def wp_def nt_close_def released_def split: option.splits prod.splits sum.splits)
next
  case True
  let ?last = "if fl AND NSFIMM = 0
     then bindE (prepare_send NSPDAFEOF) (\<lambda>_ t. SendPacket A Z (dp_buf (sndDatapkt t)) t) (s\<lparr>connected := False\<rparr>)
     else (Inr (), s\<lparr>connected := False\<rparr>)"
  obtain err s1 where last: "?last = (err, s1)" by (cases ?last)
  have "\<not> networkSession.connected (snd ?last)"
    by (simp add: last_data_connected)
  then have s1: "\<not> networkSession.connected s1" using last by simp
  then have close:
    "\<And>u s2. nt_close A s1 = (Inr u, s2) \<Longrightarrow> \<not> networkSession.connected s2 \<and> ntAdapter s2 = None"
    "\<And>e s2. nt_close A s1 = (Inl e, s2) \<Longrightarrow> is_panic e \<or> \<not> networkSession.connected s2 \<and> ntAdapter s2 = None"
    by (auto simp: nt_close_def split: option.splits prod.splits)
  show ?thesis
    using True last close s1
    by (auto simp: Disconnect_def wp_def released_def Let_def split: prod.splits sum.splits)
qed

lemma closing_released: "wp (closing A Z e) Q failure s"
  unfolding closing_def wp_bindE wp_throwE
  by (rule wp_mono [OF Disconnect_released]) simp_all

lemma catch_closing:
  assumes "wp m (\<lambda>v. wp (k v) Q failure) (\<lambda>_ _. True) s"
  shows "wp (catchE m (closing A Z) k) Q failure s"
  unfolding wp_catchE using assms by (rule wp_mono) (simp_all add: closing_released)

lemma connect_loop_outcome:
  "intact r q s \<Longrightarrow> wp (connect_loop A Z T N fuel rounds cp address) (\<lambda>_. established) failure s"
proof (induction rounds arbitrary: r q s)
  case (Suc n)
  have accept: "wp (catchE (handleAccept A Z T p) (closing A Z) retE) (\<lambda>_. established) failure t"
    if "intact r q t" for p t
    by (rule catch_closing, unfold wp_retE, rule handleAccept_established [OF that])
  have refuse: "wp (catchE (handleRefuse A Z fuel p address) (closing A Z) (\<lambda>_. Disconnect A Z 0)) (\<lambda>_. established) failure t" for p t
    by (rule catch_closing, rule wp_mono [OF handleRefuse_fails]) simp_all
  have redirect: "wp (catchE (handleRedirect A Z T N fuel p address) (closing A Z) (\<lambda>_. connect_loop A Z T N fuel n cp address)) (\<lambda>_. established) failure t"
    if "intact r q t" for p t
    by (rule catch_closing, rule wp_mono [OF handleRedirect_intact [OF that]]) (auto intro: Suc.IH)
  have resend: "wp (catchE (handleResend A Z T fuel p cp) (closing A Z) (\<lambda>_. connect_loop A Z T N fuel n cp address)) (\<lambda>_. established) failure t"
    if "intact r q' t" for p t q'
    by (rule catch_closing, rule wp_mono [OF handleResend_intact [OF that]]) (auto intro: Suc.IH)
  have count: "intact r (q + 1) (t\<lparr>resendCount := resendCount t + 1\<rparr>)" if "intact r q t" for t :: "'nt networkSession"
    using that by (simp add: intact_def)
  show ?case
    unfolding connect_loop.simps
    by (rule catch_closing, rule keeps_wp [OF keeps_recvPacket Suc.prems])
      (auto simp: accept refuse redirect closing_released wp_bindE wp_modE wp_getE resend [OF count] split: packet.splits)
qed (simp add: wp_throwE)

lemma connect_outcome:
  assumes "ntAdapter s = None" "\<not> networkSession.connected s" "512 \<le> sdu (sAtts s)" "sdu (sAtts s) \<le> 2097152"
  shows "wp (connect A Z T N fuel address) (\<lambda>_. established) failure s"
proof -
  have "wp (transportConnect T address) (\<lambda>_. intact (redirectCount s) (resendCount s)) failure s"
    using assms
    by (auto dest!: connect_failed [OF new_closed] simp: wp_def transportConnect_def intact_def released_def mark_down_def Let_def split: prod.splits sum.splits)
  moreover have "wp (bindE (getE (\<lambda>s. (cData s, sAtts s))) (\<lambda>(cdata, a).
     bindE (liftE (connectPacket_marshal cdata a 0)) (\<lambda>connectPkt.
       catchE (sendConnect A Z fuel connectPkt) (closing A Z) (\<lambda>_.
         connect_loop A Z T N fuel 10 connectPkt address)))) (\<lambda>_. established) failure t"
    if t: "intact r q t" for r q t
  proof -
    have "wp (catchE (sendConnect A Z fuel p) (closing A Z) (\<lambda>_. connect_loop A Z T N fuel 10 p address)) (\<lambda>_. established) failure t" for p
      by (rule catch_closing, rule keeps_wp [OF keeps_sendConnect t]) (auto intro: connect_loop_outcome)
    moreover have "\<exists>p. connectPacket_marshal c a 0 = Inr p" for c a
      by (simp add: connectPacket_marshal_def header_marshal_def Let_def andThen_def)
    ultimately show ?thesis
      by (auto simp: wp_bindE wp_getE wp_liftE split: sum.splits) (metis sum.distinct(1))
  qed
  ultimately show ?thesis
    unfolding connect_def wp_bindE [of "transportConnect T address"] by (auto elim: wp_mono)
qed

end

subsection \<open>Connecting over TCP\<close>

definition tcp_transport :: "(go_error \<Rightarrow> error_view) \<Rightarrow> (int \<Rightarrow> network) \<Rightarrow> (int \<Rightarrow> bool) \<Rightarrow> nttcp transport" where
  "tcp_transport view net deadline =
     \<lparr>tr_new = (\<lambda>_ atts. NewNTTCP atts 1521), tr_Connect = (\<lambda>n. nttcp_Connect view (net n)),
      tr_post_accept = retE (), tr_reneg = (\<lambda>_. None), tr_view = view, tr_ctx_deadline = deadline\<rparr>"

interpretation tcp_conn: connector "tcp_transport view net deadline" "\<lambda>nt. nt_stream nt = None"
  for view net deadline
proof unfold_locales
  fix p a
  show "nt_stream (tr_new (tcp_transport view net deadline) p a) = None"
    by (simp add: tcp_transport_def NewNTTCP_def)
next
  fix nt n address e nt'
  assume "nt_stream nt = None" "tr_Connect (tcp_transport view net deadline) n address nt = (Inl e, nt')"
  then show "nt_stream nt' = None"
    by (auto simp: tcp_transport_def nttcp_Connect_def nTConnect_def nttcp_Disconnect_def Let_def
      split: sum.splits prod.splits if_splits option.splits proxy_outcome.splits ctx_cause.splits)
qed

lemma prepare_sdu: "wp (prepare G R p) (\<lambda>_ a. 512 \<le> sdu a \<and> sdu a \<le> 2097152) (\<lambda>_ _. True) a"
proof -
  have ok: "512 \<le> clamp n NSPMNSDULN NSPABSSDULN" "clamp n NSPMNSDULN NSPABSSDULN \<le> 2097152" for n
    using clamp_bounds [of NSPMNSDULN NSPABSSDULN n] by simp_all
  show ?thesis
    unfolding prepare_def wp_simps by (simp add: Let_def ok wp_simps split: sum.splits)
qed

definition nothing_open :: "nttcp networkSession \<Rightarrow> bool" where
  "nothing_open s \<longleftrightarrow> \<not> networkSession.connected s \<and> (case ntAdapter s of None \<Rightarrow> True | Some nt \<Rightarrow> nt_stream nt = None)"

lemma released_nothing_open: "tcp_conn.released s \<longleftrightarrow> nothing_open s"
  by (auto simp: tcp_conn.released_def nothing_open_def split: option.splits)


text \<open>A listener that answers with \<open>answer\<close> on every connection, and the data of a client.\<close>

definition example_net :: "byte list list \<Rightarrow> int \<Rightarrow> network" where
  "example_net answer n =
     \<lparr>net_dial = (\<lambda>_. Inr \<lparr>incoming = answer, in_end = ConnFails io_EOF, outgoing = [], out_end = None\<rparr>),
      net_proxy = (\<lambda>_. ProxyOk), net_cause = CauseOther io_EOF, net_options = None\<rparr>"

definition example_view :: "go_error \<Rightarrow> error_view" where
  "example_view e = \<lparr>ev_dns = False, ev_op = False, ev_deadline = False, ev_op_timeout = False, ev_refused = False,
     ev_unreachable = False, ev_timeout_cause = False, ev_net_timeout = False\<rparr>"

definition example_naming :: naming_env where
  "example_naming =
     (let e = \<lparr>ctx_done = False, shuffle = id, down = (\<lambda>_. False)\<rparr>
      in \<lparr>ne_resolve = (\<lambda>a. Inr [a]), ne_cycle = (\<lambda>_. e), ne_shuffle = id, ne_down = (\<lambda>_. False), ne_next = (\<lambda>_ _. e)\<rparr>)"

definition example_args :: connect_args where
  "example_args = \<lparr>ca_getenv = (\<lambda>_. []), ca_GenUUID = Inr ''id'', ca_ReadFile = (\<lambda>_. Inl io_EOF),
     ca_process = \<lparr>ProgramName = ''p'', HostName = ''h'', UserName = ''u''\<rparr>\<rparr>"

definition example_option :: ConnectionOption where
  "example_option = \<lparr>opt_Address = NewAddress\<lparr>Host := ''db'', Port := 1521\<rparr>,
     opt_Description = Some (NewDescription\<lparr>SDU := 512\<rparr>), opt_ConnectData = zero_ConnectData, opt_ConnectDataNode = None,
     opt_ConnectDataStr = [], opt_ConnectString = ''(DESCRIPTION=(CONNECT_DATA=(SERVICE_NAME=s)))''\<rparr>"

text \<open>An accept packet of version 3.00 with an SDU of 512 bytes.\<close>

definition example_accept :: "byte list" where
  "example_accept = [0, 24, 0, 0, 2, 0, 0, 0, 1, 44, 0, 0, 2, 0, 2, 0, 0, 0, 0, 0, 0, 0, 0, 0]"

abbreviation "example_transport answer \<equiv> tcp_transport example_view (example_net answer) (\<lambda>_. False)"

definition example_packet :: connectPacket where
  "example_packet = \<lparr>cp_hdr = empty_header, connectData = [], connectDataLen = 0, cp_overflow = False, cp_buf = []\<rparr>"

lemma example_accepted:
  "is_ok (fst (connect_loop tcp_adapter plain_codec (example_transport []) example_naming 2 1 example_packet
     (option_address example_option) (data_session 64 [example_accept])))"
  by code_simp



subsection \<open>The connect data\<close>

lemma sanitize_plain:
  assumes "CHR 0x22 \<notin> set v"
  shows "list_all value_char (sanitizeCIDValue v) \<and> \<not> is_space (last (sanitizeCIDValue v)) \<and> sanitizeCIDValue v \<noteq> []"
proof (cases "TrimSpace v = []")
  case True
  then show ?thesis by (simp add: sanitizeCIDValue_def value_char_def is_space_def)
next
  case False
  let ?f = "\<lambda>c. if c = CHR ''('' \<or> c = CHR '')'' \<or> c = CHR ''='' then CHR ''_'' else c"
  have "set (TrimSpace v) \<subseteq> set v"
    by (auto simp: TrimSpace_def TrimLeftFunc_def TrimRightFunc_def dest!: set_dropWhileD)
  then have "list_all value_char (map ?f (TrimSpace v))"
    using assms by (auto simp: list_all_iff value_char_def)
  moreover have "\<not> is_space (last (TrimSpace v))"
    using False hd_dropWhile [of is_space "rev (TrimLeftFunc is_space v)"]
    by (simp add: TrimSpace_def TrimRightFunc_def last_rev)
  then have "\<not> is_space (last (map ?f (TrimSpace v)))"
    using False by (auto simp: last_map is_space_def)
  ultimately show ?thesis using False by (simp add: sanitizeCIDValue_def Let_def)
qed

lemma append_to_first_plain:
  "list_all plain_node cs \<Longrightarrow> list_all plain_node extra \<Longrightarrow> list_all plain_node (append_to_first name extra cs)"
proof (induction name extra cs rule: append_to_first.induct)
  case (2 name extra c cs)
  then show ?case by (cases c) (auto simp: list_all_iff)
qed simp

lemma add_connect_data_plain:
  assumes "plain_node n" "list_all plain_node extra"
  shows "plain_node (add_connect_data extra n)"
proof (cases n)
  case (Node nm v cs)
  then show ?thesis
    using assms append_to_first_plain [of cs extra] by (auto simp: add_connect_data_def list_all_iff name_char_def is_space_def upper_char_def)
qed



subsection \<open>Where connecting goes wrong\<close>

text \<open>
  A listener can crash the client: after a refusal whose data is announced for the next packet it sends a break and a
  reset marker and then any packet but a data packet. The reset has set the offset and the length of the empty receive
  packet to ten, and the slice of its buffer panics.
\<close>

theorem refuse_after_reset_panics:
  "fst (connect_loop tcp_adapter plain_codec (example_transport []) example_naming 6 1 example_packet
     (option_address example_option) (data_session 64
       [[0, 12, 0, 0, 4, 0, 0, 0, 0, 0, 0, 0], marker_bytes False 1, marker_bytes False 2, [0, 8, 0, 0, 11, 0, 0, 0]])) =
   Inl (RuntimePanic ''slice bounds out of range'')"
  by code_simp

text \<open>The header flag of a redirected connect packet does not reach the wire.\<close>

theorem redirect_flag_lost:
  "map_sum id cp_buf (connectPacket_marshal cdata a fl) = map_sum id cp_buf (connectPacket_marshal cdata a 0)"
proof -
  have "header_marshal (h\<lparr>flags := fl\<rparr>) buf a g = header_marshal (h\<lparr>flags := 0\<rparr>) buf a g" for h buf g
    by (simp add: header_marshal_def)
  then have same: "header_marshal (empty_header\<lparr>packetLength := l, ptyp := t, flags := fl\<rparr>) buf a 0 =
      header_marshal (empty_header\<lparr>packetLength := l, ptyp := t, flags := 0\<rparr>) buf a 0" for l t buf
    by blast
  show ?thesis
    unfolding connectPacket_marshal_def Let_def same
    by (cases "header_marshal (empty_header\<lparr>packetLength := int (if length cdata \<le> MAX_CDATA_LEN then NSPCNL + length cdata else NSPCNL),
       ptyp := NSPTCN, flags := 0\<rparr>) (replicate (if length cdata \<le> MAX_CDATA_LEN then NSPCNL + length cdata else NSPCNL) 0) a 0")
      (simp_all add: andThen_def)
qed

text \<open>A redirect keeps the adapter of the first connection, whatever protocol its address asks for.\<close>

theorem redirect_keeps_adapter:
  "transportConnect (T\<lparr>tr_new := f\<rparr>) address (s\<lparr>ntAdapter := Some nt\<rparr>) = transportConnect T address (s\<lparr>ntAdapter := Some nt\<rparr>)"
proof -
  have "mark_down (T\<lparr>tr_new := f\<rparr>) = mark_down T" by (intro ext) (simp add: mark_down_def)
  then show ?thesis by (auto simp: transportConnect_def split: prod.split sum.split)
qed

text \<open>A double quote in the name of the program, the host or the user swallows the rest of the connect data.\<close>

theorem CID_quote_breaks_structure:
  "is_ok (Parse (ToString (buildCIDNode \<lparr>ProgramName = [CHR 0x22], HostName = ''h'', UserName = ''u''\<rparr>))) = False"
  by code_simp

text \<open>\<open>net.SplitHostPort\<close>, by which \<open>net.Dial\<close> takes an address apart, on an address that is not in brackets.\<close>

definition SplitHostPort :: "string \<Rightarrow> (string \<times> string) result" where
  "SplitHostPort hostport =
     (if CHR '':'' \<notin> set hostport then Inl (GoError ''missing port in address'')
      else let port = rev (takeWhile (\<lambda>c. c \<noteq> CHR '':'') (rev hostport));
               host = take (length hostport - length port - 1) hostport
           in if CHR '':'' \<in> set host then Inl (GoError ''too many colons in address'') else Inr (host, port))"

text \<open>The address that is dialled for an IPv6 host has no brackets and cannot be taken apart.\<close>

theorem dial_IPv6_fails:
  assumes "CHR '':'' \<in> set (Host a)" "0 \<le> Port a"
  shows "SplitHostPort (Address_String a) = Inl (GoError ''too many colons in address'')"
proof -
  have "CHR '':'' \<notin> set (FormatInt (Port a))"
    using assms(2) FormatUint_digits [of "nat (Port a)"] by (auto simp: FormatInt_def list_all_iff is_digit_def)
  then have "takeWhile (\<lambda>c. c \<noteq> CHR '':'') (rev (FormatInt (Port a)) @ CHR '':'' # rev (Host a)) = rev (FormatInt (Port a))"
    by (intro takeWhile_sep) simp
  then show ?thesis using assms(1) by (simp add: SplitHostPort_def Address_String_def Let_def)
qed

end
