(* ===== verification/Sql_Binds.thy ===== *)
theory Sql_Binds
  imports Go_Strings
begin

text \<open>
  SQL text: its coarse kind (\<open>internal/driver/ttc/sqlkind.go\<close>, with the table of \<open>pkg_init.go\<close>), its bind
  placeholders and the binding of arguments to them (\<open>sql_namedvalue_parser.go\<close>), and the quoting
  helpers (\<open>oracle/utils/enquote_helpers.go\<close>). Text is ASCII, so runes are characters. A position in
  the text is represented by the text from there on.
\<close>

subsection \<open>The kind of a statement\<close>

datatype sqlKind = select_kind | dml | plsql | other | refcursor

definition sqlKind_String :: "sqlKind \<Rightarrow> string" where
  "sqlKind_String k = (case k of select_kind \<Rightarrow> ''SELECT'' | dml \<Rightarrow> ''DML'' | plsql \<Rightarrow> ''PLSQL''
     | refcursor \<Rightarrow> ''REFCURSOR'' | other \<Rightarrow> ''OTHER'')"

definition sqlKindMap :: "string \<Rightarrow> sqlKind option" where
  "sqlKindMap = map_of
     ([(''select'', select_kind), (''insert'', dml), (''update'', dml), (''delete'', dml), (''merge'', dml),
       (''call'', plsql), (''begin'', plsql), (''declare'', plsql)] @
      [(k, other). k \<leftarrow> [''create'', ''alter'', ''drop'', ''truncate'', ''rename'', ''comment'', ''grant'', ''revoke'',
         ''analyze'', ''purge'', ''lock'', ''commit'', ''rollback'', ''savepoint'', ''set'', ''explain'', ''flashback'']] @
      [(''refcursor'', refcursor)])"

definition sql_blank :: "char \<Rightarrow> bool" where
  "sql_blank c = (c = CHR '' '' \<or> c = CHR 0x09 \<or> c = CHR 0x0D \<or> c = CHR 0x0A)"

definition classifySQL :: "string \<Rightarrow> sqlKind result" where
  "classifySQL q =
     (let s = TrimLeftFunc sql_blank q in
      if s = [] then Inl (NewOracleError StatementExecutionFailed None [ArgStr ''query'', ArgStr ''empty SQL''])
      else let stmt = ToLower (takeWhile (\<lambda>c. \<not> (sql_blank c \<or> c = CHR ''('')) s) in
           case sqlKindMap stmt of
             None \<Rightarrow> Inl (NewOracleError StatementExecutionFailed None
                       [ArgStr ''qualifiedSQLStatement'', ArgStr ''unrecognised query''])
           | Some k \<Rightarrow> Inr k)"

subsection \<open>Comments and quoted text\<close>

abbreviation quote :: char where "quote \<equiv> CHR 0x27"
abbreviation dquote :: char where "dquote \<equiv> CHR 0x22"

fun skip_block :: "string \<Rightarrow> string" where
  "skip_block (c # d # s) = (if c = CHR ''*'' \<and> d = CHR ''/'' then s else skip_block (d # s))"
| "skip_block s = []"

fun skip_alternative :: "char \<Rightarrow> string \<Rightarrow> string" where
  "skip_alternative closing (c # d # s) =
     (if c = closing \<and> d = quote then s else skip_alternative closing (d # s))"
| "skip_alternative closing s = []"

fun skip_quoted :: "char \<Rightarrow> string \<Rightarrow> string" where
  "skip_quoted q [] = []"
| "skip_quoted q [c] = []"
| "skip_quoted q (c # d # s) =
     (if c = q then (if d = q then skip_quoted q s else d # s) else skip_quoted q (d # s))"

definition closing_delimiter :: "char \<Rightarrow> char" where
  "closing_delimiter c =
     (if c = CHR ''['' then CHR '']'' else if c = CHR ''{'' then CHR ''}''
      else if c = CHR ''<'' then CHR ''>'' else if c = CHR ''('' then CHR '')'' else c)"

text \<open>The text after the comment or quoted text that starts here, if one does.\<close>

definition skipCommentOrString :: "string \<Rightarrow> string option" where
  "skipCommentOrString s =
     (case s of
        [] \<Rightarrow> None
      | c # r \<Rightarrow>
          if c = CHR ''-'' \<and> r \<noteq> [] \<and> hd r = CHR ''-'' then Some (dropWhile (\<lambda>x. x \<noteq> CHR 0x0A) (tl r))
          else if c = CHR ''/'' \<and> r \<noteq> [] \<and> hd r = CHR ''*'' then Some (skip_block (tl r))
          else if (c = CHR ''q'' \<or> c = CHR ''Q'') \<and> length r \<ge> 2 \<and> hd r = quote then
            (let d = r ! 1 in
             if d = CHR '' '' \<or> d = CHR 0x09 \<or> d = CHR 0x0D then None
             else Some (skip_alternative (closing_delimiter d) (drop 2 r)))
          else if c = quote then Some (skip_quoted quote r)
          else if c = dquote then Some (skip_quoted dquote r)
          else None)"

lemma skip_block_length: "length (skip_block s) \<le> length s"
  by (induction s rule: skip_block.induct) auto

lemma skip_alternative_length: "length (skip_alternative q s) \<le> length s"
  by (induction q s rule: skip_alternative.induct) auto

lemma skip_quoted_length: "length (skip_quoted q s) \<le> length s"
  by (induction q s rule: skip_quoted.induct) auto

lemma skip_shorter: "skipCommentOrString s = Some r \<Longrightarrow> length r < length s"
proof (cases s)
  case (Cons c t)
  assume skip: "skipCommentOrString s = Some r"
  have "length (dropWhile P (tl t)) \<le> length t" for P
    by (metis dual_order.trans length_dropWhile_le length_tl diff_le_self)
  moreover have "length (skip_block (tl t)) \<le> length t"
    using skip_block_length [of "tl t"] by simp
  moreover have "length (skip_alternative q (drop 2 t)) \<le> length t" for q
    using skip_alternative_length [of q "drop 2 t"] by simp
  ultimately show ?thesis
    using skip Cons skip_quoted_length [of _ t]
    by (auto simp: skipCommentOrString_def Let_def less_Suc_eq_le split: if_splits)
qed (simp add: skipCommentOrString_def)

subsection \<open>Placeholders\<close>

record bindDetails =
  bindNames :: "string list"
  bindMap :: "string \<Rightarrow> nat list option"
  uniqueNames :: "(string \<times> nat) list"

definition maxBindIndex :: nat where
  "maxBindIndex = 65535"

definition bind_char :: "char \<Rightarrow> bool" where
  "bind_char c = (is_digit c \<or> 65 \<le> (of_char c :: nat) \<and> (of_char c :: nat) \<le> 90 \<or>
     97 \<le> (of_char c :: nat) \<and> (of_char c :: nat) \<le> 122 \<or> c \<in> set ''_$#@'')"

text \<open>One occurrence of a placeholder. \<open>occIndex\<close> and the values of \<open>uniqueNames\<close> are \<open>uint16\<close>.\<close>

definition add_bind :: "string \<Rightarrow> bindDetails \<times> nat \<Rightarrow> (bindDetails \<times> nat) result" where
  "add_bind name st =
     (let (d, occIndex) = st;
          binds = bindNames d @ [name];
          found = (bindMap d name \<noteq> None)
      in if \<not> found \<and> length (uniqueNames d) > maxBindIndex
         then Inl (NewOracleError StatementParsingInvalidArgCount None
                [ArgInt (int (length (uniqueNames d)) + 1), ArgInt (int maxBindIndex + 1)])
         else if length binds > maxBindIndex + 1
         then Inl (NewOracleError StatementParsingPlaceholdersArgsMismatch None
                [ArgInt (int (length binds)), ArgInt (int maxBindIndex + 1)])
         else Inr (\<lparr>bindNames = binds,
                    bindMap = (bindMap d)(name \<mapsto> (case bindMap d name of None \<Rightarrow> [] | Some l \<Rightarrow> l) @ [occIndex]),
                    uniqueNames = (if found then uniqueNames d
                                   else uniqueNames d @ [(name, length (uniqueNames d) mod 2 ^ 16)])\<rparr>,
                   (occIndex + 1) mod 2 ^ 16))"

function parsePlaceholders_loop :: "string \<Rightarrow> bindDetails \<times> nat \<Rightarrow> (bindDetails \<times> nat) result" where
  "parsePlaceholders_loop s st =
     (case s of
        [] \<Rightarrow> Inr st
      | ch # r \<Rightarrow>
          (case skipCommentOrString s of
             Some rest \<Rightarrow> parsePlaceholders_loop rest st
           | None \<Rightarrow>
               if ch = CHR '':'' then
                 (if r = [] then Inl (NewOracleError StatementParsingDanglingColon None [])
                  else if hd r = CHR ''='' then parsePlaceholders_loop r st
                  else case add_bind (takeWhile bind_char r) st of
                         Inl e \<Rightarrow> Inl e
                       | Inr st' \<Rightarrow> parsePlaceholders_loop (dropWhile bind_char r) st')
               else parsePlaceholders_loop r st))"
  by pat_completeness auto
termination
  by (relation "measure (\<lambda>(s, st). length s)")
    (auto dest: skip_shorter simp: less_Suc_eq_le length_dropWhile_le)

declare parsePlaceholders_loop.simps [simp del]

definition no_binds :: bindDetails where
  "no_binds = \<lparr>bindNames = [], bindMap = Map.empty, uniqueNames = []\<rparr>"

definition parsePlaceholders :: "string \<Rightarrow> bindDetails result" where
  "parsePlaceholders sql =
     (case parsePlaceholders_loop sql (no_binds, 0) of Inl e \<Rightarrow> Inl e | Inr (d, occIndex) \<Rightarrow> Inr d)"

record qualifiedSQLStatement =
  query :: "byte list"
  kind :: sqlKind
  binds :: bindDetails
  cursorID :: int

definition newQualifiedSQLStatement :: "string \<Rightarrow> qualifiedSQLStatement result" where
  "newQualifiedSQLStatement q =
     (case classifySQL q of
        Inl e \<Rightarrow> Inl e
      | Inr k \<Rightarrow>
          (case parsePlaceholders q of
             Inl e \<Rightarrow> Inl e
           | Inr b \<Rightarrow> Inr \<lparr>query = bytes_of q, kind = k, binds = b, cursorID = 0\<rparr>))"

subsection \<open>Binding arguments\<close>

record 'v NamedValue =
  nv_Name :: string
  nv_Ordinal :: int
  nv_Value :: 'v

text \<open>\<open>allPlaceholders\<close> and \<open>filled\<close> together: a position that is not filled is \<open>None\<close>.\<close>

fun place_loop :: "bindDetails \<Rightarrow> nat list \<Rightarrow> 'v \<Rightarrow> 'v option list \<Rightarrow> 'v option list result" where
  "place_loop d [] v ps = Inr ps"
| "place_loop d (idx # indices) v ps =
     (if idx \<ge> length ps then Inl (RuntimePanic ''index out of range'')
      else if ps ! idx \<noteq> None
      then Inl (NewOracleError StatementParsingDuplicateArg None [ArgStr (bindNames d ! idx), ArgInt (int idx + 1)])
      else place_loop d indices v (ps[idx := Some v]))"

definition placeByKey :: "bindDetails \<Rightarrow> string \<Rightarrow> 'v NamedValue \<Rightarrow> 'v option list \<Rightarrow> 'v option list result" where
  "placeByKey d key src ps =
     (case bindMap d key of
        None \<Rightarrow> Inl (NewOracleError StatementParsingNameNotFound None [ArgStr (nv_Name src)])
      | Some indices \<Rightarrow> place_loop d indices (nv_Value src) ps)"

definition bind_arg :: "bindDetails \<Rightarrow> 'v NamedValue \<Rightarrow> 'v option list \<Rightarrow> 'v option list result" where
  "bind_arg d nv ps =
     (if nv_Name nv \<noteq> [] then placeByKey d (nv_Name nv) nv ps
      else if nv_Ordinal nv \<le> 0 \<or> nv_Ordinal nv > int (length (bindNames d))
      then Inl (NewOracleError StatementParsingInvalidOrdinal None
             [ArgInt (nv_Ordinal nv), ArgInt (int (length (bindNames d)))])
      else placeByKey d (bindNames d ! nat (nv_Ordinal nv - 1)) nv ps)"

text \<open>Only the positions that were filled are sent.\<close>

definition filled_values :: "'v option list \<Rightarrow> 'v list" where
  "filled_values ps = List.map_filter id ps"

definition extractInputBindValues :: "bindDetails \<Rightarrow> 'v NamedValue list \<Rightarrow> 'v list result" where
  "extractInputBindValues d inputs =
     (case foldE (bind_arg d) inputs (replicate (length (bindNames d)) None) of
        Inl e \<Rightarrow> Inl e
      | Inr ps \<Rightarrow> Inr (filled_values ps))"

definition bind_arg_plsql :: "bindDetails \<Rightarrow> 'v NamedValue \<Rightarrow> 'v option list \<Rightarrow> 'v option list result" where
  "bind_arg_plsql d nv ps =
     (if nv_Name nv \<noteq> [] then
        (case map_of (uniqueNames d) (nv_Name nv) of
           None \<Rightarrow> Inl (NewOracleError StatementParsingNameNotFound None [ArgStr (nv_Name nv)])
         | Some index \<Rightarrow>
             if index \<ge> length ps then Inl (RuntimePanic ''index out of range'')
             else if ps ! index \<noteq> None
             then Inl (NewOracleError StatementParsingDuplicateArg None [ArgStr (nv_Name nv), ArgInt (int index + 1)])
             else Inr (ps[index := Some (nv_Value nv)]))
      else if nv_Ordinal nv \<le> 0 \<or> nv_Ordinal nv > int (length (uniqueNames d))
      then Inl (NewOracleError StatementParsingInvalidOrdinal None
             [ArgInt (nv_Ordinal nv), ArgInt (int (length (uniqueNames d)))])
      else let index = nat (nv_Ordinal nv - 1) in
           if ps ! index \<noteq> None
           then Inl (NewOracleError StatementParsingDuplicateArg None [ArgStr (bindNames d ! index), ArgInt (nv_Ordinal nv)])
           else Inr (ps[index := Some (nv_Value nv)]))"

definition extractInputBindValuesForPlSql :: "bindDetails \<Rightarrow> 'v NamedValue list \<Rightarrow> 'v list result" where
  "extractInputBindValuesForPlSql d inputs =
     (case foldE (bind_arg_plsql d) inputs (replicate (length (uniqueNames d)) None) of
        Inl e \<Rightarrow> Inl e
      | Inr ps \<Rightarrow> Inr (filled_values ps))"

subsection \<open>Quoting helpers\<close>

definition double_quotes :: "string \<Rightarrow> string" where
  "double_quotes s = concat (map (\<lambda>c. if c = quote then [quote, quote] else [c]) s)"

definition EnquoteLiteral :: "string \<Rightarrow> string" where
  "EnquoteLiteral v = [quote] @ double_quotes v @ [quote]"

definition EnquoteNCharLiteral :: "string \<Rightarrow> string" where
  "EnquoteNCharLiteral v = ''N'' @ [quote] @ double_quotes v @ [quote]"

definition is_letter :: "char \<Rightarrow> bool" where
  "is_letter c = (65 \<le> (of_char c :: nat) \<and> (of_char c :: nat) \<le> 90 \<or> 97 \<le> (of_char c :: nat) \<and> (of_char c :: nat) \<le> 122)"

definition MaxIdentifierLength :: nat where
  "MaxIdentifierLength = 128"

definition IsSimpleIdentifier :: "string \<Rightarrow> bool" where
  "IsSimpleIdentifier s =
     (if length s < 1 \<or> length s > MaxIdentifierLength then False
      else is_letter (hd s) \<and> list_all (\<lambda>c. is_letter c \<or> is_digit c \<or> c = CHR ''_'') (tl s))"

definition EnquoteIdentifier :: "string \<Rightarrow> string result" where
  "EnquoteIdentifier identifier =
     (if length identifier < 1 \<or> length identifier > MaxIdentifierLength
      then Inl (NewOracleError InvalidIdentifier None [])
      else if IsSimpleIdentifier identifier then Inr ([dquote] @ identifier @ [dquote])
      else let unquoted = (if length identifier \<ge> 2 \<and> hd identifier = dquote \<and> last identifier = dquote
                           then butlast (tl identifier) else identifier)
           in if dquote \<in> set unquoted \<or> CHR 0x00 \<in> set unquoted
              then Inl (NewOracleError InvalidIdentifier None [])
              else Inr ([dquote] @ unquoted @ [dquote]))"

subsection \<open>The index of the placeholders\<close>

definition positions :: "string \<Rightarrow> string list \<Rightarrow> nat list" where
  "positions k names = filter (\<lambda>i. names ! i = k) [0..<length names]"

text \<open>The different names, in the order of their first occurrence.\<close>

definition first_names :: "string list \<Rightarrow> string list" where
  "first_names names = rev (remdups (rev names))"

definition bind_ok :: "bindDetails \<Rightarrow> bool" where
  "bind_ok d \<longleftrightarrow>
     (\<forall>k. bindMap d k = (if k \<in> set (bindNames d) then Some (positions k (bindNames d)) else None)) \<and>
     uniqueNames d = zip (first_names (bindNames d)) [0..<length (first_names (bindNames d))] \<and>
     length (bindNames d) \<le> 2 ^ 16"

lemma positions_snoc: "positions k (names @ [x]) = positions k names @ (if x = k then [length names] else [])"
proof -
  have "filter (\<lambda>i. (names @ [x]) ! i = k) [0..<length names] = filter (\<lambda>i. names ! i = k) [0..<length names]"
    by (rule filter_cong) (simp_all add: nth_append)
  then show ?thesis by (simp add: positions_def)
qed

lemma positions_absent: "k \<notin> set names \<Longrightarrow> positions k names = []"
  by (auto simp: positions_def filter_empty_conv)

lemma first_names_snoc:
  "first_names (names @ [x]) = (if x \<in> set names then first_names names else first_names names @ [x])"
  by (simp add: first_names_def)

lemma first_names_props [simp]:
  "set (first_names names) = set names" "distinct (first_names names)" "length (first_names names) \<le> length names"
  using length_remdups_leq [of "rev names"] by (simp_all add: first_names_def)

lemma zip_upt_snoc: "zip (xs @ [x]) [0..<Suc (length xs)] = zip xs [0..<length xs] @ [(x, length xs)]"
  by simp

lemma add_bind_ok:
  assumes "bind_ok d" "occ = length (bindNames d) mod 2 ^ 16" "add_bind n (d, occ) = Inr (d', occ')"
  shows "bind_ok d' \<and> occ' = length (bindNames d') mod 2 ^ 16"
proof -
  have len: "length (bindNames d) < 2 ^ 16"
    using assms(3) by (auto simp: add_bind_def Let_def maxBindIndex_def split: if_splits)
  have d': "bindNames d' = bindNames d @ [n]"
    "bindMap d' = (bindMap d)(n \<mapsto> (case bindMap d n of None \<Rightarrow> [] | Some l \<Rightarrow> l) @ [occ])"
    "uniqueNames d' = (if bindMap d n \<noteq> None then uniqueNames d else uniqueNames d @ [(n, length (uniqueNames d) mod 2 ^ 16)])"
    "occ' = (occ + 1) mod 2 ^ 16"
    using assms(3) by (auto simp: add_bind_def Let_def split: if_splits)
  have map: "bindMap d k = (if k \<in> set (bindNames d) then Some (positions k (bindNames d)) else None)" for k
    using assms(1) by (simp add: bind_ok_def)
  have un: "uniqueNames d = zip (first_names (bindNames d)) [0..<length (first_names (bindNames d))]"
    using assms(1) by (simp add: bind_ok_def)
  have occ: "occ = length (bindNames d)" using assms(2) len by simp
  have "bindMap d' k = (if k \<in> set (bindNames d') then Some (positions k (bindNames d')) else None)" for k
    by (auto simp: d' map occ positions_snoc positions_absent)
  moreover have "length (uniqueNames d) < 2 ^ 16"
    using le_less_trans [OF first_names_props(3) len] un by simp
  then have "uniqueNames d' = zip (first_names (bindNames d')) [0..<length (first_names (bindNames d'))]"
    using un by (simp add: d' map first_names_snoc)
  ultimately show ?thesis using len occ d' by (simp add: bind_ok_def)
qed

lemma parsePlaceholders_loop_ok:
  "parsePlaceholders_loop s st = Inr st' \<Longrightarrow> bind_ok (fst st) \<Longrightarrow> snd st = length (bindNames (fst st)) mod 2 ^ 16 \<Longrightarrow>
   bind_ok (fst st')"
proof (induction s st rule: parsePlaceholders_loop.induct)
  case (1 s st)
  show ?case
  proof (cases s)
    case Nil
    then show ?thesis using "1.prems" by (simp add: parsePlaceholders_loop.simps [of "[]"])
  next
    case (Cons ch r)
    show ?thesis
    proof (cases "skipCommentOrString s")
      case (Some rest)
      then show ?thesis
        using "1.IH"(4) [OF Cons Some] "1.prems" Cons by (simp add: parsePlaceholders_loop.simps [of "ch # r"])
    next
      case None
      consider "ch \<noteq> CHR '':''" | "ch = CHR '':''" "r = []" | "ch = CHR '':''" "r \<noteq> []" "hd r = CHR ''=''"
        | "ch = CHR '':''" "r \<noteq> []" "hd r \<noteq> CHR ''=''" by blast
      then show ?thesis
      proof cases
        case 1
        then show ?thesis
          using "1.IH"(3) [OF Cons None] "1.prems" Cons None by (simp add: parsePlaceholders_loop.simps [of "ch # r"])
      next
        case 2
        then show ?thesis using "1.prems" Cons None by (simp add: parsePlaceholders_loop.simps [of "'':''"])
      next
        case 3
        then show ?thesis
          using "1.IH"(1) [OF Cons None] "1.prems" Cons None by (simp add: parsePlaceholders_loop.simps [of "CHR '':'' # r"])
      next
        case 4
        then obtain st1 where st1: "add_bind (takeWhile bind_char r) st = Inr st1"
          "parsePlaceholders_loop (dropWhile bind_char r) st1 = Inr st'"
          using "1.prems"(1) Cons None by (auto simp: parsePlaceholders_loop.simps [of "CHR '':'' # r"] split: sum.splits)
        have "bind_ok (fst st1) \<and> snd st1 = length (bindNames (fst st1)) mod 2 ^ 16"
          by (rule add_bind_ok [OF "1.prems"(2,3)]) (use st1(1) in simp)
        then show ?thesis using "1.IH"(2) [OF Cons None 4 st1(1)] st1(2) by simp
      qed
    qed
  qed
qed

lemma parsePlaceholders_bind_ok: "parsePlaceholders sql = Inr d \<Longrightarrow> bind_ok d"
  using parsePlaceholders_loop_ok [of sql "(no_binds, 0)"]
  by (auto simp: parsePlaceholders_def no_binds_def bind_ok_def first_names_def split: sum.splits prod.splits)

text \<open>C31: The index a statement's placeholders are bound through is exact: \<open>bindMap\<close> lists every
  occurrence of every name and nothing else, \<open>uniqueNames\<close> numbers the names by first occurrence,
  and no 16-bit counter has wrapped.\<close>

theorem parsePlaceholders_index:
  assumes "parsePlaceholders sql = Inr d"
  shows "bind_ok d"
  by (rule parsePlaceholders_bind_ok [OF assms])

theorem parsePlaceholders_index_witness:
  "\<exists>d. parsePlaceholders ''a=:x+:y-:x'' = Inr d \<and> bindNames d = [''x'', ''y'', ''x''] \<and> bind_ok d"
proof -
  obtain d where d: "parsePlaceholders ''a=:x+:y-:x'' = Inr d" "bindNames d = [''x'', ''y'', ''x'']"
    by (simp add: parsePlaceholders_def parsePlaceholders_loop.simps skipCommentOrString_def add_bind_def no_binds_def
        maxBindIndex_def bind_char_def is_digit_def)
  then show ?thesis using parsePlaceholders_index by blast
qed

subsection \<open>Binding by name\<close>

definition named_args :: "'v NamedValue list \<Rightarrow> (string \<times> 'v) list" where
  "named_args inputs = map (\<lambda>a. (nv_Name a, nv_Value a)) inputs"

text \<open>Arguments given by name, each name once and each a placeholder of the statement.\<close>

definition args_ok :: "bindDetails \<Rightarrow> 'v NamedValue list \<Rightarrow> bool" where
  "args_ok d inputs \<longleftrightarrow> distinct (map nv_Name inputs) \<and> list_all (\<lambda>a. nv_Name a \<noteq> [] \<and> nv_Name a \<in> set (bindNames d)) inputs"

lemma place_loop_fill:
  "distinct indices \<Longrightarrow> list_all (\<lambda>i. i < length ps \<and> ps ! i = None) indices \<Longrightarrow>
   place_loop d indices v ps = Inr (map (\<lambda>i. if i \<in> set indices then Some v else ps ! i) [0..<length ps])"
proof (induction indices arbitrary: ps)
  case Nil
  then show ?case by (simp add: map_nth)
next
  case (Cons i indices)
  have "list_all (\<lambda>j. j < length (ps[i := Some v]) \<and> ps[i := Some v] ! j = None) indices"
    using Cons.prems by (auto simp: list_all_iff nth_list_update)
  then have "place_loop d indices v (ps[i := Some v])
      = Inr (map (\<lambda>j. if j \<in> set indices then Some v else ps[i := Some v] ! j) [0..<length ps])"
    using Cons.IH [of "ps[i := Some v]"] Cons.prems(1) by simp
  moreover have "map (\<lambda>j. if j \<in> set indices then Some v else ps[i := Some v] ! j) [0..<length ps]
      = map (\<lambda>j. if j \<in> set (i # indices) then Some v else ps ! j) [0..<length ps]"
    by (rule map_cong) (auto simp: nth_list_update)
  ultimately show ?case using Cons.prems(2) by simp
qed

lemma positions_props: "distinct (positions k names)" "i \<in> set (positions k names) \<longleftrightarrow> i < length names \<and> names ! i = k"
  by (auto simp: positions_def)

text \<open>What the positions hold once the arguments of \<open>m\<close> have been placed.\<close>

definition placed :: "string list \<Rightarrow> (string \<rightharpoonup> 'v) \<Rightarrow> 'v option list" where
  "placed names m = map m names"

lemma placed_none: "replicate (length names) None = placed names Map.empty"
  by (simp add: placed_def map_replicate_const)

lemma bind_arg_placed:
  assumes "bind_ok d" "nv_Name a \<noteq> []" "nv_Name a \<in> set (bindNames d)" "m (nv_Name a) = None"
  shows "bind_arg d a (placed (bindNames d) m) = Inr (placed (bindNames d) (m(nv_Name a \<mapsto> nv_Value a)))"
proof -
  let ?p = "placed (bindNames d) m" and ?idx = "positions (nv_Name a) (bindNames d)"
  have "list_all (\<lambda>i. i < length ?p \<and> ?p ! i = None) ?idx"
    using assms(4) by (auto simp: list_all_iff positions_props placed_def)
  then have "place_loop d ?idx (nv_Value a) ?p
      = Inr (map (\<lambda>i. if i \<in> set ?idx then Some (nv_Value a) else ?p ! i) [0..<length ?p])"
    by (rule place_loop_fill [OF positions_props(1)])
  moreover have "map (\<lambda>i. if i \<in> set ?idx then Some (nv_Value a) else ?p ! i) [0..<length ?p]
      = placed (bindNames d) (m(nv_Name a \<mapsto> nv_Value a))"
    by (rule nth_equalityI) (auto simp: placed_def positions_props)
  ultimately show ?thesis using assms(1-3) by (simp add: bind_arg_def placeByKey_def bind_ok_def)
qed

lemma foldE_placed:
  assumes "\<And>a m. P a \<Longrightarrow> m (nv_Name a) = None \<Longrightarrow> f a (placed names m) = Inr (placed names (m(nv_Name a \<mapsto> nv_Value a)))"
  shows "list_all P inputs \<Longrightarrow> distinct (map nv_Name inputs) \<Longrightarrow> (\<forall>a\<in>set inputs. m (nv_Name a) = None) \<Longrightarrow>
    foldE f inputs (placed names m) = Inr (placed names (m ++ map_of (named_args inputs)))"
proof (induction inputs arbitrary: m)
  case (Cons a inputs)
  let ?m = "m(nv_Name a \<mapsto> nv_Value a)"
  have "\<forall>b\<in>set inputs. ?m (nv_Name b) = None" using Cons.prems by (auto simp: image_iff)
  then have "foldE f inputs (placed names ?m) = Inr (placed names (?m ++ map_of (named_args inputs)))"
    using Cons.IH Cons.prems(1,2) by simp
  moreover have "?m ++ map_of (named_args inputs) = m ++ map_of (named_args (a # inputs))"
  proof -
    have "nv_Name a \<notin> dom (map_of (named_args inputs))"
      using Cons.prems(2) by (auto simp: named_args_def dom_map_of_conv_image_fst image_iff)
    then show ?thesis
      by (auto simp: named_args_def fun_eq_iff map_add_def split: option.splits)
  qed
  ultimately show ?case using assms Cons.prems by simp
qed (simp add: named_args_def)

lemma filled_values_placed:
  "filled_values (placed names m) = map (\<lambda>k. the (m k)) (filter (\<lambda>k. k \<in> dom m) names)"
  by (induction names) (auto simp: filled_values_def placed_def List.map_filter_def)


lemma map_of_zip_index:
  assumes "distinct xs" "k \<in> set xs"
  obtains i where "map_of (zip xs [0..<length xs]) k = Some i" "i < length xs" "xs ! i = k"
proof -
  obtain i where i: "i < length xs" "xs ! i = k" using assms(2) by (metis in_set_conv_nth)
  then have "(k, i) \<in> set (zip xs [0..<length xs])" by (force simp: set_zip)
  then show ?thesis using that i assms(1) by simp
qed

lemma bind_arg_plsql_placed:
  assumes "bind_ok d" "nv_Name a \<noteq> []" "nv_Name a \<in> set (bindNames d)" "m (nv_Name a) = None"
  shows "bind_arg_plsql d a (placed (first_names (bindNames d)) m)
    = Inr (placed (first_names (bindNames d)) (m(nv_Name a \<mapsto> nv_Value a)))"
proof -
  let ?f = "first_names (bindNames d)"
  obtain i where i: "map_of (zip ?f [0..<length ?f]) (nv_Name a) = Some i" "i < length ?f" "?f ! i = nv_Name a"
    using map_of_zip_index [of ?f "nv_Name a"] assms(3) by auto
  have "uniqueNames d = zip ?f [0..<length ?f]" using assms(1) by (simp add: bind_ok_def)
  moreover have "(placed ?f m)[i := Some (nv_Value a)] = placed ?f (m(nv_Name a \<mapsto> nv_Value a))"
  proof (rule nth_equalityI)
    fix j assume "j < length ((placed ?f m)[i := Some (nv_Value a)])"
    then have j: "j < length ?f" by (simp add: placed_def)
    have "?f ! j = nv_Name a \<longleftrightarrow> j = i"
      using i(2,3) j first_names_props(2) [of "bindNames d"] nth_eq_iff_index_eq by metis
    then show "(placed ?f m)[i := Some (nv_Value a)] ! j = placed ?f (m(nv_Name a \<mapsto> nv_Value a)) ! j"
      using j by (auto simp: placed_def nth_list_update)
  qed (simp add: placed_def)
  ultimately show ?thesis
    using assms(2,4) i by (simp add: bind_arg_plsql_def placed_def)
qed

text \<open>C33: Binding by name, for PL/SQL: one value for each different name, in the order of first
  occurrence.\<close>

theorem extractInputBindValuesForPlSql_by_name:
  assumes "parsePlaceholders sql = Inr d" "args_ok d inputs"
  shows "extractInputBindValuesForPlSql d inputs =
    Inr (map (\<lambda>k. the (map_of (named_args inputs) k)) (filter (\<lambda>k. k \<in> nv_Name ` set inputs) (first_names (bindNames d))))"
proof -
  note ok = parsePlaceholders_bind_ok [OF assms(1)]
  have "foldE (bind_arg_plsql d) inputs (placed (first_names (bindNames d)) Map.empty)
      = Inr (placed (first_names (bindNames d)) (Map.empty ++ map_of (named_args inputs)))"
    by (rule foldE_placed [where P = "\<lambda>a. nv_Name a \<noteq> [] \<and> nv_Name a \<in> set (bindNames d)"])
      (use assms(2) bind_arg_plsql_placed [OF ok] in \<open>auto simp: args_ok_def\<close>)
  moreover have "dom (map_of (named_args inputs)) = nv_Name ` set inputs"
    by (simp add: named_args_def dom_map_of_conv_image_fst image_image)
  moreover have "length (uniqueNames d) = length (first_names (bindNames d))" using ok by (simp add: bind_ok_def)
  ultimately show ?thesis
    by (simp add: extractInputBindValuesForPlSql_def placed_none filled_values_placed)
qed


theorem extractInputBindValuesForPlSql_by_name_witness:
  "\<exists>d. parsePlaceholders '':x+:y-:x'' = Inr d \<and>
     extractInputBindValuesForPlSql d [\<lparr>nv_Name = ''y'', nv_Ordinal = 1, nv_Value = True\<rparr>, \<lparr>nv_Name = ''x'', nv_Ordinal = 2, nv_Value = False\<rparr>]
       = Inr [False, True]"
proof -
  let ?in = "[\<lparr>nv_Name = ''y'', nv_Ordinal = 1, nv_Value = True\<rparr>, \<lparr>nv_Name = ''x'', nv_Ordinal = 2, nv_Value = False\<rparr>]"
  obtain d where d: "parsePlaceholders '':x+:y-:x'' = Inr d" "bindNames d = [''x'', ''y'', ''x'']"
    by (simp add: parsePlaceholders_def parsePlaceholders_loop.simps skipCommentOrString_def add_bind_def no_binds_def
        maxBindIndex_def bind_char_def is_digit_def)
  have "args_ok d ?in" by (simp add: args_ok_def d(2))
  then show ?thesis
    using extractInputBindValuesForPlSql_by_name [OF d(1), of ?in] d by (simp add: named_args_def first_names_def)
qed

subsection \<open>Quoted text is opaque\<close>

lemma skip_quoted_doubled:
  assumes "r = [] \<or> hd r \<noteq> quote"
  shows "skip_quoted quote (double_quotes v @ quote # r) = r"
proof (induction v)
  case Nil
  then show ?case using assms by (cases r) (simp_all add: double_quotes_def)
next
  case (Cons c v)
  obtain d s where "double_quotes v @ quote # r = d # s" by (cases "double_quotes v") simp_all
  then show ?case using Cons by (auto simp: double_quotes_def)
qed

lemma skip_EnquoteLiteral:
  "r = [] \<or> hd r \<noteq> quote \<Longrightarrow> skipCommentOrString (EnquoteLiteral v @ r) = Some r"
  using skip_quoted_doubled [of r v] by (simp add: EnquoteLiteral_def skipCommentOrString_def)

lemma skip_quoted_plain:
  assumes "r = [] \<or> hd r \<noteq> dquote" "dquote \<notin> set v"
  shows "skip_quoted dquote (v @ dquote # r) = r"
  using assms(2)
proof (induction v)
  case Nil
  then show ?case using assms(1) by (cases r) simp_all
next
  case (Cons c v)
  obtain d s where "v @ dquote # r = d # s" by (cases v) simp_all
  then show ?case using Cons by auto
qed

text \<open>Text that neither starts a comment, a quoted text nor a placeholder.\<close>

definition plain_sql :: "string \<Rightarrow> bool" where
  "plain_sql s = list_all (\<lambda>c. c \<notin> set ''-/qQ:'' \<and> c \<noteq> quote \<and> c \<noteq> dquote) s"

lemma parse_plain_prefix:
  "plain_sql pre \<Longrightarrow> parsePlaceholders_loop (pre @ s) st = parsePlaceholders_loop s st"
proof (induction pre)
  case (Cons c pre)
  then have "skipCommentOrString (c # pre @ s) = None" "c \<noteq> CHR '':''"
    by (auto simp: plain_sql_def skipCommentOrString_def)
  then have "parsePlaceholders_loop (c # pre @ s) st = parsePlaceholders_loop (pre @ s) st"
    by (subst parsePlaceholders_loop.simps) simp
  then show ?case using Cons by (simp add: plain_sql_def)
qed simp

lemma parse_skips:
  "skipCommentOrString s = Some r \<Longrightarrow> parsePlaceholders_loop s st = parsePlaceholders_loop r st"
  by (subst parsePlaceholders_loop.simps) (cases s, auto simp: skipCommentOrString_def)

text \<open>C34: A literal made by \<open>EnquoteLiteral\<close> is opaque to the placeholder scan: whatever the value
  contains, colons, quotes or comment marks, the placeholders found are those of the text
  around it.\<close>

theorem EnquoteLiteral_opaque:
  assumes "plain_sql pre" "r = [] \<or> hd r \<noteq> quote"
  shows "parsePlaceholders (pre @ EnquoteLiteral v @ r) = parsePlaceholders r \<and>
    parsePlaceholders (pre @ EnquoteNCharLiteral v @ r) = parsePlaceholders r"
proof -
  have "parsePlaceholders_loop (EnquoteLiteral v @ r) st = parsePlaceholders_loop r st" for st
    by (rule parse_skips [OF skip_EnquoteLiteral [OF assms(2)]])
  moreover have "EnquoteNCharLiteral v = ''N'' @ EnquoteLiteral v"
    by (simp add: EnquoteNCharLiteral_def EnquoteLiteral_def)
  moreover have "plain_sql ''N''" by (simp add: plain_sql_def)
  ultimately show ?thesis
    using parse_plain_prefix [OF assms(1)] parse_plain_prefix [of "''N''"] by (simp add: parsePlaceholders_def)
qed

theorem EnquoteLiteral_opaque_witness:
  "parsePlaceholders (''SET x='' @ EnquoteLiteral ('':a'' @ [quote] @ ''--'') @ '' WHERE y=:b'') = parsePlaceholders '' WHERE y=:b''"
  using EnquoteLiteral_opaque [of "''SET x=''" "'' WHERE y=:b''"] by (simp add: plain_sql_def)

lemma simple_no_dquote: "IsSimpleIdentifier s \<Longrightarrow> dquote \<notin> set s"
  by (cases s) (auto simp: IsSimpleIdentifier_def is_letter_def is_digit_def list_all_iff split: if_splits)

text \<open>A delimited identifier made by \<open>EnquoteIdentifier\<close> cannot be left early either.\<close>

theorem EnquoteIdentifier_opaque:
  assumes "EnquoteIdentifier s = Inr q" "plain_sql pre" "r = [] \<or> hd r \<noteq> dquote"
  shows "parsePlaceholders (pre @ q @ r) = parsePlaceholders r"
proof -
  obtain u where u: "q = dquote # u @ [dquote]" "dquote \<notin> set u"
    using assms(1) simple_no_dquote [of s] by (auto simp: EnquoteIdentifier_def Let_def split: if_splits)
  then have "skipCommentOrString (q @ r) = Some r"
    using skip_quoted_plain [OF assms(3) u(2)] by (simp add: skipCommentOrString_def)
  then show ?thesis
    using parse_plain_prefix [OF assms(2)] parse_skips by (simp add: parsePlaceholders_def)
qed

theorem EnquoteIdentifier_opaque_witness:
  "parsePlaceholders (''FROM '' @ [dquote] @ ''a:b'' @ [dquote] @ '' t'') = parsePlaceholders '' t''"
proof -
  have "EnquoteIdentifier ''a:b'' = Inr ([dquote] @ ''a:b'' @ [dquote])"
    by (simp add: EnquoteIdentifier_def IsSimpleIdentifier_def MaxIdentifierLength_def is_letter_def is_digit_def)
  then show ?thesis
    using EnquoteIdentifier_opaque [of "''a:b''" _ "''FROM ''" "'' t''"] by (simp add: plain_sql_def)
qed

subsection \<open>What the comments promise otherwise\<close>

text \<open>A colon that no letter or digit follows is a placeholder with an empty name.\<close>

theorem parsePlaceholders_empty_name: "map_sum id bindNames (parsePlaceholders ''a : b'') = Inr [[]]"
  by (simp add: parsePlaceholders_def parsePlaceholders_loop.simps skipCommentOrString_def add_bind_def no_binds_def
      maxBindIndex_def bind_char_def is_digit_def)

text \<open>The kind of a statement does not depend on leading blanks or on the case of its first word;
  a query that starts with \<open>WITH\<close> or a parenthesis has no kind.\<close>

theorem classifySQL_with:
  "\<not> is_ok (classifySQL ''WITH a AS (SELECT 1 FROM dual) SELECT * FROM a'') \<and> \<not> is_ok (classifySQL ''(SELECT 1 FROM dual)'')"
proof -
  have "ToLower ''WITH'' = ''with''" by code_simp
  then show ?thesis
    by (simp add: classifySQL_def TrimLeftFunc_def sql_blank_def sqlKindMap_def) (simp add: ToLower_def)
qed

end
