(* ===== verification/TLS_DN.thy ===== *)
theory TLS_DN
  imports Go_Strings
begin

text \<open>
  Matching of the server's distinguished name on TLS connections
  (\<open>network/transport/tcpsadapter.go\<close>): the parser of configured names, the comparison with the
  subject of the server's certificate and the decision which match is made. Certificates are read by
  \<open>crypto/x509\<close> and \<open>encoding/asn1\<close>: the decoded subject, the common name and the result of
  \<open>VerifyHostname\<close> are fields of the record \<open>Certificate\<close>.
\<close>

subsection \<open>UTF-8\<close>

text \<open>\<open>utf8.Valid\<close>; a string is a list of bytes here.\<close>

definition in_range :: "nat \<Rightarrow> nat \<Rightarrow> nat \<Rightarrow> bool" where
  "in_range lo hi n \<longleftrightarrow> lo \<le> n \<and> n \<le> hi"

text \<open>The range of the second byte and the number of further continuation bytes.\<close>

definition utf8_first :: "nat \<Rightarrow> (nat \<times> nat \<times> nat) option" where
  "utf8_first b =
     (if in_range 0xC2 0xDF b then Some (0x80, 0xBF, 0)
      else if b = 0xE0 then Some (0xA0, 0xBF, 1)
      else if b = 0xED then Some (0x80, 0x9F, 1)
      else if in_range 0xE1 0xEF b then Some (0x80, 0xBF, 1)
      else if b = 0xF0 then Some (0x90, 0xBF, 2)
      else if in_range 0xF1 0xF3 b then Some (0x80, 0xBF, 2)
      else if b = 0xF4 then Some (0x80, 0x8F, 2)
      else None)"

fun utf8_valid :: "nat list \<Rightarrow> bool" where
  "utf8_valid [] = True"
| "utf8_valid (b # bs) =
     (if b < 0x80 then utf8_valid bs
      else case utf8_first b of
             None \<Rightarrow> False
           | Some (lo, hi, n) \<Rightarrow>
               bs \<noteq> [] \<and> in_range lo hi (hd bs) \<and> length (tl bs) \<ge> n \<and>
               list_all (in_range 0x80 0xBF) (take n (tl bs)) \<and> utf8_valid (drop n (tl bs)))"

definition utf8_Valid :: "string \<Rightarrow> bool" where
  "utf8_Valid s = utf8_valid (map of_char s)"

subsection \<open>Names\<close>

type_synonym ObjectIdentifier = "nat list"

text \<open>An attribute value is an interface value: a string, or something else.\<close>

datatype dn_value = DNString string | DNOther nat

record AttributeTypeAndValue =
  atv_Type :: ObjectIdentifier
  atv_Value :: dn_value

type_synonym RelativeDistinguishedNameSET = "AttributeTypeAndValue list"
type_synonym RDNSequence = "RelativeDistinguishedNameSET list"

definition dnNameToOID_entries :: "(string \<times> ObjectIdentifier) list" where
  "dnNameToOID_entries =
     [(''CN'', [2, 5, 4, 3]), (''O'', [2, 5, 4, 10]), (''OU'', [2, 5, 4, 11]), (''L'', [2, 5, 4, 7]),
      (''ST'', [2, 5, 4, 8]), (''S'', [2, 5, 4, 8]), (''C'', [2, 5, 4, 6]), (''STREET'', [2, 5, 4, 9]),
      (''SERIALNUMBER'', [2, 5, 4, 5]), (''DESCRIPTION'', [2, 5, 4, 13]), (''BUSINESSCATEGORY'', [2, 5, 4, 15]),
      (''POSTALADDRESS'', [2, 5, 4, 16]), (''POSTALCODE'', [2, 5, 4, 17]), (''POSTOFFICEBOX'', [2, 5, 4, 18]),
      (''PHYSICALDELIVERYOFFICENAME'', [2, 5, 4, 19]), (''DC'', [0, 9, 2342, 19200300, 100, 1, 25]),
      (''UID'', [0, 9, 2342, 19200300, 100, 1, 1]), (''T'', [2, 5, 4, 12]), (''TITLE'', [2, 5, 4, 12]),
      (''SN'', [2, 5, 4, 4]), (''NAME'', [2, 5, 4, 41]), (''G'', [2, 5, 4, 42]), (''GN'', [2, 5, 4, 42]),
      (''INITIALS'', [2, 5, 4, 43]), (''GENERATIONQUALIFIER'', [2, 5, 4, 44]), (''UNIQUEIDENTIFIER'', [2, 5, 4, 45]),
      (''PSEUDONYM'', [2, 5, 4, 65]), (''ORGANIZATIONIDENTIFIER'', [2, 5, 4, 97]),
      (''E'', [1, 2, 840, 113549, 1, 9, 1]), (''EMAIL'', [1, 2, 840, 113549, 1, 9, 1]),
      (''EMAILADDRESS'', [1, 2, 840, 113549, 1, 9, 1]), (''MAIL'', [0, 9, 2342, 19200300, 100, 1, 3]),
      (''JURISDICTIONLOCALITYNAME'', [1, 3, 6, 1, 4, 1, 311, 60, 2, 1, 1]),
      (''JURISDICTIONSTATEORPROVINCENAME'', [1, 3, 6, 1, 4, 1, 311, 60, 2, 1, 2]),
      (''JURISDICTIONCOUNTRYNAME'', [1, 3, 6, 1, 4, 1, 311, 60, 2, 1, 3]),
      (''TELEPHONENUMBER'', [2, 5, 4, 20]), (''DNQUALIFIER'', [2, 5, 4, 46]), (''DNQ'', [2, 5, 4, 46])]"

definition dnNameToOID :: "string \<Rightarrow> ObjectIdentifier option" where
  "dnNameToOID = map_of dnNameToOID_entries"

definition supportedDNOIDs :: "ObjectIdentifier list" where
  "supportedDNOIDs = map snd dnNameToOID_entries"

subsection \<open>Parsing a configured name\<close>

abbreviation backslash :: char where "backslash \<equiv> CHR 0x5C"

text \<open>\<open>cur\<close> is \<open>str[start:i]\<close>.\<close>

fun splitUnescaped_loop :: "char \<Rightarrow> string \<Rightarrow> string \<Rightarrow> string list result" where
  "splitUnescaped_loop sep [] cur = Inr [cur]"
| "splitUnescaped_loop sep (c # r) cur =
     (if c = backslash then
        (case r of [] \<Rightarrow> Inl (NewOracleError DNMalformedEscape None [])
         | d # r' \<Rightarrow> splitUnescaped_loop sep r' (cur @ [c, d]))
      else if c = sep then
        (case splitUnescaped_loop sep r [] of Inl e \<Rightarrow> Inl e | Inr rest \<Rightarrow> Inr (cur # rest))
      else splitUnescaped_loop sep r (cur @ [c]))"

definition splitUnescaped :: "string \<Rightarrow> char \<Rightarrow> string list result" where
  "splitUnescaped str separator = splitUnescaped_loop separator str []"

fun indexUnescaped_loop :: "char \<Rightarrow> string \<Rightarrow> int \<Rightarrow> int result" where
  "indexUnescaped_loop target [] i = Inr (- 1)"
| "indexUnescaped_loop target (c # r) i =
     (if c = backslash then
        (case r of [] \<Rightarrow> Inl (NewOracleError DNMalformedEscape None [])
         | d # r' \<Rightarrow> indexUnescaped_loop target r' (i + 2))
      else if c = target then Inr i
      else indexUnescaped_loop target r (i + 1))"

definition indexUnescaped :: "string \<Rightarrow> char \<Rightarrow> int result" where
  "indexUnescaped str target = indexUnescaped_loop target str 0"

definition isDNValueSpace :: "char \<Rightarrow> bool" where
  "isDNValueSpace b = (b = CHR '' '' \<or> b = CHR 0x09)"

definition isEscaped :: "string \<Rightarrow> nat \<Rightarrow> bool" where
  "isEscaped str index = odd (length (takeWhile (\<lambda>c. c = backslash) (rev (take index str))))"

fun trim_end :: "string \<Rightarrow> nat \<Rightarrow> nat \<Rightarrow> nat" where
  "trim_end str start end =
     (if end > start \<and> isDNValueSpace (str ! (end - 1)) \<and> \<not> isEscaped str (end - 1)
      then trim_end str start (end - 1) else end)"

declare trim_end.simps [simp del]

definition trimDNValueSpace :: "string \<Rightarrow> string" where
  "trimDNValueSpace str =
     (let start = length (takeWhile isDNValueSpace str);
          end = trim_end str start (length str)
      in drop start (take end str))"

definition isHexDigit :: "char \<Rightarrow> bool" where
  "isHexDigit b = (in_range 48 57 (of_char b) \<or> in_range 97 102 (of_char b) \<or> in_range 65 70 (of_char b))"

definition hexValue :: "char \<Rightarrow> nat" where
  "hexValue b =
     (if in_range 48 57 (of_char b) then of_char b - 48
      else if in_range 97 102 (of_char b) then of_char b - 97 + 10
      else of_char b - 65 + 10)"

definition escapable_chars :: string where
  "escapable_chars = [CHR '' '', CHR 0x22, CHR ''#'', CHR ''+'', CHR '','', CHR '';'', CHR ''<'', CHR ''='', CHR ''>'', backslash]"

definition isEscapableDNChar :: "char \<Rightarrow> bool" where
  "isEscapableDNChar b = (b \<in> set escapable_chars)"

fun decode_loop :: "string \<Rightarrow> string \<Rightarrow> string result" where
  "decode_loop [] out = Inr out"
| "decode_loop (c # r) out =
     (if c \<noteq> backslash then decode_loop r (out @ [c])
      else case r of
             [] \<Rightarrow> Inl (NewOracleError DNMalformedEscape None [])
           | d # r' \<Rightarrow>
               if r' \<noteq> [] \<and> isHexDigit d \<and> isHexDigit (hd r')
               then decode_loop (tl r') (out @ [char_of ((hexValue d * 16 + hexValue (hd r')) mod 256)])
               else if \<not> isEscapableDNChar d then Inl (NewOracleError DNMalformedEscape None [])
               else decode_loop r' (out @ [d]))"

definition decodeDNValue :: "string \<Rightarrow> string result" where
  "decodeDNValue str =
     (case decode_loop str [] of
        Inl e \<Rightarrow> Inl e
      | Inr out \<Rightarrow> if \<not> utf8_Valid out then Inl (NewOracleError DNAttributeValueInvalidUTF8 None []) else Inr out)"

definition parseDNAttribute :: "string \<Rightarrow> AttributeTypeAndValue result" where
  "parseDNAttribute str0 =
     (let str = TrimSpace str0 in
      if str = [] then Inl (NewOracleError DNHexValueUnsupported None [])
      else andThen (indexUnescaped str (CHR ''='')) (\<lambda>equalIndex.
        if equalIndex < 0 then Inl (NewOracleError DNMalformedAttribute None [ArgStr str])
        else let name = ToUpper (TrimSpace (take (nat equalIndex) str)) in
        if name = [] then Inl (NewOracleError ConfiguredDNInvalid None [])
        else case dnNameToOID name of
          None \<Rightarrow> Inl (NewOracleError DNUnsupportedAttribute None [ArgStr name])
        | Some oid \<Rightarrow>
            let rawValue = trimDNValueSpace (drop (nat equalIndex + 1) str) in
            if rawValue = [] then Inl (NewOracleError DNAttributeValueMissing None [ArgStr name])
            else if hd rawValue = CHR ''#'' then Inl (NewOracleError ConfiguredDNInvalid None [])
            else andThen (decodeDNValue rawValue) (\<lambda>val.
              if val = [] then Inl (NewOracleError DNAttributeValueMissing None [ArgStr name])
              else Inr \<lparr>atv_Type = oid, atv_Value = DNString val\<rparr>)))"

definition parse_rdn :: "string \<Rightarrow> RelativeDistinguishedNameSET result" where
  "parse_rdn part =
     (let rdnPart = TrimSpace part in
      if rdnPart = [] then Inl (NewOracleError ConfiguredDNInvalid None [])
      else andThen (splitUnescaped rdnPart (CHR ''+'')) (mapE parseDNAttribute))"

definition parseConfiguredDN :: "string \<Rightarrow> RDNSequence result" where
  "parseConfiguredDN str0 =
     (let str = TrimSpace str0 in
      if str = [] then Inl (NewOracleError ConfiguredDNInvalid None [])
      else andThen (splitUnescaped str (CHR '','')) (\<lambda>rdnParts.
           andThen (mapE parse_rdn rdnParts) (\<lambda>rdns. Inr (rev rdns))))"

subsection \<open>Comparing\<close>

definition oid_text :: "ObjectIdentifier \<Rightarrow> string" where
  "oid_text oid = Join (map FormatUint oid) (CHR ''.'')"

fun validateRDN_loop :: "RelativeDistinguishedNameSET \<Rightarrow> RelativeDistinguishedNameSET \<Rightarrow> unit result" where
  "validateRDN_loop seen [] = Inr ()"
| "validateRDN_loop seen (atv # rest) =
     (if atv_Type atv \<notin> set supportedDNOIDs
      then Inl (NewOracleError DNUnsupportedAttributeOID None [ArgStr (oid_text (atv_Type atv))])
      else case atv_Value atv of
             DNOther _ \<Rightarrow> Inl (NewOracleError DNAttributeOIDValueTypeInvalid None [ArgStr (oid_text (atv_Type atv))])
           | DNString _ \<Rightarrow>
               if list_ex (\<lambda>a. atv_Type a = atv_Type atv) seen
               then Inl (NewOracleError DNDuplicateAttributeOID None [ArgStr (oid_text (atv_Type atv))])
               else validateRDN_loop (seen @ [atv]) rest)"

definition validateRDN :: "RelativeDistinguishedNameSET \<Rightarrow> unit result" where
  "validateRDN rdn = validateRDN_loop [] rdn"

definition compare_attr :: "RelativeDistinguishedNameSET \<Rightarrow> AttributeTypeAndValue \<Rightarrow> unit result" where
  "compare_attr certSubject configuredAttr =
     (case atv_Value configuredAttr of
        DNOther _ \<Rightarrow> Inl (NewOracleError DNAttributeOIDValueTypeInvalid None [ArgStr (oid_text (atv_Type configuredAttr))])
      | DNString configuredValue \<Rightarrow>
          (case List.find (\<lambda>a. atv_Type configuredAttr = atv_Type a) certSubject of
             None \<Rightarrow> Inl (NewOracleError DNAttributeMissingFromCertificate None [ArgStr (oid_text (atv_Type configuredAttr))])
           | Some certAttr \<Rightarrow>
               (case atv_Value certAttr of
                  DNOther _ \<Rightarrow> Inl (NewOracleError DNAttributeOIDValueTypeInvalid None [ArgStr (oid_text (atv_Type certAttr))])
                | DNString certValue \<Rightarrow>
                    if certValue \<noteq> configuredValue
                    then Inl (NewOracleError InvalidNetworkContextExpectedValue None
                           [ArgStr ''DN attribute value'', ArgStr (oid_text (atv_Type configuredAttr)), ArgStr certValue, ArgStr configuredValue])
                    else Inr ())))"

definition compareRDNs :: "RelativeDistinguishedNameSET \<Rightarrow> RelativeDistinguishedNameSET \<Rightarrow> unit result" where
  "compareRDNs configured certSubject =
     (if length configured \<noteq> length certSubject
      then Inl (NewOracleError InvalidNetworkExpectedValue None
             [ArgStr ''DN RDN attribute count'', ArgInt (int (length certSubject)), ArgInt (int (length configured))])
      else andThen (validateRDN configured) (\<lambda>_.
           andThen (validateRDN certSubject) (\<lambda>_.
           foldE (\<lambda>attr _. compare_attr certSubject attr) configured ())))"

text \<open>What \<open>crypto/x509\<close> and \<open>encoding/asn1\<close> make of a certificate: the subject decoded from
  \<open>RawSubject\<close> with the bytes left over, the common name of the subject, and \<open>VerifyHostname\<close>.\<close>

record Certificate =
  asn1_Unmarshal_RawSubject :: "(RDNSequence \<times> byte list) result"
  CommonName :: string
  VerifyHostname :: "string \<Rightarrow> unit result"

definition certificateRDNSequence :: "Certificate \<Rightarrow> RDNSequence result" where
  "certificateRDNSequence cert =
     andThen (asn1_Unmarshal_RawSubject cert) (\<lambda>(rdns, rest).
       if length rest \<noteq> 0 then Inl (NewOracleError CertificateSubjectTrailingData None []) else Inr rdns)"

definition compare_at :: "nat \<times> RelativeDistinguishedNameSET \<times> RelativeDistinguishedNameSET \<Rightarrow> unit result" where
  "compare_at t = (case t of (i, configured, certSubject) \<Rightarrow>
     (case compareRDNs configured certSubject of
        Inl e \<Rightarrow> Inl (NewOracleError DNMismatchAtRDN (Some e) [ArgInt (int i)])
      | Inr u \<Rightarrow> Inr u))"

definition verifyDN :: "Certificate \<Rightarrow> string \<Rightarrow> unit result" where
  "verifyDN cert dnString =
     andThen (parseConfiguredDN dnString) (\<lambda>configured.
       case certificateRDNSequence cert of
         Inl e \<Rightarrow> Inl (NewOracleError CertificateSubjectParseFailed (Some e) [])
       | Inr certSubject \<Rightarrow>
           if length configured \<noteq> length certSubject
           then Inl (NewOracleError InvalidNetworkExpectedValue None
                  [ArgStr ''DN RDN count'', ArgInt (int (length certSubject)), ArgInt (int (length configured))])
           else foldE (\<lambda>t _. compare_at t) (zip [0..<length configured] (zip configured certSubject)) ())"

subsection \<open>Which match is made\<close>

record tls_atts =
  SSLServerDNMatch :: bool
  SSLAllowWeakDNMatch :: bool
  SSLServerCertDN :: string
  Servicename :: string

record nttcps =
  tls_a :: tls_atts
  tls_hostname :: string
  tls_originHost :: string
  doDNMatch :: bool

definition verifyServerDN :: "nttcps \<Rightarrow> Certificate \<Rightarrow> unit result" where
  "verifyServerDN nt cert =
     (if SSLServerCertDN (tls_a nt) \<noteq> [] then verifyDN cert (SSLServerCertDN (tls_a nt))
      else let err0 = VerifyHostname cert (tls_hostname nt);
               err = (if \<not> is_ok err0 \<and> tls_originHost nt \<noteq> [] then VerifyHostname cert (tls_originHost nt) else err0)
           in if \<not> is_ok err \<and> SSLAllowWeakDNMatch (tls_a nt) \<and> Servicename (tls_a nt) = CommonName cert
              then Inr () else err)"

text \<open>The part of the handshake callback that follows the verification of the chain, and the check
  after the accept packet: the stream is a TLS connection or not, and its handshake fails or ends with
  the peer certificates.\<close>

definition verify_in_handshake :: "nttcps \<Rightarrow> Certificate \<Rightarrow> unit result" where
  "verify_in_handshake nt cert =
     (if SSLServerDNMatch (tls_a nt) \<and> doDNMatch nt
      then (case verifyServerDN nt cert of
              Inl e \<Rightarrow> Inl (NewOracleError TLSCertificateDNMatchFailed (Some e) [])
            | Inr u \<Rightarrow> Inr u)
      else Inr ())"

definition set_doDNMatch :: "nttcps \<Rightarrow> nttcps" where
  "set_doDNMatch nt = (if SSLAllowWeakDNMatch (tls_a nt) then nt\<lparr>doDNMatch := False\<rparr> else nt\<lparr>doDNMatch := True\<rparr>)"

definition VerifyPostAcceptDNMatch :: "nttcps \<Rightarrow> Certificate list result option \<Rightarrow> unit result" where
  "VerifyPostAcceptDNMatch nt stream =
     (if \<not> SSLServerDNMatch (tls_a nt) \<or> \<not> SSLAllowWeakDNMatch (tls_a nt) \<or> doDNMatch nt then Inr ()
      else case stream of
             None \<Rightarrow> Inl (NewOracleError NetworkInternalError None [ArgStr ''TCPS stream''])
           | Some handshake \<Rightarrow>
               andThen handshake (\<lambda>peers.
                 case peers of
                   [] \<Rightarrow> Inl (NewOracleError InvalidNetworkProperty None [ArgStr ''server certificate''])
                 | cert # _ \<Rightarrow>
                     (case verifyServerDN nt cert of
                        Inl e \<Rightarrow> Inl (NewOracleError TLSCertificateDNMatchFailed (Some e) [])
                      | Inr u \<Rightarrow> Inr u)))"

subsection \<open>The comparison is exact\<close>

definition rdn_ok :: "RelativeDistinguishedNameSET \<Rightarrow> bool" where
  "rdn_ok rdn \<longleftrightarrow> list_all (\<lambda>a. atv_Type a \<in> set supportedDNOIDs \<and> (\<exists>v. atv_Value a = DNString v)) rdn \<and>
     distinct (map atv_Type rdn)"

definition same_rdn :: "RelativeDistinguishedNameSET \<Rightarrow> RelativeDistinguishedNameSET \<Rightarrow> bool" where
  "same_rdn r s \<longleftrightarrow> rdn_ok r \<and> rdn_ok s \<and> set r = set s"

lemma validateRDN_loop_ok:
  "validateRDN_loop seen rdn = Inr () \<longleftrightarrow>
     list_all (\<lambda>a. atv_Type a \<in> set supportedDNOIDs \<and> (\<exists>v. atv_Value a = DNString v)) rdn \<and>
     distinct (map atv_Type rdn) \<and> atv_Type ` set seen \<inter> atv_Type ` set rdn = {}"
proof (induction seen rdn rule: validateRDN_loop.induct)
  case (2 seen atv rest)
  show ?case
  proof (cases "atv_Value atv")
    case (DNString v)
    have "list_ex (\<lambda>a. atv_Type a = atv_Type atv) seen \<longleftrightarrow> atv_Type atv \<in> atv_Type ` set seen"
      unfolding list_ex_iff image_iff by metis
    then show ?thesis using 2 DNString by auto
  qed simp
qed simp

lemma validateRDN_ok: "validateRDN rdn = Inr () \<longleftrightarrow> rdn_ok rdn"
  by (simp add: validateRDN_def validateRDN_loop_ok rdn_ok_def)

lemma foldE_unit: "foldE (\<lambda>x _. f x) xs () = Inr () \<longleftrightarrow> (\<forall>x\<in>set xs. f x = Inr ())"
  by (induction xs) (auto split: sum.splits)

lemma andThen_unit: "andThen m k = Inr () \<longleftrightarrow> m = Inr () \<and> k () = Inr ()" for m :: "unit result"
  by (cases m) (auto simp: andThen_def)

text \<open>Among attributes with different types the first one of a type is the one.\<close>

lemma find_type:
  assumes "distinct (map atv_Type rdn)"
  shows "List.find (\<lambda>b. t = atv_Type b) rdn = Some b \<longleftrightarrow> b \<in> set rdn \<and> atv_Type b = t"
  using assms by (induction rdn) (auto simp: rev_image_eqI)

lemma compare_attr_ok:
  assumes "rdn_ok s" "atv_Value a = DNString v"
  shows "compare_attr s a = Inr () \<longleftrightarrow> a \<in> set s"
proof (cases "List.find (\<lambda>b. atv_Type a = atv_Type b) s")
  case None
  then have "a \<notin> set s" by (auto simp: find_None_iff)
  with None assms(2) show ?thesis by (simp add: compare_attr_def)
next
  case (Some b)
  then have b: "b \<in> set s" "atv_Type b = atv_Type a"
    using assms(1) find_type [of s "atv_Type a" b] by (simp_all add: rdn_ok_def)
  obtain w where w: "atv_Value b = DNString w"
    using assms(1) b(1) by (auto simp: rdn_ok_def list_all_iff)
  have "a \<in> set s \<longleftrightarrow> a = b"
    using assms(1) b find_type [of s "atv_Type a" a] Some by (auto simp: rdn_ok_def)
  also have "\<dots> \<longleftrightarrow> v = w"
    using b(2) w assms(2) by (metis AttributeTypeAndValue.equality dn_value.inject(1) old.unit.exhaust)
  finally show ?thesis using Some w assms(2) by (auto simp: compare_attr_def)
qed

lemma compareRDNs_ok: "compareRDNs r s = Inr () \<longleftrightarrow> same_rdn r s"
proof
  assume c: "compareRDNs r s = Inr ()"
  then have ok: "rdn_ok r" "rdn_ok s" and len: "length r = length s"
    and "\<forall>a\<in>set r. compare_attr s a = Inr ()"
    by (auto simp: compareRDNs_def andThen_unit validateRDN_ok foldE_unit split: if_splits)
  then have "set r \<subseteq> set s"
    using compare_attr_ok [of s] by (force simp: rdn_ok_def list_all_iff)
  moreover have "distinct r" "distinct s"
    using ok by (auto simp: rdn_ok_def distinct_map)
  ultimately have "set r = set s"
    using len by (metis List.finite_set card_subset_eq distinct_card)
  with ok show "same_rdn r s" by (simp add: same_rdn_def)
next
  assume s: "same_rdn r s"
  then have "distinct r" "distinct s" "set r = set s"
    by (auto simp: same_rdn_def rdn_ok_def distinct_map)
  then have "length r = length s" by (metis distinct_card)
  moreover have "\<forall>a\<in>set r. compare_attr s a = Inr ()"
    using s compare_attr_ok [of s] by (auto simp: same_rdn_def rdn_ok_def list_all_iff)
  ultimately show "compareRDNs r s = Inr ()"
    using s by (simp add: compareRDNs_def andThen_unit validateRDN_ok foldE_unit same_rdn_def)
qed

lemma compare_at_ok: "compare_at (i, r, s) = Inr () \<longleftrightarrow> same_rdn r s"
  by (auto simp: compare_at_def compareRDNs_ok [symmetric] split: sum.splits)

text \<open>C35: 
  The match against a configured name succeeds exactly when the name can be parsed and the subject of the
  certificate has the same sequence of RDNs, each with the same set of attributes, where every attribute is
  a string of a supported type and no type is repeated.
\<close>

theorem verifyDN_exact:
  "verifyDN cert dn = Inr () \<longleftrightarrow>
     (\<exists>configured subject. parseConfiguredDN dn = Inr configured \<and>
        asn1_Unmarshal_RawSubject cert = Inr (subject, []) \<and> list_all2 same_rdn configured subject)"
proof -
  have subject: "asn1_Unmarshal_RawSubject cert = Inr (s, []) \<longleftrightarrow> certificateRDNSequence cert = Inr s" for s
    by (auto simp: certificateRDNSequence_def andThen_def split: sum.splits)
  moreover have "(\<forall>t\<in>set (zip [0..<length c] (zip c s)). compare_at t = Inr ()) \<longleftrightarrow> list_all2 same_rdn c s"
    if "length c = length s" for c s
  proof -
    have "(\<forall>t\<in>set (zip [0..<length c] (zip c s)). compare_at t = Inr ()) \<longleftrightarrow>
        (\<forall>i<length c. compare_at (i, c ! i, s ! i) = Inr ())"
      using that by (simp add: all_set_conv_all_nth)
    then show ?thesis using that by (simp add: compare_at_ok list_all2_conv_all_nth)
  qed
  ultimately show ?thesis
    unfolding subject
    by (cases "parseConfiguredDN dn"; cases "certificateRDNSequence cert")
      (auto simp: verifyDN_def andThen_def foldE_unit dest: list_all2_lengthD split: if_splits)
qed

subsection \<open>Printing and parsing names\<close>

text \<open>The text form of RFC 4514 with a backslash before every special character. A name is a list of RDNs,
  the most specific one first, each a list of attribute names with their values.\<close>

definition escape :: "string \<Rightarrow> string" where
  "escape v = concat (map (\<lambda>c. if isEscapableDNChar c then [backslash, c] else [c]) v)"

definition attr_text :: "string \<times> string \<Rightarrow> string" where
  "attr_text nv = fst nv @ CHR ''='' # escape (snd nv)"

definition rdn_text :: "(string \<times> string) list \<Rightarrow> string" where
  "rdn_text rdn = Join (map attr_text rdn) (CHR ''+'')"

definition dn_text :: "(string \<times> string) list list \<Rightarrow> string" where
  "dn_text dn = Join (map rdn_text dn) (CHR '','')"

definition attr_of :: "string \<times> string \<Rightarrow> AttributeTypeAndValue" where
  "attr_of nv = \<lparr>atv_Type = the (dnNameToOID (fst nv)), atv_Value = DNString (snd nv)\<rparr>"

definition value_ok :: "string \<Rightarrow> bool" where
  "value_ok v \<longleftrightarrow> v \<noteq> [] \<and> utf8_Valid v \<and> hd v \<noteq> CHR 0x09 \<and> \<not> is_space (last v)"

definition attr_ok :: "string \<times> string \<Rightarrow> bool" where
  "attr_ok nv \<longleftrightarrow> dnNameToOID (fst nv) \<noteq> None \<and> value_ok (snd nv)"

definition dn_ok :: "(string \<times> string) list list \<Rightarrow> bool" where
  "dn_ok dn \<longleftrightarrow> dn \<noteq> [] \<and> list_all (\<lambda>rdn. rdn \<noteq> [] \<and> list_all attr_ok rdn) dn"

definition plain_name :: "string \<Rightarrow> bool" where
  "plain_name n \<longleftrightarrow> n \<noteq> [] \<and> ToUpper n = n \<and>
     list_all (\<lambda>c. \<not> is_space c \<and> \<not> isEscapableDNChar c) n"

lemma dn_names_plain: "list_all (\<lambda>e. plain_name (fst e)) dnNameToOID_entries"
  by (simp add: dnNameToOID_entries_def plain_name_def ToUpper_def upper_char_def is_space_def
    isEscapableDNChar_def escapable_chars_def)

lemma dnNameToOID_plain: "dnNameToOID n \<noteq> None \<Longrightarrow> plain_name n"
  using dn_names_plain by (fastforce simp: dnNameToOID_def list_all_iff dest: map_of_SomeD)

lemma backslash_escapable [simp]: "isEscapableDNChar backslash"
  by (simp add: isEscapableDNChar_def escapable_chars_def)

lemma escapable_not_hex: "isEscapableDNChar c \<Longrightarrow> \<not> isHexDigit c"
  by (auto simp: isEscapableDNChar_def escapable_chars_def isHexDigit_def in_range_def)

lemma escape_simps [simp]:
  "escape [] = []"
  "escape (c # v) = (if isEscapableDNChar c then backslash # c # escape v else c # escape v)"
  by (simp_all add: escape_def)

lemma escape_Nil_iff [simp]: "escape v = [] \<longleftrightarrow> v = []"
  by (cases v) auto

lemma last_escape: "v \<noteq> [] \<Longrightarrow> last (escape v) = last v"
  by (induction v) auto

lemma decode_escape: "decode_loop (escape v) out = Inr (out @ v)"
proof (induction v arbitrary: out)
  case (Cons c v)
  then show ?case using escapable_not_hex [of c] by (cases "isEscapableDNChar c") (auto split: list.split)
qed simp

text \<open>Text that a scan for an unescaped separator passes over.\<close>

definition opaque :: "char \<Rightarrow> string \<Rightarrow> bool" where
  "opaque sep t \<longleftrightarrow> (\<forall>cur r. splitUnescaped_loop sep (t @ r) cur = splitUnescaped_loop sep r (cur @ t))"

lemma opaqueD: "opaque sep t \<Longrightarrow> splitUnescaped_loop sep (t @ r) cur = splitUnescaped_loop sep r (cur @ t)"
  by (simp add: opaque_def)

lemma opaque_Nil [simp]: "opaque sep []"
  by (simp add: opaque_def)

lemma opaque_append [intro]: "opaque sep s \<Longrightarrow> opaque sep t \<Longrightarrow> opaque sep (s @ t)"
  by (simp add: opaque_def)

lemma opaque_char: "c \<noteq> backslash \<Longrightarrow> c \<noteq> sep \<Longrightarrow> opaque sep [c]"
  by (simp add: opaque_def)

lemma opaque_Cons: "c \<noteq> backslash \<Longrightarrow> c \<noteq> sep \<Longrightarrow> opaque sep t \<Longrightarrow> opaque sep (c # t)"
  using opaque_append [OF opaque_char, of c sep t] by simp

lemma opaque_escape: "isEscapableDNChar sep \<Longrightarrow> opaque sep (escape v)"
proof (induction v)
  case (Cons c v)
  have "opaque sep [backslash, c]" by (simp add: opaque_def)
  then show ?case using Cons opaque_append [of sep "[backslash, c]" "escape v"] opaque_Cons [of c sep "escape v"]
    by (auto simp: opaque_def)
qed simp

lemma opaque_name: "plain_name n \<Longrightarrow> isEscapableDNChar sep \<Longrightarrow> opaque sep n"
proof -
  have "list_all (\<lambda>c. \<not> isEscapableDNChar c) n \<Longrightarrow> isEscapableDNChar sep \<Longrightarrow> opaque sep n"
    by (induction n) (auto intro!: opaque_Cons)
  then show "plain_name n \<Longrightarrow> isEscapableDNChar sep \<Longrightarrow> opaque sep n"
    by (simp add: plain_name_def list_all_iff)
qed

lemma opaque_Join: "sep \<noteq> sep' \<Longrightarrow> sep' \<noteq> backslash \<Longrightarrow> list_all (opaque sep) ts \<Longrightarrow> opaque sep (Join ts sep')"
  by (induction ts sep' rule: Join.induct) (auto intro!: opaque_append opaque_Cons)

lemma split_Join:
  assumes "ts \<noteq> []" "list_all (opaque sep) ts" "sep \<noteq> backslash"
  shows "splitUnescaped (Join ts sep) sep = Inr ts"
proof -
  have "splitUnescaped_loop sep (Join ts sep) [] = Inr ts"
    using assms
  proof (induction ts rule: list_nonempty_induct)
    case (single t)
    then show ?case using opaqueD [of sep t "[]" "[]"] by simp
  next
    case (cons t ts)
    then have "splitUnescaped_loop sep (t @ sep # Join ts sep) [] = splitUnescaped_loop sep (sep # Join ts sep) ([] @ t)"
      by (simp add: opaque_def)
    then show ?case using cons by (simp add: Join_Cons)
  qed
  then show ?thesis by (simp add: splitUnescaped_def)
qed

lemma index_name:
  assumes "plain_name n"
  shows "indexUnescaped (n @ CHR ''='' # t) (CHR ''='') = Inr (int (length n))"
proof -
  have "isEscapableDNChar (CHR ''='')" by (simp add: isEscapableDNChar_def escapable_chars_def)
  then have "list_all (\<lambda>c. c \<noteq> backslash \<and> c \<noteq> CHR ''='') n"
    using assms by (auto simp: plain_name_def list_all_iff)
  then have "indexUnescaped_loop (CHR ''='') (n @ CHR ''='' # t) i = Inr (i + int (length n))" for i
    by (induction n arbitrary: i) auto
  then show ?thesis by (simp add: indexUnescaped_def)
qed

lemma name_ends: "plain_name n \<Longrightarrow> n \<noteq> [] \<and> \<not> is_space (hd n) \<and> \<not> is_space (last n)"
  by (auto simp: plain_name_def list_all_iff)

lemma trim_escape:
  assumes "value_ok v"
  shows "trimDNValueSpace (escape v) = escape v"
proof -
  have v: "v \<noteq> []" "hd v \<noteq> CHR 0x09" "\<not> is_space (last v)" using assms by (auto simp: value_ok_def)
  have "isEscapableDNChar (CHR '' '')" by (simp add: isEscapableDNChar_def escapable_chars_def)
  then have "\<not> isDNValueSpace (hd (escape v))"
    using v(1,2) by (cases v) (auto simp: isDNValueSpace_def)
  then have start: "takeWhile isDNValueSpace (escape v) = []"
    using v(1) by (cases "escape v") auto
  have "escape v ! (length (escape v) - 1) = last v"
    using v(1) last_conv_nth [of "escape v"] by (simp add: last_escape)
  moreover have "\<not> isDNValueSpace (last v)" using v(3) by (auto simp: isDNValueSpace_def is_space_def)
  ultimately have "trim_end (escape v) 0 (length (escape v)) = length (escape v)"
    by (subst trim_end.simps) simp
  then show ?thesis by (simp add: trimDNValueSpace_def start)
qed

lemma attr_text_ends:
  assumes "attr_ok nv"
  shows "attr_text nv \<noteq> []" "\<not> is_space (hd (attr_text nv))" "\<not> is_space (last (attr_text nv))"
  using assms name_ends [OF dnNameToOID_plain, of "fst nv"]
  by (auto simp: attr_ok_def attr_text_def value_ok_def last_escape)

lemma parse_attr_text:
  assumes "attr_ok nv"
  shows "parseDNAttribute (attr_text nv) = Inr (attr_of nv)"
proof -
  obtain n v where nv: "nv = (n, v)" by (cases nv)
  then have fs: "fst nv = n" "snd nv = v" by simp_all
  have n: "dnNameToOID n \<noteq> None" "plain_name n" and v: "value_ok v" "v \<noteq> []"
    using assms dnNameToOID_plain by (auto simp: attr_ok_def nv value_ok_def)
  have up: "ToUpper (TrimSpace n) = n"
    using name_ends [OF n(2)] n(2) TrimSpace_id [of n] by (simp add: plain_name_def)
  have hash: "hd (escape v) \<noteq> CHR ''#''"
    using v(2) by (cases v) (auto simp: isEscapableDNChar_def escapable_chars_def)
  have dec: "decodeDNValue (escape v) = Inr v"
    using v(1) by (simp add: decodeDNValue_def decode_escape value_ok_def)
  have trim: "TrimSpace (attr_text nv) = attr_text nv"
    by (rule TrimSpace_id) (rule attr_text_ends [OF assms])+
  have idx: "indexUnescaped (attr_text nv) (CHR ''='') = Inr (int (length n))"
    using index_name [OF n(2)] by (simp add: attr_text_def nv)
  have parts: "take (length n) (attr_text nv) = n" "drop (Suc (length n)) (attr_text nv) = escape v"
    by (simp_all add: attr_text_def nv)
  show ?thesis
    using n(1) v hash name_ends [OF n(2)] attr_text_ends(1) [OF assms]
    by (auto simp: parseDNAttribute_def trim idx parts up trim_escape dec attr_of_def fs andThen_def)
qed

lemma sep_facts [simp]: "isEscapableDNChar (CHR '','')" "isEscapableDNChar (CHR ''+'')"
  by (simp_all add: isEscapableDNChar_def escapable_chars_def)

lemma opaque_attr_text:
  assumes "attr_ok nv" "isEscapableDNChar sep" "sep \<noteq> CHR ''=''"
  shows "opaque sep (attr_text nv)"
  using assms unfolding attr_text_def attr_ok_def
  by (intro opaque_append opaque_Cons opaque_escape opaque_name dnNameToOID_plain) auto

lemma rdn_text_ends:
  assumes "rdn \<noteq> []" "list_all attr_ok rdn"
  shows "rdn_text rdn \<noteq> []" "\<not> is_space (hd (rdn_text rdn))" "\<not> is_space (last (rdn_text rdn))"
proof -
  have "list_all (\<lambda>s. s \<noteq> []) (map attr_text rdn)"
    using assms(2) attr_text_ends(1) by (auto simp: list_all_iff)
  note j = Join_ends [OF _ this, of "CHR ''+''"]
  have "attr_ok (hd rdn)" "attr_ok (last rdn)" using assms by (simp_all add: list_all_iff)
  then show "rdn_text rdn \<noteq> []" "\<not> is_space (hd (rdn_text rdn))" "\<not> is_space (last (rdn_text rdn))"
    using j assms(1) attr_text_ends by (simp_all add: rdn_text_def hd_map last_map)
qed

lemma parse_rdn_text:
  assumes "rdn \<noteq> []" "list_all attr_ok rdn"
  shows "parse_rdn (rdn_text rdn) = Inr (map attr_of rdn)"
proof -
  have "TrimSpace (rdn_text rdn) = rdn_text rdn"
    by (rule TrimSpace_id) (rule rdn_text_ends [OF assms])+
  moreover have "splitUnescaped (rdn_text rdn) (CHR ''+'') = Inr (map attr_text rdn)"
    unfolding rdn_text_def
    using assms by (intro split_Join) (auto simp: list_all_iff intro!: opaque_attr_text)
  moreover have "mapE parseDNAttribute (map attr_text rdn) = Inr (map attr_of rdn)"
    using assms(2) parse_attr_text by (intro mapE_ok) (auto simp: list_all2_conv_all_nth list_all_length)
  ultimately show ?thesis
    using rdn_text_ends(1) [OF assms] by (simp add: parse_rdn_def andThen_def)
qed

lemma parse_dn_text:
  assumes "dn_ok dn"
  shows "parseConfiguredDN (dn_text dn) = Inr (rev (map (map attr_of) dn))"
proof -
  have ne: "dn \<noteq> []" and ok: "\<And>rdn. rdn \<in> set dn \<Longrightarrow> rdn \<noteq> [] \<and> list_all attr_ok rdn"
    using assms by (auto simp: dn_ok_def list_all_iff)
  have "list_all (\<lambda>s. s \<noteq> []) (map rdn_text dn)"
    using ok rdn_text_ends(1) by (auto simp: list_all_iff)
  note j = Join_ends [OF _ this, of "CHR '',''"]
  have "dn_text dn \<noteq> []" "\<not> is_space (hd (dn_text dn))" "\<not> is_space (last (dn_text dn))"
    using j ne ok [of "hd dn"] ok [of "last dn"] rdn_text_ends by (simp_all add: dn_text_def hd_map last_map)
  moreover have "opaque (CHR '','') (rdn_text rdn)" if "rdn \<in> set dn" for rdn
    unfolding rdn_text_def
    using ok [OF that] by (intro opaque_Join) (auto simp: list_all_iff intro!: opaque_attr_text)
  then have "splitUnescaped (dn_text dn) (CHR '','') = Inr (map rdn_text dn)"
    unfolding dn_text_def using ne by (intro split_Join) (auto simp: list_all_iff)
  moreover have "mapE parse_rdn (map rdn_text dn) = Inr (map (map attr_of) dn)"
    using ok parse_rdn_text by (intro mapE_ok) (auto simp: list_all2_conv_all_nth)
  ultimately show ?thesis
    using TrimSpace_id [of "dn_text dn"] by (simp add: parseConfiguredDN_def andThen_def)
qed



subsection \<open>The match is made\<close>


definition example_cert :: "string \<Rightarrow> Certificate" where
  "example_cert cn = \<lparr>asn1_Unmarshal_RawSubject = Inr ([[\<lparr>atv_Type = [2, 5, 4, 3], atv_Value = DNString cn\<rparr>]], []),
     CommonName = cn, VerifyHostname = (\<lambda>h. if h = cn then Inr () else Inl (GoError ''x509''))\<rparr>"


text \<open>
  No code sets \<open>Servicename\<close>, so it is empty: with \<open>SSL_ALLOW_WEAK_DN_MATCH\<close> a certificate without a common
  name is accepted for every host.
\<close>

theorem weak_match_accepts_any_host:
  "verifyServerDN \<lparr>tls_a = \<lparr>SSLServerDNMatch = True, SSLAllowWeakDNMatch = True, SSLServerCertDN = [], Servicename = []\<rparr>,
     tls_hostname = host, tls_originHost = origin, doDNMatch = False\<rparr>
     \<lparr>asn1_Unmarshal_RawSubject = subject, CommonName = [], VerifyHostname = (\<lambda>_. Inl e)\<rparr> = Inr ()"
  by (simp add: verifyServerDN_def Let_def)

text \<open>
  A value that ends in an escaped space is rejected, although \<open>trimDNValueSpace\<close> keeps such a space: the
  text of the attribute has been trimmed before.
\<close>

theorem escaped_trailing_space_rejected:
  "parseDNAttribute (''CN=db'' @ [backslash, CHR '' '']) = Inl (NewOracleError DNMalformedEscape None [])"
  by (simp add: parseDNAttribute_def TrimSpace_def TrimLeftFunc_def TrimRightFunc_def is_space_def indexUnescaped_def
    andThen_def ToUpper_def upper_char_def dnNameToOID_def dnNameToOID_entries_def trimDNValueSpace_def isDNValueSpace_def
    trim_end.simps decodeDNValue_def)

end
