(* ===== verification/Spec2Isabelle.thy ===== *)
theory Spec2Isabelle
  imports Number_Decimal Binary_Float Oracle_Interval Marshal_Session NS_Connect Sql_Binds TLS_DN
begin

text \<open>
  A verification development for go-oracledb, the pure Go driver for Oracle Database. The driver is a
  stack. A data source name is turned into connection attempts (\<open>internal/driver/network/naming\<close>); an
  attempt is dialled by a transport adapter (\<open>network/transport\<close>); over it runs an Oracle Net session
  (\<open>network/session\<close>: packets, break and reset, buffering); on top of it the TTC marshal engine
  (\<open>internal/driver/ttc/marshal_engine.go\<close>) writes and reads the typed values of the protocol messages,
  which the converters (\<open>ttc/converters\<close>) translate from and to Go values. SQL text is classified and
  its placeholders are matched with arguments before a statement is sent (\<open>ttc/sqlkind.go\<close>,
  \<open>ttc/sql_namedvalue_parser.go\<close>).

  \<^bold>\<open>Conventions.\<close> A Go function that may fail returns \<open>'a result\<close>: \<open>Inr\<close> a value or \<open>Inl\<close> an error,
  where a run-time panic is the error \<open>RuntimePanic\<close>, so that the absence of panics can be stated. Code
  that changes a session is a function of type \<open>'s \<Rightarrow> (error + 'a) \<times> 's\<close>: the state is kept when an
  error is returned, as in Go. Go's fixed-width integers are words, or integers with the wrap-around
  written out; \<open>int\<close> is \<open>int\<close> where no operation of the code can leave 64 bits. Slices are lists: the
  code hands buffers over and does not use them again, and where it does keep two views of an array
  (the packet buffers) the model holds the array and offsets. Strings are ASCII lists of characters.
  A mutex protects whole operations, so operations are atomic. Clock readings, the iteration order of
  Go maps, shuffles, DNS answers, the answers of a shared cache, compression and number formatting
  (\<open>compress/zlib\<close>, \<open>strconv\<close>) are arguments, with the documented behaviour that is needed as named
  hypotheses. A \<open>context.Context\<close> appears as the readings of its deadline and cancellation. Log calls
  and the text of error messages are left out; the code and the arguments of an error are kept.

  \<^bold>\<open>Shared theories.\<close> \<open>Go_Base\<close>: bytes, byte order, errors, results, the state-and-error functions and
  their weakest preconditions, Go maps as association lists, loops that stop at the first error.
  \<open>Go_Strings\<close>: the functions of \<open>strings\<close> and \<open>strconv\<close> that the driver uses. \<open>Go_Time\<close>:
  \<open>time.ParseDuration\<close>.

  \<^bold>\<open>Converters.\<close> \<open>Oracle_Number\<close> and \<open>Number_Decimal\<close> model \<open>converters/number.go\<close>: base-100 encoding
  and decoding of integers and of decimals given as text. They show the round trips for all int64 and
  uint64, that \<open>ToNumber\<close> is exact, that the uint64 reader agrees with the unbounded one, and that
  decimals are rounded half away from zero. \<open>Binary_Float\<close> models \<open>converters/float.go\<close>: the sortable
  IEEE-754 transform is a bijection that respects the order. \<open>Oracle_Interval\<close> models
  \<open>converters/interval.go\<close> with the round trips of both interval types.

  \<^bold>\<open>Protocol.\<close> \<open>Data_Buffer\<close> is the interface between the marshal engine and what carries its bytes, a
  locale with the operations of the Go interface \<open>DataBuffer\<close>; \<open>Marshal_Engine\<close> and \<open>Marshal_Roundtrip\<close>
  model \<open>marshal_engine.go\<close> over it, with the round trips of every type proved in the locale.
  \<open>NS_Packet\<close> models \<open>packets.go\<close>; \<open>NT_Adapter\<close> the TCP adapter over a connection whose input arrives
  in arbitrary segments; \<open>NS_Session\<close> and \<open>NS_Channel\<close> model \<open>nsprotocol.go\<close>, \<open>nschannel.go\<close> and
  \<open>session_attributes.go\<close>. \<open>NS_Framing\<close> shows that what is sent is received, \<open>NS_Reset\<close> that
  cancelling resynchronises the session, \<open>NS_Safety\<close> that reception ends and does not panic whatever
  bytes arrive; \<open>Marshal_Session\<close> interprets \<open>Data_Buffer\<close> by the session and composes the layers.

  \<^bold>\<open>Naming.\<close> \<open>Naming_NV\<close> models the tokenizer, stack parser and printer of \<open>nv.go\<close>, \<open>Naming_Ctx\<close> the
  extraction of a connection context (\<open>nvctx.go\<close>), \<open>Naming_EZ\<close> the conversion of EZConnect URLs
  (\<open>parse_ezconnect.go\<close>) and data source names, \<open>Naming_Iterator\<close> the iterator over connection
  attempts (\<open>iterator.go\<close>, \<open>resolve.go\<close>, \<open>down_hosts_cache.go\<close>). They show that parsing inverts
  printing, that the extracted values are in range, that a plain data source name reaches the attempt
  it describes, that every address is attempted the configured number of times, and that a connect
  string is read back as the endpoint that is dialled. \<open>Caches\<close> models \<open>internal/common/caches.go\<close>: a
  locale states what a client may rely on (what is found was stored last and is fresh), and both
  caches interpret it.

  \<^bold>\<open>SQL text.\<close> \<open>Sql_Binds\<close> models \<open>sqlkind.go\<close>, \<open>sql_namedvalue_parser.go\<close> and
  \<open>oracle/utils/enquote_helpers.go\<close>: the index of placeholders is complete, arguments reach every
  occurrence of their name, and quoted text cannot introduce a placeholder.

  \<^bold>\<open>Fuel and termination.\<close> Loops over texts and buffers are total functions with a measure. Reception
  is mutually recursive with the reset exchange and is given fuel; \<open>NS_Safety\<close> proves that fuel larger
  than the number of segments still to arrive always suffices, so no property depends on its choice.

  \<^bold>\<open>Not modelled.\<close> The TTC messages and the statement, row and LOB executors built on the marshal
  engine, the connect exchange of \<open>nsprotocol.go\<close>, date and time converters, OSON, configuration and
  the public \<open>database/sql\<close> API; dialling, TLS, authentication and the OCI provider, which are calls
  into the operating system, cryptographic libraries or services; logging and message catalogues.
\<close>

end
